(* ===== verification/Prelude.thy ===== *)
theory Prelude
  imports Main "HOL-Library.Word"
begin

text \<open>
  Shared vocabulary of the development: the machine integer types of
  \<^verbatim>\<open>src/src/types.h\<close>, the outcomes a kernel path can have besides returning,
  the sequencing combinator for such paths, and the generic facts on words,
  lists and results that the component theories use.
\<close>

unbundle bit_operations_syntax

section \<open>Machine integers\<close>

type_synonym u8 = "8 word"
type_synonym u16 = "16 word"
type_synonym u32 = "32 word"

text \<open>Fact collections: the values of word operations as natural numbers, the
  reads that survive a memory update, and the closed forms of the C loops.\<close>

named_theorems unat_simps
named_theorems frame_simps
named_theorems loop_simps

section \<open>Outcomes of a kernel path\<close>

text \<open>
  A kernel path either returns or ends in one of these ways: a call of
  \<open>panic\<close> with its message, a dereference of a null pointer, an array index
  outside the array, a page fault of the processor on a linear address, a wait for
  something another path has to do first (a sleep lock held by someone else, log space), or
  a loop that has used up the bound given to it in the model.
\<close>

datatype err =
    Panic string
  | NullDeref
  | OutOfBounds
  | PageFault u32
  | WouldBlock
  | NoFuel

type_synonym 'a res = "err + 'a"

definition bindE :: "err + 'a \<Rightarrow> ('a \<Rightarrow> err + 'b) \<Rightarrow> err + 'b" where
  "bindE m f = (case m of Inl e \<Rightarrow> Inl e | Inr x \<Rightarrow> f x)"

lemma bindE_simps [simp]:
  "bindE (Inl e) f = Inl e"
  "bindE (Inr x) f = f x"
  by (simp_all add: bindE_def)

lemma bindE_Inr_iff: "bindE m f = Inr y \<longleftrightarrow> (\<exists>x. m = Inr x \<and> f x = Inr y)"
  by (cases m) auto

lemma bindE_Inl_iff:
  "bindE m f = Inl e \<longleftrightarrow> m = Inl e \<or> (\<exists>x. m = Inr x \<and> f x = Inl e)"
  by (cases m) auto

lemma bindE_InrE [elim]:
  assumes "bindE m f = Inr y"
  obtains x where "m = Inr x" and "f x = Inr y"
  using assms by (auto simp: bindE_Inr_iff)

lemma bindE_cong [fundef_cong]:
  "m = m' \<Longrightarrow> (\<And>x. m' = Inr x \<Longrightarrow> f x = f' x) \<Longrightarrow> bindE m f = bindE m' f'"
  by (cases m') auto

lemma bindE_assoc: "bindE (bindE m f) g = bindE m (\<lambda>x. bindE (f x) g)"
  by (cases m) auto

text \<open>The guard of a C \<open>if (c) panic(msg)\<close> and of a dereference.\<close>

definition guardE :: "bool \<Rightarrow> err \<Rightarrow> err + unit" where
  "guardE ok e = (if ok then Inr () else Inl e)"

lemma guardE_simps [simp]:
  "guardE True e = Inr ()"
  "guardE False e = Inl e"
  "guardE b e = Inr u \<longleftrightarrow> b"
  by (simp_all add: guardE_def)

section \<open>Words as natural numbers\<close>

lemma unat_lt32: "unat (x :: u32) < 4294967296"
  using unsigned_less [of x] by simp

lemma unat_le32: "unat (x :: u32) \<le> 4294967295"
  using unat_lt32 [of x] by linarith

lemma u32_eqI: "unat (x :: u32) = unat y \<Longrightarrow> x = y"
  by (rule word_unat_eq_iff [THEN iffD2])

lemma uint_eq_iff [simp]: "uint x = uint y \<longleftrightarrow> x = (y :: 'a::len word)"
  by (simp add: word_uint_eq_iff)

lemma unat_add32 [unat_simps]: "unat (x + y :: u32) = (unat x + unat y) mod 4294967296"
  by (simp add: unat_word_ariths)

lemma unat_sub32 [unat_simps]:
  "unat (x - y :: u32) = (unat x + (4294967296 - unat y)) mod 4294967296"
proof (cases "unat y \<le> unat x")
  case True
  then have "unat x + (4294967296 - unat y) = 4294967296 + (unat x - unat y)"
    using unat_lt32 [of y] by linarith
  moreover have "unat x - unat y < 4294967296"
    using unat_lt32 [of x] by (rule less_imp_diff_less)
  then have "(4294967296 + (unat x - unat y)) mod 4294967296 = unat x - unat y"
    by simp
  ultimately show ?thesis
    using True by (simp add: unat_sub_if_size)
next
  case False
  then have "unat x + (4294967296 - unat y) < 4294967296"
    using unat_lt32 [of y] by linarith
  moreover have "unat x + 4294967296 - unat y = unat x + (4294967296 - unat y)"
    using unat_lt32 [of y] by linarith
  ultimately show ?thesis
    using False by (simp add: unat_sub_if_size word_size)
qed

lemma unat_mult32 [unat_simps]: "unat (x * y :: u32) = (unat x * unat y) mod 4294967296"
  by (simp add: unat_word_ariths)

lemma unat_mod32 [unat_simps]: "unat (x mod y :: u32) = unat x mod unat y"
  by (simp add: unat_mod)

lemma unat_div32 [unat_simps]: "unat (x div y :: u32) = unat x div unat y"
  by (simp add: unat_div)

lemma unat_sub_le: "y \<le> x \<Longrightarrow> unat (x - y :: u32) = unat x - unat y"
  by (simp add: unat_sub)

lemma unat_add_small:
  "unat x + unat y < 4294967296 \<Longrightarrow> unat (x + y :: u32) = unat x + unat y"
  by (simp add: unat_add32)

lemma and_3FF: "x AND 0x3FF = take_bit 10 (x :: u32)"
  by (simp add: take_bit_eq_mask mask_eq_exp_minus_1)

lemma and_FFF: "x AND 0xFFF = take_bit 12 (x :: u32)"
  by (simp add: take_bit_eq_mask mask_eq_exp_minus_1)

lemma unat_take_bit32: "unat (take_bit n (x :: u32)) = unat x mod 2 ^ n"
  by (subst unsigned_take_bit_eq) (rule take_bit_eq_mod)

lemma unat_drop_bit32 [unat_simps]: "unat (drop_bit n (x :: u32)) = unat x div 2 ^ n"
  by (subst unat_drop_bit_eq) (rule drop_bit_eq_div)

lemma and_not_FFF_add: "(x AND NOT 0xFFF) + (x AND 0xFFF) = (x :: u32)"
proof -
  have "(x AND NOT 0xFFF) + (x AND 0xFFF) = (x AND NOT 0xFFF) OR (x AND 0xFFF)"
    by (rule disjunctive_add_eq_or) (simp add: bit_eq_iff bit_simps)
  also have "\<dots> = x"
    by (rule bit_word_eqI) (auto simp: bit_simps)
  finally show ?thesis .
qed

lemma and_not_FFF: "x AND - 4096 = x - (x AND 0xFFF :: u32)"
  using and_not_FFF_add [of x] by (simp add: algebra_simps)

lemma unat_and_FFF [unat_simps]: "unat (x AND 0xFFF :: u32) = unat x mod 4096"
  by (simp add: and_FFF unat_take_bit32)

lemma unat_and_3FF [unat_simps]: "unat (x AND 0x3FF :: u32) = unat x mod 1024"
  by (simp add: and_3FF unat_take_bit32)

lemma unat_and_not_FFF [unat_simps]: "unat (x AND - 4096 :: u32) = unat x - unat x mod 4096"
proof -
  have "(x AND 0xFFF) \<le> x"
    by (simp add: word_le_nat_alt unat_and_FFF)
  then show ?thesis
    by (simp add: and_not_FFF unat_sub_le unat_and_FFF)
qed

lemma div_Suc_page:
  "Suc n = k div (4096 :: nat) \<Longrightarrow> 4096 \<le> k \<and> n = (k - 4096) div 4096"
  by (cases "k < 4096") (auto simp: le_div_geq)

section \<open>Single flag bits\<close>

lemma bit_u8_beyond [simp]:
  "\<not> bit (c :: u8) (8 + n)" "\<not> bit c (16 + n)" "\<not> bit c (24 + n)"
  by (auto dest: bit_imp_le_length)

lemma and_bit_ne_0: "(x AND 2 ^ n \<noteq> 0) = bit (x :: u32) n"
  by (simp only: and_exp_eq_0_iff_not_bit not_not)

end
