(* ===== verification/Mmu.thy ===== *)
theory Mmu
  imports Prelude
begin

text \<open>
  The constants and address macros of \<^verbatim>\<open>src/src/mmu.h\<close>,
  \<^verbatim>\<open>src/src/memlayout.h\<close> and \<^verbatim>\<open>src/src/param.h\<close>: page rounding, the split of
  a virtual address into directory index, table index and offset, the fields of a
  page table entry, and the segment and gate descriptors. All values are 32-bit
  words, as in the C code.
\<close>

section \<open>Constants\<close>

definition PGSIZE :: u32 where [simp]: "PGSIZE = 4096"
definition NPDENTRIES :: nat where [simp]: "NPDENTRIES = 1024"
definition NPTENTRIES :: nat where [simp]: "NPTENTRIES = 1024"
definition PTXSHIFT :: nat where [simp]: "PTXSHIFT = 12"
definition PDXSHIFT :: nat where [simp]: "PDXSHIFT = 22"
definition MAX_PTX :: u32 where [simp]: "MAX_PTX = 0x3FF"

definition PTE_P :: u32 where [simp]: "PTE_P = 0x001"
definition PTE_W :: u32 where [simp]: "PTE_W = 0x002"
definition PTE_U :: u32 where [simp]: "PTE_U = 0x004"
definition PTE_A :: u32 where [simp]: "PTE_A = 0x020"
definition PTE_PS :: u32 where [simp]: "PTE_PS = 0x080"
definition PTE_E :: u32 where [simp]: "PTE_E = 0x400"

definition EXTMEM :: u32 where [simp]: "EXTMEM = 0x100000"
definition PHYSTOP :: u32 where [simp]: "PHYSTOP = 0xE000000"
definition DEVSPACE :: u32 where [simp]: "DEVSPACE = 0xFE000000"
definition KERNBASE :: u32 where [simp]: "KERNBASE = 0x80000000"
definition KERNLINK :: u32 where [simp]: "KERNLINK = KERNBASE + EXTMEM"

definition NPROC :: nat where [simp]: "NPROC = 64"
definition KSTACKSIZE :: u32 where [simp]: "KSTACKSIZE = 4096"
definition NOFILE :: nat where [simp]: "NOFILE = 16"
definition CLOCKSIZE :: nat where [simp]: "CLOCKSIZE = 8"

definition FL_IF :: u32 where [simp]: "FL_IF = 0x200"
definition SEG_KCODE :: u32 where [simp]: "SEG_KCODE = 1"
definition SEG_KDATA :: u32 where [simp]: "SEG_KDATA = 2"
definition SEG_UCODE :: u32 where [simp]: "SEG_UCODE = 3"
definition SEG_UDATA :: u32 where [simp]: "SEG_UDATA = 4"
definition SEG_TSS :: u32 where [simp]: "SEG_TSS = 5"
definition DPL_USER :: u32 where [simp]: "DPL_USER = 3"

section \<open>Address macros\<close>

definition V2P :: "u32 \<Rightarrow> u32" where "V2P a = a - KERNBASE"
definition P2V :: "u32 \<Rightarrow> u32" where "P2V a = a + KERNBASE"

definition PDX :: "u32 \<Rightarrow> u32" where "PDX va = drop_bit PDXSHIFT va AND 0x3FF"
definition PTX :: "u32 \<Rightarrow> u32" where "PTX va = drop_bit PTXSHIFT va AND MAX_PTX"
definition PPN :: "u32 \<Rightarrow> u32" where "PPN pa = drop_bit PTXSHIFT pa"
definition OFFSET :: "u32 \<Rightarrow> u32" where "OFFSET va = va AND 0xFFF"

definition PGADDR :: "u32 \<Rightarrow> u32 \<Rightarrow> u32 \<Rightarrow> u32" where
  "PGADDR d t off = push_bit PDXSHIFT d OR push_bit PTXSHIFT t OR off"

definition PGROUNDUP :: "u32 \<Rightarrow> u32" where
  "PGROUNDUP sz = (sz + PGSIZE - 1) AND NOT (PGSIZE - 1)"

definition PGROUNDDOWN :: "u32 \<Rightarrow> u32" where
  "PGROUNDDOWN a = a AND NOT (PGSIZE - 1)"

definition PTE_ADDR :: "u32 \<Rightarrow> u32" where "PTE_ADDR pte = pte AND NOT 0xFFF"
definition PTE_FLAGS :: "u32 \<Rightarrow> u32" where "PTE_FLAGS pte = pte AND 0xFFF"

text \<open>A C condition \<open>x & f\<close>: some bit of the mask is set.\<close>

definition has :: "u32 \<Rightarrow> u32 \<Rightarrow> bool" where
  "has x f \<longleftrightarrow> x AND f \<noteq> 0"

section \<open>Descriptors\<close>

record segdesc =
  lim_15_0 :: u16
  base_15_0 :: u16
  base_23_16 :: u8
  seg_type :: "4 word"
  seg_s :: "1 word"
  seg_dpl :: "2 word"
  seg_p :: "1 word"
  lim_19_16 :: "4 word"
  seg_avl :: "1 word"
  seg_rsv1 :: "1 word"
  seg_db :: "1 word"
  seg_g :: "1 word"
  base_31_24 :: u8

definition SEG :: "u32 \<Rightarrow> u32 \<Rightarrow> u32 \<Rightarrow> u32 \<Rightarrow> segdesc" where
  "SEG type base lim dpl =
    \<lparr>lim_15_0 = ucast (drop_bit 12 lim AND 0xffff), base_15_0 = ucast (base AND 0xffff),
     base_23_16 = ucast (drop_bit 16 base AND 0xff), seg_type = ucast type, seg_s = 1,
     seg_dpl = ucast dpl, seg_p = 1, lim_19_16 = ucast (drop_bit 28 lim), seg_avl = 0,
     seg_rsv1 = 0, seg_db = 1, seg_g = 1, base_31_24 = ucast (drop_bit 24 base)\<rparr>"

definition SEG16 :: "u32 \<Rightarrow> u32 \<Rightarrow> u32 \<Rightarrow> u32 \<Rightarrow> segdesc" where
  "SEG16 type base lim dpl =
    \<lparr>lim_15_0 = ucast (lim AND 0xffff), base_15_0 = ucast (base AND 0xffff),
     base_23_16 = ucast (drop_bit 16 base AND 0xff), seg_type = ucast type, seg_s = 1,
     seg_dpl = ucast dpl, seg_p = 1, lim_19_16 = ucast (drop_bit 16 lim), seg_avl = 0,
     seg_rsv1 = 0, seg_db = 1, seg_g = 0, base_31_24 = ucast (drop_bit 24 base)\<rparr>"

text \<open>The base address and the limit the processor reads back from a descriptor.\<close>

definition seg_base :: "segdesc \<Rightarrow> u32" where
  "seg_base d = ucast (base_15_0 d) OR push_bit 16 (ucast (base_23_16 d))
     OR push_bit 24 (ucast (base_31_24 d))"

record gatedesc =
  off_15_0 :: u16
  gate_cs :: u16
  gate_args :: "5 word"
  gate_rsv1 :: "3 word"
  gate_type :: "4 word"
  gate_s :: "1 word"
  gate_dpl :: "2 word"
  gate_p :: "1 word"
  off_31_16 :: u16

definition SETGATE :: "bool \<Rightarrow> u32 \<Rightarrow> u32 \<Rightarrow> u32 \<Rightarrow> gatedesc" where
  "SETGATE istrap sel off d =
    \<lparr>off_15_0 = ucast (off AND 0xffff), gate_cs = ucast sel, gate_args = 0, gate_rsv1 = 0,
     gate_type = (if istrap then 0xF else 0xE), gate_s = 0, gate_dpl = ucast d, gate_p = 1,
     off_31_16 = ucast (drop_bit 16 off)\<rparr>"

definition gate_offset :: "gatedesc \<Rightarrow> u32" where
  "gate_offset g = ucast (off_15_0 g) OR push_bit 16 (ucast (off_31_16 g))"

section \<open>Flags as bits\<close>

lemma has_P: "has x 1 = bit x 0"
  using and_bit_ne_0 [of x 0] by (simp add: has_def)

lemma has_bits [simp]:
  "has x 2 = bit x 1" "has x 4 = bit x 2" "has x 32 = bit x 5"
  "has x 128 = bit x 7" "has x 1024 = bit x 10" "has x 512 = bit x 9"
  using and_bit_ne_0 [of x 1] and_bit_ne_0 [of x 2] and_bit_ne_0 [of x 5]
    and_bit_ne_0 [of x 7] and_bit_ne_0 [of x 10] and_bit_ne_0 [of x 9]
  by (simp_all add: has_def)

lemma has_or: "has x (f OR g) \<longleftrightarrow> has x f \<or> has x g"
proof -
  have "x AND (f OR g) = (x AND f) OR (x AND g)"
    by (rule bit_word_eqI) (auto simp: bit_simps)
  then show ?thesis
    by (simp add: has_def or_eq_0_iff)
qed

section \<open>Addresses as natural numbers\<close>

lemma unat_PDX [unat_simps]: "unat (PDX va) = unat va div 4194304"
proof -
  have "unat va div 4194304 < 1024"
    using unat_lt32 [of va] by (simp add: less_mult_imp_div_less)
  then show ?thesis
    by (simp add: PDX_def unat_and_3FF unat_drop_bit32)
qed

lemma unat_PTX [unat_simps]: "unat (PTX va) = unat va div 4096 mod 1024"
  by (simp add: PTX_def unat_and_3FF unat_drop_bit32)

lemma unat_OFFSET [unat_simps]: "unat (OFFSET va) = unat va mod 4096"
  by (simp add: OFFSET_def unat_and_FFF)

lemma unat_PGROUNDDOWN [unat_simps]: "unat (PGROUNDDOWN a) = unat a - unat a mod 4096"
  using unat_and_not_FFF [of a] by (simp add: PGROUNDDOWN_def)

lemma PTE_ADDR_eq: "PTE_ADDR = PGROUNDDOWN"
  by (simp add: fun_eq_iff PTE_ADDR_def PGROUNDDOWN_def)

lemma PTE_FLAGS_eq: "PTE_FLAGS = OFFSET"
  by (simp add: fun_eq_iff PTE_FLAGS_def OFFSET_def)

section \<open>Page alignment\<close>

definition aligned :: "u32 \<Rightarrow> bool" where
  "aligned a \<longleftrightarrow> a mod PGSIZE = 0"

lemma aligned_unat: "aligned a \<longleftrightarrow> unat a mod 4096 = 0"
  by (simp add: aligned_def word_unat_eq_iff unat_mod32)

lemma PGROUNDDOWN_OFFSET: "PGROUNDDOWN a + OFFSET a = a"
  using and_not_FFF_add [of a] by (simp add: PGROUNDDOWN_def OFFSET_def)

lemma aligned_OFFSET: "aligned a \<longleftrightarrow> OFFSET a = 0"
  by (simp add: aligned_unat word_unat_eq_iff unat_OFFSET)

lemma aligned_PGROUNDDOWN [simp, intro]: "aligned (PGROUNDDOWN a)"
  by (simp add: aligned_unat unat_PGROUNDDOWN flip: minus_mod_eq_mult_div)

lemma PGROUNDDOWN_aligned [simp]: "aligned a \<Longrightarrow> PGROUNDDOWN a = a"
  using PGROUNDDOWN_OFFSET [of a] by (simp add: aligned_OFFSET)

lemma OFFSET_aligned [simp]: "aligned a \<Longrightarrow> OFFSET a = 0"
  by (simp add: aligned_OFFSET)

lemma unat_OFFSET_less [simp]: "unat (OFFSET a) < 4096"
  by (simp add: unat_OFFSET)

lemma aligned_le: "aligned p \<Longrightarrow> unat p \<le> 4294963200"
proof -
  assume "aligned p"
  then have "unat p = 4096 * (unat p div 4096)"
    by (auto simp: aligned_unat)
  moreover have "unat p div 4096 \<le> 1048575"
    using unat_lt32 [of p] div_le_mono [of "unat p" 4294967295 4096] by simp
  ultimately show ?thesis by linarith
qed

lemma aligned_add_small:
  assumes "aligned p" and "unat x < 4096"
  shows "unat (p + x) = unat p + unat x"
proof -
  have "unat p + unat x < 4294967296"
    using aligned_le [OF assms(1)] assms(2) by linarith
  then show ?thesis by (rule unat_add_small)
qed

lemma PGROUNDDOWN_add:
  assumes "aligned p" and "unat x < 4096"
  shows "PGROUNDDOWN (p + x) = p"
proof (rule u32_eqI)
  have "(unat p + unat x) mod 4096 = unat x"
    using assms by (simp add: aligned_unat mod_add_eq [symmetric])
  then show "unat (PGROUNDDOWN (p + x)) = unat p"
    by (simp add: unat_PGROUNDDOWN aligned_add_small [OF assms])
qed

lemma OFFSET_add:
  assumes "aligned p" and "unat x < 4096"
  shows "OFFSET (p + x) = x"
proof (rule u32_eqI)
  have "(unat p + unat x) mod 4096 = unat x"
    using assms by (simp add: aligned_unat mod_add_eq [symmetric])
  then show "unat (OFFSET (p + x)) = unat x"
    by (simp add: unat_OFFSET aligned_add_small [OF assms])
qed

lemma PGROUNDDOWN_add_OFFSET [simp]: "aligned p \<Longrightarrow> PGROUNDDOWN (p + OFFSET a) = p"
  by (simp add: PGROUNDDOWN_add)

lemma PTE_ADDR_aligned [simp, intro]: "aligned (PTE_ADDR x)"
  by (simp add: PTE_ADDR_eq)

lemma aligned_dvd: "aligned a \<longleftrightarrow> 4096 dvd unat a"
  by (simp add: aligned_unat mod_eq_0_iff_dvd)

lemma aligned_add [intro]: "aligned a \<Longrightarrow> aligned b \<Longrightarrow> aligned (a + b)"
  unfolding aligned_dvd unat_add32 by (intro dvd_mod dvd_add) simp_all

lemma aligned_diff [intro]: "aligned a \<Longrightarrow> aligned b \<Longrightarrow> aligned (a - b)"
  unfolding aligned_dvd unat_sub32 by (intro dvd_mod dvd_add dvd_diff_nat) simp_all

lemma aligned_numerals [simp]:
  "aligned 0" "aligned 4096" "aligned 0x80000000"
  by (simp_all add: aligned_unat)

lemma aligned_P2V [simp]: "aligned (P2V a) \<longleftrightarrow> aligned a"
proof
  assume "aligned (P2V a)"
  then have "aligned (P2V a - 0x80000000)" by (rule aligned_diff) simp
  then show "aligned a" by (simp add: P2V_def)
next
  assume "aligned a"
  then show "aligned (P2V a)" by (auto simp: P2V_def)
qed

lemma V2P_P2V [simp]: "V2P (P2V a) = a" and P2V_V2P [simp]: "P2V (V2P a) = a"
  by (simp_all add: V2P_def P2V_def)

lemma P2V_inject [simp]: "P2V a = P2V b \<longleftrightarrow> a = b"
  by (simp add: P2V_def)

lemma V2P_inject [simp]: "V2P a = V2P b \<longleftrightarrow> a = b"
  by (simp add: V2P_def)

lemma aligned_V2P [simp]: "aligned (V2P a) \<longleftrightarrow> aligned a"
  using aligned_P2V [of "V2P a"] by simp

section \<open>Address and flags of an entry\<close>

lemma aligned_or:
  assumes "aligned a" and "unat f < 4096"
  shows "a OR f = a + f"
proof -
  have f: "f AND 0xFFF = f"
    by (rule u32_eqI) (use assms(2) in \<open>simp add: unat_and_FFF\<close>)
  have "a AND 0xFFF = 0"
    using assms(1) by (simp add: aligned_OFFSET OFFSET_def)
  then have "(a AND 0xFFF) AND f = 0" by (simp only: zero_and_eq)
  then have "a AND (f AND 0xFFF) = 0" by (simp only: ac_simps)
  then have "a AND f = 0" by (simp only: f)
  then show ?thesis by (simp add: disjunctive_add_eq_or)
qed

lemma PTE_ADDR_or [simp]: "aligned a \<Longrightarrow> unat f < 4096 \<Longrightarrow> PTE_ADDR (a OR f) = a"
  by (simp add: aligned_or PTE_ADDR_eq PGROUNDDOWN_add)

lemma PTE_FLAGS_or: "aligned a \<Longrightarrow> unat f < 4096 \<Longrightarrow> PTE_FLAGS (a OR f) = f"
  by (simp add: aligned_or PTE_FLAGS_eq OFFSET_add)

lemma PTE_ADDR_FLAGS: "PTE_ADDR e OR PTE_FLAGS e = e"
  using PGROUNDDOWN_OFFSET [of e] by (simp add: aligned_or PTE_ADDR_eq PTE_FLAGS_eq)

lemma bit_low_aligned: "aligned a \<Longrightarrow> n < 12 \<Longrightarrow> \<not> bit a n"
proof -
  assume a: "aligned a" and n: "n < 12"
  have "take_bit 12 a = 0"
    using a by (simp add: aligned_OFFSET OFFSET_def and_FFF)
  moreover have "bit (take_bit 12 a) n \<longleftrightarrow> bit a n"
    using n by (simp add: bit_take_bit_iff)
  ultimately show ?thesis by simp
qed

section \<open>Directory and table index\<close>

lemma unat_PDX_less [simp]: "unat (PDX va) < 1024"
  using unat_lt32 [of va] by (simp add: unat_PDX less_mult_imp_div_less)

lemma unat_PTX_less [simp]: "unat (PTX va) < 1024"
  by (simp add: unat_PTX)

lemma div_4194304: "n div 4194304 = n div 4096 div (1024 :: nat)"
  by (simp flip: div_mult2_eq)

lemma PDX_PGROUNDDOWN [simp]: "PDX (PGROUNDDOWN va) = PDX va"
  by (rule u32_eqI) (simp add: unat_PDX unat_PGROUNDDOWN minus_mod_eq_mult_div div_4194304)

lemma PTX_PGROUNDDOWN [simp]: "PTX (PGROUNDDOWN va) = PTX va"
  by (rule u32_eqI) (simp add: unat_PTX unat_PGROUNDDOWN minus_mod_eq_mult_div)

lemma page_eq_iff:
  "PGROUNDDOWN va = PGROUNDDOWN vb \<longleftrightarrow> PDX va = PDX vb \<and> PTX va = PTX vb"
proof
  assume "PGROUNDDOWN va = PGROUNDDOWN vb"
  then show "PDX va = PDX vb \<and> PTX va = PTX vb"
    by (metis PDX_PGROUNDDOWN PTX_PGROUNDDOWN)
next
  assume "PDX va = PDX vb \<and> PTX va = PTX vb"
  then have "unat (PDX va) = unat (PDX vb)" and "unat (PTX va) = unat (PTX vb)"
    by simp_all
  then have "unat va div 4096 div 1024 = unat vb div 4096 div 1024"
    and "unat va div 4096 mod 1024 = unat vb div 4096 mod 1024"
    by (simp_all only: unat_PDX unat_PTX div_4194304)
  then have "unat va div 4096 = unat vb div 4096"
    by (metis div_mult_mod_eq)
  then show "PGROUNDDOWN va = PGROUNDDOWN vb"
    by (intro u32_eqI) (simp add: unat_PGROUNDDOWN minus_mod_eq_mult_div)
qed

lemma unat_four_times: "unat i < 1024 \<Longrightarrow> unat (4 * i :: u32) = 4 * unat i"
  by (simp add: unat_mult32)

lemma slot_page:
  assumes "aligned p" and "unat i < 1024"
  shows "PGROUNDDOWN (p + 4 * i) = p"
  using assms by (simp add: PGROUNDDOWN_add unat_four_times)

lemma slot_inject:
  assumes "unat i < 1024" and "unat j < 1024"
  shows "p + 4 * i = p + 4 * j \<longleftrightarrow> i = (j :: u32)"
proof
  assume "p + 4 * i = p + 4 * j"
  then have "unat (4 * i) = unat (4 * j)" by simp
  then show "i = j" using assms by (intro u32_eqI) (simp add: unat_four_times)
qed simp

lemma four_times_inject [simp]:
  "4 * PDX va = 4 * PDX vb \<longleftrightarrow> PDX va = PDX vb" "4 * PTX va = 4 * PTX vb \<longleftrightarrow> PTX va = PTX vb"
  using slot_inject [of _ _ 0] by simp_all

lemma slot_word_aligned:
  assumes "aligned p" and "unat i < 1024"
  shows "(p + 4 * i) mod 4 = 0"
proof -
  have "unat (p + 4 * i) = unat p + 4 * unat i"
    using assms by (simp add: aligned_add_small unat_four_times)
  moreover have "(unat p + 4 * unat i) mod 4 = 0"
    using assms(1) dvd_trans [of 4 4096 "unat p"] by (simp add: aligned_dvd mod_eq_0_iff_dvd)
  ultimately show ?thesis
    by (simp add: word_unat_eq_iff unat_mod32)
qed

section \<open>Rounding up\<close>

lemma PGROUNDUP_eq: "PGROUNDUP a = PGROUNDDOWN (a + 4095)"
proof -
  have "a + 4096 - 1 = a + (4096 - 1)" by (rule add_diff_eq [symmetric])
  then show ?thesis by (simp add: PGROUNDUP_def PGROUNDDOWN_def add.commute)
qed

lemma aligned_PGROUNDUP [simp]: "aligned (PGROUNDUP a)"
  by (simp add: PGROUNDUP_eq)

lemma PGROUNDUP_aligned [simp]: "aligned a \<Longrightarrow> PGROUNDUP a = a"
  unfolding PGROUNDUP_eq by (rule PGROUNDDOWN_add) simp_all

lemma unat_PGROUNDUP:
  assumes "unat a \<le> 4294963200"
  shows "unat (PGROUNDUP a) = (unat a + 4095) div 4096 * 4096"
proof -
  have "unat (a + 4095) = unat a + 4095"
    using assms by (simp add: unat_add_small)
  then show ?thesis
    by (simp add: PGROUNDUP_eq unat_PGROUNDDOWN minus_mod_eq_mult_div)
qed

lemma PGROUNDUP_ge:
  assumes "unat a \<le> 4294963200"
  shows "a \<le> PGROUNDUP a"
proof -
  have "unat a \<le> (unat a + 4095) div 4096 * 4096"
    using div_mult_mod_eq [of "unat a + 4095" 4096] mod_less_divisor [of 4096 "unat a + 4095"]
    by linarith
  then show ?thesis
    using assms by (simp add: word_le_nat_alt unat_PGROUNDUP)
qed

section \<open>Splitting and joining addresses\<close>

lemma fields_take_bit:
  "PDX va = take_bit 10 (drop_bit 22 va)" "PTX va = take_bit 10 (drop_bit 12 va)" "OFFSET va = take_bit 12 va"
  by (simp_all add: PDX_def PTX_def OFFSET_def flip: and_3FF and_FFF)

lemma PGADDR_fields:
  fixes d t off :: u32
  defines "a \<equiv> PGADDR (take_bit 10 d) (take_bit 10 t) (take_bit 12 off)"
  shows "PDX a = take_bit 10 d" and "PTX a = take_bit 10 t" and "OFFSET a = take_bit 12 off"
  unfolding a_def PGADDR_def fields_take_bit
  by (auto intro!: bit_word_eqI simp: bit_simps)

lemma PGADDR_join: "PGADDR (PDX va) (PTX va) (OFFSET va) = va"
proof (rule bit_word_eqI)
  fix n assume "n < LENGTH(32)"
  then show "bit (PGADDR (PDX va) (PTX va) (OFFSET va)) n = bit va n"
    unfolding PGADDR_def fields_take_bit
    by (cases "n < 12"; cases "n < 22") (auto simp: bit_simps)
qed

text \<open>Splitting an address with \<open>PDX\<close>, \<open>PTX\<close> and \<open>OFFSET\<close> and putting it together again
  with \<open>PGADDR\<close> gives the address back; and the three fields of an address built by
  \<open>PGADDR\<close> are its arguments, cut to 10, 10 and 12 bits.\<close>

lemma PGADDR_split_join:
  "PGADDR (PDX va) (PTX va) (OFFSET va) = va
   \<and> PDX (PGADDR (take_bit 10 d) (take_bit 10 t) (take_bit 12 off)) = take_bit 10 d
   \<and> PTX (PGADDR (take_bit 10 d) (take_bit 10 t) (take_bit 12 off)) = take_bit 10 t
   \<and> OFFSET (PGADDR (take_bit 10 d) (take_bit 10 t) (take_bit 12 off)) = take_bit 12 off"
  by (intro conjI PGADDR_join PGADDR_fields)

end
