(* ===== verification/Machine.thy ===== *)
theory Machine
  imports Mmu
begin

text \<open>
  The machine under the kernel: byte-addressed memory, the little-endian 32-bit
  accesses of C code, and the two-level page walk of the processor.

  Memory is indexed by kernel pointers. The kernel maps physical memory at
  \<open>KERNBASE\<close> (\<open>kmap\<close> in \<^verbatim>\<open>src/src/vm.c\<close>), so the kernel pointer \<open>P2V pa\<close> and
  the physical address \<open>pa\<close> name the same byte; a dereference of a kernel pointer
  reads the memory there, and an access to a user address goes through the page
  table that \<open>cr3\<close> names. The translation look-aside buffer is not part of the
  model: every access walks the tables.
\<close>

type_synonym memory = "u32 \<Rightarrow> u8"

section \<open>Words in memory\<close>

definition load32 :: "memory \<Rightarrow> u32 \<Rightarrow> u32" where
  "load32 m a = ucast (m a) OR push_bit 8 (ucast (m (a + 1)))
     OR push_bit 16 (ucast (m (a + 2))) OR push_bit 24 (ucast (m (a + 3)))"

definition store32 :: "memory \<Rightarrow> u32 \<Rightarrow> u32 \<Rightarrow> memory" where
  "store32 m a v = m(a := ucast v, a + 1 := ucast (drop_bit 8 v),
     a + 2 := ucast (drop_bit 16 v), a + 3 := ucast (drop_bit 24 v))"

lemma load32_store32_same [simp]: "load32 (store32 m a v) a = v"
proof (rule bit_word_eqI)
  fix n assume "n < LENGTH(32)"
  then have n: "n < 32" by simp
  have "load32 (store32 m a v) a = ucast (ucast v :: u8) OR push_bit 8 (ucast (ucast (drop_bit 8 v) :: u8))
     OR push_bit 16 (ucast (ucast (drop_bit 16 v) :: u8)) OR push_bit 24 (ucast (ucast (drop_bit 24 v) :: u8))"
    by (simp add: load32_def store32_def)
  moreover have "n < 24 \<or> n = 24 + (n - 24) \<and> n - 24 < 8" using n by linarith
  ultimately show "bit (load32 (store32 m a v) a) n = bit v n"
    using n by (auto simp: bit_simps not_less)
qed

lemma store32_bytes: "b \<notin> {a, a + 1, a + 2, a + 3} \<Longrightarrow> store32 m a v b = m b"
  by (simp add: store32_def)

lemma word_block_disjoint:
  assumes "a mod 4 = (0 :: u32)" and "b mod 4 = 0" and "a \<noteq> b"
    and "x \<in> {0, 1, 2, 3}" and "y \<in> {0, 1, 2, 3}"
  shows "a + x \<noteq> b + y"
proof
  assume eq: "a + x = b + y"
  have div4: "unat (c + z) div 4 = unat c div 4"
    if c: "c mod 4 = 0" and z: "z \<in> {0, 1, 2, 3}" for c z :: u32
  proof -
    have "unat c mod 4 = 0"
      using c by (simp add: word_unat_eq_iff unat_mod32)
    then obtain k where k: "unat c = 4 * k" by auto
    have uz: "unat z < 4" using z by auto
    have "unat c + unat z < 4294967296"
    proof -
      have "k < 1073741824" using k unat_lt32 [of c] by simp
      with k uz show ?thesis by linarith
    qed
    then have "unat (c + z) = 4 * k + unat z"
      using k by (simp add: unat_add_small)
    then show ?thesis using uz k by simp
  qed
  have "unat a div 4 = unat b div 4"
    using div4 [OF assms(1,4)] div4 [OF assms(2,5)] eq by simp
  moreover have "unat a mod 4 = 0" "unat b mod 4 = 0"
    using assms(1,2) by (simp_all add: word_unat_eq_iff unat_mod32)
  ultimately have "unat a = unat b"
    by (metis div_mult_mod_eq)
  with assms(3) show False by (simp add: word_unat_eq_iff)
qed

lemma load32_store32_other [frame_simps]:
  assumes "a mod 4 = 0" and "b mod 4 = 0" and "a \<noteq> b"
  shows "load32 (store32 m a v) b = load32 m b"
proof -
  have "store32 m a v (b + y) = m (b + y)" if "y \<in> {0, 1, 2, 3}" for y
    using word_block_disjoint [OF assms(1,2,3) _ that, of 0] word_block_disjoint [OF assms(1,2,3) _ that, of 1]
      word_block_disjoint [OF assms(1,2,3) _ that, of 2] word_block_disjoint [OF assms(1,2,3) _ that, of 3]
    by (intro store32_bytes) auto
  from this [of 0] this [of 1] this [of 2] this [of 3] show ?thesis
    by (simp add: load32_def)
qed

lemma store32_load32_id [simp]: "store32 m a (load32 m a) = m"
proof -
  have b: "ucast (drop_bit (8 * k) (load32 m a)) = m (a + of_nat k)" if "k < 4" for k
  proof (rule bit_word_eqI)
    fix n assume "n < LENGTH(8)"
    moreover have "k = 0 \<or> k = 1 \<or> k = 2 \<or> k = 3" using that by auto
    ultimately show "bit (ucast (drop_bit (8 * k) (load32 m a)) :: u8) n = bit (m (a + of_nat k)) n"
      by (auto simp: load32_def bit_simps)
  qed
  show ?thesis
    using b [of 0] b [of 1] b [of 2] b [of 3]
    by (simp add: store32_def)
qed

section \<open>What an operation may change\<close>

text \<open>\<open>changes P m m'\<close>: the two memories agree outside the pages in \<open>P\<close>.\<close>

definition changes :: "u32 set \<Rightarrow> memory \<Rightarrow> memory \<Rightarrow> bool" where
  "changes P m m' \<longleftrightarrow> (\<forall>a. PGROUNDDOWN a \<notin> P \<longrightarrow> m' a = m a)"

lemma changes_refl [simp, intro]: "changes P m m"
  by (simp add: changes_def)

lemma changes_trans [trans]:
  "changes P m m' \<Longrightarrow> changes Q m' m'' \<Longrightarrow> changes (P \<union> Q) m m''"
  by (simp add: changes_def)

lemma changes_mono: "changes P m m' \<Longrightarrow> P \<subseteq> Q \<Longrightarrow> changes Q m m'"
  by (auto simp: changes_def)

lemma changesD: "changes P m m' \<Longrightarrow> PGROUNDDOWN a \<notin> P \<Longrightarrow> m' a = m a"
  by (simp add: changes_def)

lemma word_in_page:
  assumes "a mod 4 = (0 :: u32)" and "x \<in> {0, 1, 2, 3}"
  shows "PGROUNDDOWN (a + x) = PGROUNDDOWN a"
proof -
  have "unat (OFFSET a) + unat x < 4096"
  proof -
    have "unat a mod 4 = 0"
      using assms(1) by (simp add: word_unat_eq_iff unat_mod32)
    then have "unat a mod 4096 mod 4 = 0"
      by (simp add: mod_mod_cancel)
    then obtain k where k: "unat a mod 4096 = 4 * k" by auto
    have "unat a mod 4096 < 4096" by simp
    with k have "k < 1024" by simp
    with k have "unat a mod 4096 \<le> 4092" by linarith
    moreover have "unat x < 4" using assms(2) by auto
    ultimately show ?thesis by (simp add: unat_OFFSET)
  qed
  then have "unat (OFFSET a + x) < 4096"
    by (simp add: unat_add_small)
  then have "PGROUNDDOWN (PGROUNDDOWN a + (OFFSET a + x)) = PGROUNDDOWN a"
    by (intro PGROUNDDOWN_add) auto
  then show ?thesis
    by (simp add: PGROUNDDOWN_OFFSET add.assoc [symmetric])
qed

lemma changes_store32:
  assumes "a mod 4 = 0" and "PGROUNDDOWN a \<in> P"
  shows "changes P m (store32 m a v)"
  unfolding changes_def
proof (intro allI impI)
  fix b assume "PGROUNDDOWN b \<notin> P"
  then have "b \<notin> {a, a + 1, a + 2, a + 3}"
    using word_in_page [OF assms(1), of 0] word_in_page [OF assms(1), of 1]
      word_in_page [OF assms(1), of 2] word_in_page [OF assms(1), of 3] assms(2) by auto
  then show "store32 m a v b = m b" by (rule store32_bytes)
qed

lemma changes_load32 [frame_simps]:
  assumes "changes P m m'" and "a mod 4 = 0" and "PGROUNDDOWN a \<notin> P"
  shows "load32 m' a = load32 m a"
proof -
  have "m' (a + x) = m (a + x)" if "x \<in> {0, 1, 2, 3}" for x
    using assms word_in_page [OF assms(2) that] by (simp add: changes_def)
  from this [of 0] this [of 1] this [of 2] this [of 3] show ?thesis
    by (simp add: load32_def)
qed

section \<open>The page walk of the processor\<close>

text \<open>
  An access to linear address \<open>va\<close> in supervisor mode. The walk needs the present
  bit at both levels and, because \<open>CR0.WP\<close> is set in \<^verbatim>\<open>entry.S\<close>, the writable bit
  at both levels for a write. It records the access: the accessed bit in the
  directory entry and in the table entry, and the dirty bit (bit 6) of the table entry
  on a write. Large pages are not used by the tables \<^verbatim>\<open>vm.c\<close> builds.
\<close>

definition PTE_D :: u32 where [simp]: "PTE_D = 0x40"

definition mmu_access :: "bool \<Rightarrow> u32 \<Rightarrow> u32 \<Rightarrow> memory \<Rightarrow> err + (u32 \<times> memory)" where
  "mmu_access wr cr3 va m =
    (let pdea = P2V (PTE_ADDR cr3) + 4 * PDX va; pde = load32 m pdea in
     if \<not> has pde PTE_P \<or> (wr \<and> \<not> has pde PTE_W) then Inl (PageFault va)
     else
       let ptea = P2V (PTE_ADDR pde) + 4 * PTX va; pte = load32 m ptea in
       if \<not> has pte PTE_P \<or> (wr \<and> \<not> has pte PTE_W) then Inl (PageFault va)
       else
         let m1 = store32 m pdea (pde OR PTE_A);
             m2 = store32 m1 ptea (pte OR (if wr then PTE_A OR PTE_D else PTE_A))
         in Inr (P2V (PTE_ADDR pte) + OFFSET va, m2))"

definition user_read :: "u32 \<Rightarrow> u32 \<Rightarrow> memory \<Rightarrow> err + (u8 \<times> memory)" where
  "user_read cr3 va m = bindE (mmu_access False cr3 va m) (\<lambda>(p, m'). Inr (m' p, m'))"

definition user_write :: "u32 \<Rightarrow> u32 \<Rightarrow> u8 \<Rightarrow> memory \<Rightarrow> err + memory" where
  "user_write cr3 va v m = bindE (mmu_access True cr3 va m) (\<lambda>(p, m'). Inr (m'(p := v)))"

section \<open>Words in byte lists\<close>

text \<open>Words in a list of bytes, least significant byte first.\<close>

definition get32 :: "u8 list \<Rightarrow> nat \<Rightarrow> u32" where
  "get32 d i = ucast (d ! i) OR push_bit 8 (ucast (d ! (i + 1))) OR push_bit 16 (ucast (d ! (i + 2)))
     OR push_bit 24 (ucast (d ! (i + 3)))"

definition put32 :: "u8 list \<Rightarrow> nat \<Rightarrow> u32 \<Rightarrow> u8 list" where
  "put32 d i v = d[i := ucast v, i + 1 := ucast (drop_bit 8 v), i + 2 := ucast (drop_bit 16 v),
     i + 3 := ucast (drop_bit 24 v)]"

definition get16 :: "u8 list \<Rightarrow> nat \<Rightarrow> u16" where
  "get16 d i = ucast (d ! i) OR push_bit 8 (ucast (d ! (i + 1)))"

definition put16 :: "u8 list \<Rightarrow> nat \<Rightarrow> u16 \<Rightarrow> u8 list" where
  "put16 d i v = d[i := ucast v, i + 1 := ucast (drop_bit 8 v)]"

definition bytes32 :: "u32 \<Rightarrow> u8 list" where
  "bytes32 v = put32 (replicate 4 0) 0 v"

end
