(* ===== verification/Cstring.thy ===== *)
theory Cstring
  imports Machine "HOL-Library.Signed_Division"
begin

text \<open>
  The kernel's string library, \<^verbatim>\<open>src/src/string.c\<close>, on byte memory. Each C loop is
  one recursive function that counts the remaining iterations; pointers are 32-bit
  words and wrap around as in C. \<open>rep stosb\<close> and \<open>rep stosl\<close> of
  \<^verbatim>\<open>src/src/x86.h\<close> are the two store loops of \<open>memset\<close>.
\<close>

section \<open>Definitions\<close>

fun stosb :: "memory \<Rightarrow> u32 \<Rightarrow> u8 \<Rightarrow> nat \<Rightarrow> memory" where
  "stosb m d c 0 = m"
| "stosb m d c (Suc n) = stosb (m(d := c)) (d + 1) c n"

fun stosl :: "memory \<Rightarrow> u32 \<Rightarrow> u32 \<Rightarrow> nat \<Rightarrow> memory" where
  "stosl m d v 0 = m"
| "stosl m d v (Suc n) = stosl (store32 m d v) (d + 4) v n"

definition memset :: "memory \<Rightarrow> u32 \<Rightarrow> u32 \<Rightarrow> u32 \<Rightarrow> memory" where
  "memset m dst c n =
    (if sint dst smod 4 = 0 \<and> n mod 4 = 0
     then let c = c AND 0xFF
          in stosl m dst (push_bit 24 c OR push_bit 16 c OR push_bit 8 c OR c) (unat (n div 4))
     else stosb m dst (ucast c) (unat n))"

fun memcmp_loop :: "memory \<Rightarrow> u32 \<Rightarrow> u32 \<Rightarrow> nat \<Rightarrow> int" where
  "memcmp_loop m s1 s2 0 = 0"
| "memcmp_loop m s1 s2 (Suc n) =
     (if m s1 \<noteq> m s2 then uint (m s1) - uint (m s2)
      else memcmp_loop m (s1 + 1) (s2 + 1) n)"

definition memcmp :: "memory \<Rightarrow> u32 \<Rightarrow> u32 \<Rightarrow> u32 \<Rightarrow> int" where
  "memcmp m v1 v2 n = memcmp_loop m v1 v2 (unat n)"

fun copy_fwd :: "memory \<Rightarrow> u32 \<Rightarrow> u32 \<Rightarrow> nat \<Rightarrow> memory" where
  "copy_fwd m d s 0 = m"
| "copy_fwd m d s (Suc n) = copy_fwd (m(d := m s)) (d + 1) (s + 1) n"

fun copy_bwd :: "memory \<Rightarrow> u32 \<Rightarrow> u32 \<Rightarrow> nat \<Rightarrow> memory" where
  "copy_bwd m d s 0 = m"
| "copy_bwd m d s (Suc n) = copy_bwd (m(d - 1 := m (s - 1))) (d - 1) (s - 1) n"

definition memmove :: "memory \<Rightarrow> u32 \<Rightarrow> u32 \<Rightarrow> u32 \<Rightarrow> memory" where
  "memmove m dst src n =
    (if src < dst \<and> src + n > dst
     then copy_bwd m (dst + n) (src + n) (unat n)
     else copy_fwd m dst src (unat n))"

definition memcpy :: "memory \<Rightarrow> u32 \<Rightarrow> u32 \<Rightarrow> u32 \<Rightarrow> memory" where
  "memcpy m dst src n = memmove m dst src n"

fun strncmp_loop :: "memory \<Rightarrow> u32 \<Rightarrow> u32 \<Rightarrow> nat \<Rightarrow> int" where
  "strncmp_loop m p q 0 = 0"
| "strncmp_loop m p q (Suc n) =
     (if m p \<noteq> 0 \<and> m p = m q then strncmp_loop m (p + 1) (q + 1) n
      else uint (m p) - uint (m q))"

definition strncmp :: "memory \<Rightarrow> u32 \<Rightarrow> u32 \<Rightarrow> u32 \<Rightarrow> int" where
  "strncmp m p q n = strncmp_loop m p q (unat n)"

fun strncpy_loop :: "memory \<Rightarrow> u32 \<Rightarrow> u32 \<Rightarrow> nat \<Rightarrow> memory" where
  "strncpy_loop m s t 0 = m"
| "strncpy_loop m s t (Suc n) =
     (if m t \<noteq> 0 then strncpy_loop (m(s := m t)) (s + 1) (t + 1) n
      else stosb (m(s := m t)) (s + 1) 0 n)"

definition strncpy :: "memory \<Rightarrow> u32 \<Rightarrow> u32 \<Rightarrow> u32 \<Rightarrow> memory" where
  "strncpy m s t n = strncpy_loop m s t (nat (sint n))"

fun safestrcpy_loop :: "memory \<Rightarrow> u32 \<Rightarrow> u32 \<Rightarrow> nat \<Rightarrow> memory" where
  "safestrcpy_loop m s t 0 = m(s := 0)"
| "safestrcpy_loop m s t (Suc n) =
     (if m t \<noteq> 0 then safestrcpy_loop (m(s := m t)) (s + 1) (t + 1) n
      else (m(s := m t))(s + 1 := 0))"

definition safestrcpy :: "memory \<Rightarrow> u32 \<Rightarrow> u32 \<Rightarrow> u32 \<Rightarrow> memory" where
  "safestrcpy m s t n =
    (if sint n \<le> 0 then m else safestrcpy_loop m s t (nat (sint n) - 1))"

text \<open>\<open>strlen\<close> has no bound of its own: on memory without a zero byte it does not
  return. The counter is the C \<open>int n\<close>, kept as a word.\<close>

partial_function (option) strlen_loop :: "memory \<Rightarrow> u32 \<Rightarrow> u32 \<Rightarrow> u32 option" where
  "strlen_loop m s n = (if m (s + n) \<noteq> 0 then strlen_loop m s (n + 1) else Some n)"

definition strlen :: "memory \<Rightarrow> u32 \<Rightarrow> u32 option" where
  "strlen m s = strlen_loop m s 0"

section \<open>Byte ranges\<close>

lemma unat_pred_diff: "a \<noteq> d \<Longrightarrow> unat (a - (d + 1) :: u32) = unat (a - d) - 1"
proof -
  assume "a \<noteq> d"
  then have "1 \<le> a - d"
    by (simp add: word_le_nat_alt unat_gt_0 Suc_le_eq)
  then have "unat (a - d - 1) = unat (a - d) - unat (1 :: u32)"
    by (rule unat_sub_le)
  then show ?thesis by (simp add: algebra_simps)
qed

lemma unat_diff_pos: "a \<noteq> d \<Longrightarrow> 0 < unat (a - d :: u32)"
  by (simp add: unat_gt_0)

lemma stosb_add: "stosb m d c (i + j) = stosb (stosb m d c i) (d + of_nat i) c j"
  by (induction i arbitrary: m d) (simp_all add: algebra_simps)

lemma stosb_eq [loop_simps]:
  "n \<le> 4294967296 \<Longrightarrow> stosb m d c n = (\<lambda>a. if unat (a - d) < n then c else m a)"
proof (induction n arbitrary: m d)
  case 0
  then show ?case by simp
next
  case (Suc n)
  have "stosb (m(d := c)) (d + 1) c n a = (if unat (a - d) < Suc n then c else m a)" for a
  proof (cases "a = d")
    case True
    then show ?thesis using Suc by simp
  next
    case False
    then show ?thesis
      using Suc unat_diff_pos [OF False] by (auto simp: unat_pred_diff)
  qed
  then show ?case by auto
qed

lemma stosb_4: "stosb m d c 4 = m(d := c, d + 1 := c, d + 2 := c, d + 3 := c)"
proof -
  have "(4 :: nat) = Suc (Suc (Suc (Suc 0)))" by simp
  then show ?thesis by (simp only: stosb.simps) (simp add: add.assoc)
qed

lemma store32_replicate:
  "store32 m d (push_bit 24 (ucast c) OR push_bit 16 (ucast c) OR push_bit 8 (ucast c) OR ucast c)
   = stosb m d (c :: u8) 4"
proof -
  define v :: u32 where
    "v = push_bit 24 (ucast c) OR push_bit 16 (ucast c) OR push_bit 8 (ucast c) OR ucast c"
  have b: "ucast (drop_bit k v) = c" if "k = 0 \<or> k = 8 \<or> k = 16 \<or> k = 24" for k
    using that by (auto intro!: bit_word_eqI simp: v_def bit_simps)
  have "store32 m d v = stosb m d c 4"
    using b [of 0] b [of 8] b [of 16] b [of 24]
    by (simp add: store32_def stosb_4)
  then show ?thesis by (simp only: v_def)
qed

lemma stosl_eq_stosb:
  "stosl m d (push_bit 24 (ucast c) OR push_bit 16 (ucast c) OR push_bit 8 (ucast c) OR ucast c) n
   = stosb m d (c :: u8) (4 * n)"
proof (induction n arbitrary: m d)
  case (Suc n)
  have "4 * Suc n = 4 + 4 * n" by simp
  then show ?case
    by (simp only: stosl.simps Suc.IH store32_replicate stosb_add of_nat_numeral)
qed simp

text \<open>The word-store path and the byte-store path of \<open>memset\<close> do the same.\<close>

lemma memset_eq [loop_simps]:
  "memset m dst c n = (\<lambda>a. if unat (a - dst) < unat n then ucast c else m a)"
proof (cases "sint dst smod 4 = 0 \<and> n mod 4 = 0")
  case True
  let ?c = "c AND 0xFF"
  have "?c = take_bit 8 c" by (simp add: take_bit_eq_mask mask_eq_exp_minus_1)
  also have "\<dots> = ucast (ucast c :: u8)"
    by (rule bit_word_eqI) (auto simp: bit_simps)
  finally have c: "?c = ucast (ucast c :: u8)" .
  have "4 * unat (n div 4) = unat n"
  proof -
    have "unat n mod 4 = 0"
      using True by (auto simp: word_unat_eq_iff unat_mod32)
    then show ?thesis by (auto simp: unat_div32)
  qed
  then have "memset m dst c n = stosb m dst (ucast c) (unat n)"
    using True by (simp add: memset_def Let_def c stosl_eq_stosb del: push_bit_and and_numerals)
  then show ?thesis
    using unat_lt32 [of n] by (simp add: stosb_eq)
next
  case False
  then show ?thesis
    using unat_lt32 [of n] by (auto simp: memset_def stosb_eq)
qed

lemma memset_page:
  "aligned p \<Longrightarrow> memset m p c 4096 = (\<lambda>a. if PGROUNDDOWN a = p then ucast c else m a)"
proof -
  assume p: "aligned p"
  have "unat (a - p) < 4096 \<longleftrightarrow> PGROUNDDOWN a = p" for a
  proof
    assume "unat (a - p) < 4096"
    then have "PGROUNDDOWN (p + (a - p)) = p" using p by (intro PGROUNDDOWN_add)
    then show "PGROUNDDOWN a = p" by simp
  next
    assume "PGROUNDDOWN a = p"
    then have "a - p = OFFSET a"
      using PGROUNDDOWN_OFFSET [of a] by (auto simp: algebra_simps)
    then show "unat (a - p) < 4096" by simp
  qed
  then show ?thesis by (simp add: memset_eq)
qed

lemma changes_memset_page [intro]:
  "aligned p \<Longrightarrow> p \<in> P \<Longrightarrow> changes P m (memset m p c 4096)"
  by (auto simp: changes_def memset_page)

lemma load32_memset_zero:
  assumes "aligned p" and "a mod 4 = 0" and "PGROUNDDOWN a = p"
  shows "load32 (memset m p 0 4096) a = 0"
proof -
  have "memset m p 0 4096 (a + x) = 0" if "x \<in> {0, 1, 2, 3}" for x
    using assms word_in_page [OF assms(2) that] by (simp add: memset_page)
  from this [of 0] this [of 1] this [of 2] this [of 3] show ?thesis
    by (simp add: load32_def)
qed

section \<open>Copying\<close>

lemma copy_fwd_eq:
  assumes "n \<le> 4294967296"
    and "\<And>i j. i < j \<Longrightarrow> j < n \<Longrightarrow> d + of_nat i \<noteq> s + of_nat j"
  shows "copy_fwd m d s n = (\<lambda>a. if unat (a - d) < n then m (s + (a - d)) else m a)"
  using assms
proof (induction n arbitrary: m d s)
  case 0
  then show ?case by simp
next
  case (Suc n)
  have sep: "d + 1 + of_nat i \<noteq> s + 1 + of_nat j" if "i < j" "j < n" for i j
    using Suc.prems(2) [of "Suc i" "Suc j"] that by (simp add: algebra_simps)
  have IH: "copy_fwd (m(d := m s)) (d + 1) (s + 1) n
    = (\<lambda>a. if unat (a - (d + 1)) < n then (m(d := m s)) (s + 1 + (a - (d + 1))) else (m(d := m s)) a)"
    using Suc.prems(1) sep by (intro Suc.IH) simp_all
  have "copy_fwd m d s (Suc n) a = (if unat (a - d) < Suc n then m (s + (a - d)) else m a)" for a
  proof (cases "a = d")
    case True
    then show ?thesis using IH Suc.prems(1) by simp
  next
    case False
    have "s + (a - d) \<noteq> d" if "unat (a - d) < Suc n"
    proof -
      have "a - d = of_nat (unat (a - d))" by simp
      then show ?thesis
        using Suc.prems(2) [of 0 "unat (a - d)"] that unat_diff_pos [OF False] by auto
    qed
    then show ?thesis
      using IH False unat_diff_pos [OF False] by (auto simp: unat_pred_diff)
  qed
  then show ?case by blast
qed

lemma copy_bwd_eq:
  assumes "n \<le> 4294967296"
    and "\<And>i j. i < j \<Longrightarrow> j < n \<Longrightarrow> d - 1 - of_nat i \<noteq> s - 1 - of_nat j"
  shows "copy_bwd m d s n = (\<lambda>a. if unat (d - 1 - a) < n then m (s + (a - d)) else m a)"
  using assms
proof (induction n arbitrary: m d s)
  case 0
  then show ?case by simp
next
  case (Suc n)
  have sep: "d - 1 - 1 - of_nat i \<noteq> s - 1 - 1 - of_nat j" if "i < j" "j < n" for i j
    using Suc.prems(2) [of "Suc i" "Suc j"] that by (simp add: algebra_simps)
  have IH: "copy_bwd (m(d - 1 := m (s - 1))) (d - 1) (s - 1) n
    = (\<lambda>a. if unat (d - 1 - 1 - a) < n then (m(d - 1 := m (s - 1))) (s - 1 + (a - (d - 1)))
        else (m(d - 1 := m (s - 1))) a)"
    using Suc.prems(1) sep by (intro Suc.IH) simp_all
  have "copy_bwd m d s (Suc n) a = (if unat (d - 1 - a) < Suc n then m (s + (a - d)) else m a)" for a
  proof (cases "a = d - 1")
    case True
    then show ?thesis using IH Suc.prems(1) by simp
  next
    case False
    have pred: "unat (d - 1 - 1 - a) = unat (d - 1 - a) - 1"
      using unat_pred_diff [of "d - 1" a] False by (simp add: algebra_simps)
    have "s + (a - d) \<noteq> d - 1" if "unat (d - 1 - a) < Suc n"
    proof -
      have "0 < unat (d - 1 - a)" using False by (intro unat_diff_pos) simp
      then have "d - 1 - of_nat 0 \<noteq> s - 1 - of_nat (unat (d - 1 - a))"
        using that by (rule Suc.prems(2))
      then show ?thesis by simp
    qed
    then show ?thesis
      using IH False unat_diff_pos [of "d - 1" a] pred by auto
  qed
  then show ?case by blast
qed

lemma mirror_range:
  assumes "n \<noteq> (0 :: u32)"
  shows "unat (n - 1 - x) < unat n \<longleftrightarrow> unat x < unat n"
proof -
  have n1: "unat (n - 1) = unat n - 1" and "0 < unat n"
    using assms by (simp_all add: unat_minus_one unat_gt_0)
  show ?thesis
  proof (cases "x \<le> n - 1")
    case True
    then show ?thesis
      using n1 \<open>0 < unat n\<close> by (auto simp: unat_sub_le word_le_nat_alt)
  next
    case False
    then have "unat n \<le> unat x"
      using n1 by (auto simp: word_le_nat_alt)
    moreover have "unat (n - 1 - x) = unat (n - 1) + 4294967296 - unat x"
      using False by (simp add: unat_sub_if_size word_le_nat_alt word_size)
    ultimately show ?thesis
      using n1 unat_lt32 [of x] by linarith
  qed
qed

text \<open>\<open>memmove\<close> copies as if the source were read first, whatever the overlap.\<close>

lemma memmove_eq:
  assumes src: "unat s + unat n < 4294967296" and dst: "unat d + unat n \<le> 4294967296"
  shows "memmove m d s n = (\<lambda>a. if unat (a - d) < unat n then m (s + (a - d)) else m a)"
proof (cases "s < d \<and> s + n > d")
  case True
  then have "n \<noteq> 0" by auto
  have sep: "d + n - 1 - of_nat i \<noteq> s + n - 1 - of_nat j" if "i < j" "j < unat n" for i j
  proof
    assume "d + n - 1 - of_nat i = s + n - 1 - of_nat j"
    then have "d + of_nat j = s + of_nat i" by (simp add: algebra_simps)
    then have "unat (d + of_nat j) = unat (s + of_nat i)" by simp
    moreover have "unat (of_nat j :: u32) = j" "unat (of_nat i :: u32) = i"
      using that unat_lt32 [of n] by (simp_all add: unat_of_nat)
    ultimately have "unat d + j = unat s + i"
      using that src dst by (simp add: unat_add32)
    moreover have "unat s < unat d" using True by (simp add: word_less_nat_alt)
    ultimately show False using that by linarith
  qed
  have eq: "memmove m d s n = (\<lambda>a. if unat (d + n - 1 - a) < unat n then m (s + n + (a - (d + n))) else m a)"
    using True sep unat_lt32 [of n] by (simp add: memmove_def copy_bwd_eq)
  have rng: "unat (d + n - 1 - a) < unat n \<longleftrightarrow> unat (a - d) < unat n" for a
    using mirror_range [OF \<open>n \<noteq> 0\<close>, of "a - d"] by (simp add: algebra_simps)
  have "s + n + (a - (d + n)) = s + (a - d)" for a by simp
  then show ?thesis by (simp only: eq rng)
next
  case False
  have sep: "d + of_nat i \<noteq> s + of_nat j" if "i < j" "j < unat n" for i j
  proof
    assume "d + of_nat i = s + of_nat j"
    then have "unat (d + of_nat i) = unat (s + of_nat j)" by simp
    moreover have "unat (of_nat j :: u32) = j" "unat (of_nat i :: u32) = i"
      using that unat_lt32 [of n] by (simp_all add: unat_of_nat)
    ultimately have "unat d + i = unat s + j"
      using that src dst by (simp add: unat_add32)
    moreover have "unat d \<le> unat s \<or> unat s + unat n \<le> unat d"
      using False src by (auto simp: word_less_nat_alt unat_add32 not_less)
    ultimately show False using that by linarith
  qed
  then have "copy_fwd m d s (unat n) = (\<lambda>a. if unat (a - d) < unat n then m (s + (a - d)) else m a)"
    using unat_lt32 [of n] by (intro copy_fwd_eq) simp_all
  then show ?thesis
    using False by (auto simp: memmove_def)
qed

section \<open>Zero-terminated strings\<close>

text \<open>\<open>cstr m s xs\<close>: at \<open>s\<close> memory holds the bytes \<open>xs\<close>, none of them zero,
  followed by a zero byte.\<close>

fun cstr :: "memory \<Rightarrow> u32 \<Rightarrow> u8 list \<Rightarrow> bool" where
  "cstr m s [] \<longleftrightarrow> m s = 0"
| "cstr m s (x # xs) \<longleftrightarrow> m s = x \<and> x \<noteq> 0 \<and> cstr m (s + 1) xs"

lemma strlen_loop_cstr:
  "cstr m (s + n) xs \<Longrightarrow> strlen_loop m s n = Some (n + of_nat (length xs))"
proof (induction xs arbitrary: n)
  case Nil
  then show ?case by (simp add: strlen_loop.simps)
next
  case (Cons x xs)
  then have "strlen_loop m s (n + 1) = Some (n + 1 + of_nat (length xs))"
    by (intro Cons.IH) (simp add: add.assoc)
  then show ?case
    using Cons.prems by (subst strlen_loop.simps) (simp add: add.assoc)
qed

lemma strlen_cstr: "cstr m s xs \<Longrightarrow> strlen m s = Some (of_nat (length xs))"
  using strlen_loop_cstr [of m s 0 xs] by (simp add: strlen_def)

lemma strncmp_loop_cstr:
  "cstr m p xs \<Longrightarrow> cstr m q ys \<Longrightarrow> strncmp_loop m p q n = 0 \<longleftrightarrow> take n xs = take n ys"
proof (induction n arbitrary: p q xs ys)
  case 0
  then show ?case by simp
next
  case (Suc n)
  show ?case
  proof (cases "m p = m q")
    case True
    with Suc.prems show ?thesis
      using Suc.IH [of "p + 1" "tl xs" "q + 1" "tl ys"] by (cases xs; cases ys) auto
  next
    case False
    then have "uint (m p) - uint (m q) \<noteq> 0" by simp
    with False Suc.prems show ?thesis by (cases xs; cases ys) auto
  qed
qed

lemma memcmp_loop_0_iff:
  "memcmp_loop m s1 s2 n = 0 \<longleftrightarrow> (\<forall>i<n. m (s1 + of_nat i) = m (s2 + of_nat i))"
proof (induction n arbitrary: s1 s2)
  case 0
  then show ?case by simp
next
  case (Suc n)
  have "(\<forall>i<Suc n. m (s1 + of_nat i) = m (s2 + of_nat i)) \<longleftrightarrow>
    m s1 = m s2 \<and> (\<forall>i<n. m (s1 + 1 + of_nat i) = m (s2 + 1 + of_nat i))"
    by (auto simp: less_Suc_eq_0_disj add.assoc)
  then show ?case using Suc.IH by simp
qed

text \<open>\<open>safestrcpy\<close> writes only inside the destination and always terminates it.\<close>

lemma safestrcpy_loop_frame:
  "n < 4294967295 \<Longrightarrow> n < unat (a - s) \<Longrightarrow> safestrcpy_loop m s t n a = m a"
proof (induction n arbitrary: m s t)
  case 0
  then show ?case by auto
next
  case (Suc n)
  then have ne: "a \<noteq> s" "a \<noteq> s + 1" by auto
  have "n < unat (a - (s + 1))"
    using Suc.prems by (simp add: unat_pred_diff [OF ne(1)])
  then have "safestrcpy_loop (m(s := m t)) (s + 1) (t + 1) n a = (m(s := m t)) a"
    using Suc.prems by (intro Suc.IH) simp_all
  then show ?case using ne by simp
qed

section \<open>Properties\<close>

text \<open>C39. \<open>memmove\<close> copies correctly for overlapping buffers too: every byte of the
  destination gets the byte the source had before the call and every other byte keeps its
  value, as long as neither buffer wraps around the address space.\<close>

theorem memmove_copies:
  assumes "unat s + unat n < 4294967296" and "unat d + unat n \<le> 4294967296"
  shows "memmove m d s n = (\<lambda>a. if unat (a - d) < unat n then m (s + (a - d)) else m a)"
  by (rule memmove_eq [OF assms])

theorem memmove_copies_witness:
  "memmove (\<lambda>a. ucast a) 0x1002 0x1000 8 0x1009 = 7"
  using memmove_copies [of "0x1000" 8 "0x1002"] by simp

text \<open>C40. \<open>memset\<close>, which fills by words or by bytes depending on the alignment of its
  arguments, always sets exactly the \<open>n\<close> bytes from \<open>dst\<close> to the low byte of \<open>c\<close>.\<close>

theorem memset_fills:
  "memset m dst c n = (\<lambda>a. if unat (a - dst) < unat n then ucast c else m a)"
  by (rule memset_eq)

end
