(* ===== verification/Kalloc.thy ===== *)
theory Kalloc
  imports Cstring
begin

text \<open>
  The physical page allocator, \<^verbatim>\<open>src/src/kalloc.c\<close>. A free page holds in its first
  word the address of the next free page, so the free list lives in the memory it
  manages; \<open>kmem_inv s xs\<close> says that the list starting at \<open>freelist s\<close> is \<open>xs\<close>.
  The lock \<open>kmem.lock\<close> is held around each list update, which makes the update one
  atomic step here; \<open>use_lock\<close> is kept as state.
\<close>

section \<open>State and operations\<close>

text \<open>The machine state the memory subsystem works on: byte memory, the allocator's
  variables, the page table register, and the two addresses the linker provides
  (\<open>end\<close> and \<open>data\<close> of \<^verbatim>\<open>kernel.ld\<close>), which no operation changes.\<close>

record phys =
  mem :: memory
  freelist :: u32
  use_lock :: bool
  cr3 :: u32
  kend :: u32
  kdata :: u32

definition kfree :: "u32 \<Rightarrow> 'a phys_scheme \<Rightarrow> err + 'a phys_scheme" where
  "kfree v s =
    (if v mod PGSIZE \<noteq> 0 \<or> v < kend s \<or> V2P v \<ge> PHYSTOP then Inl (Panic ''kfree'')
     else
       let m = memset (mem s) v 1 PGSIZE;
           m = store32 m v (freelist s)
       in Inr (s\<lparr>mem := m, freelist := v\<rparr>))"

definition kalloc :: "'a phys_scheme \<Rightarrow> u32 \<times> 'a phys_scheme" where
  "kalloc s =
    (let r = freelist s in
     if r \<noteq> 0 then (r, s\<lparr>freelist := load32 (mem s) r\<rparr>) else (r, s))"

lemma kfree_range: "kfree v s = Inr s' \<Longrightarrow> unat v < 0x8E000000"
proof -
  assume "kfree v s = Inr s'"
  then have "V2P v < 0xE000000"
    by (auto simp: kfree_def split: if_splits)
  then have "unat (V2P v) < 0xE000000"
    by (simp add: word_less_nat_alt)
  moreover have "unat v = (unat (V2P v) + 0x80000000) mod 4294967296"
    using unat_add32 [of "V2P v" "0x80000000"] by (simp add: V2P_def)
  ultimately show ?thesis by simp
qed

function freerange_loop :: "u32 \<Rightarrow> u32 \<Rightarrow> 'a phys_scheme \<Rightarrow> err + 'a phys_scheme" where
  "freerange_loop p vend s =
    (if p + PGSIZE \<le> vend then bindE (kfree p s) (freerange_loop (p + PGSIZE) vend) else Inr s)"
  by pat_completeness auto
termination
proof (relation "measure (\<lambda>(p, vend, s). 4294967296 - unat p)", goal_cases)
  case 1
  show ?case by simp
next
  case (2 p vend s s')
  then have "unat p < 0x8E000000" by (auto dest: kfree_range)
  then show ?case by (simp add: unat_add32)
qed

declare freerange_loop.simps [simp del]

definition freerange :: "u32 \<Rightarrow> u32 \<Rightarrow> 'a phys_scheme \<Rightarrow> err + 'a phys_scheme" where
  "freerange vstart vend s = freerange_loop (PGROUNDUP vstart) vend s"

definition kinit1 :: "u32 \<Rightarrow> u32 \<Rightarrow> 'a phys_scheme \<Rightarrow> err + 'a phys_scheme" where
  "kinit1 vstart vend s = freerange vstart vend (s\<lparr>use_lock := False\<rparr>)"

definition kinit2 :: "u32 \<Rightarrow> u32 \<Rightarrow> 'a phys_scheme \<Rightarrow> err + 'a phys_scheme" where
  "kinit2 vstart vend s = bindE (freerange vstart vend s) (\<lambda>s. Inr (s\<lparr>use_lock := True\<rparr>))"

section \<open>The free list\<close>

fun flist :: "memory \<Rightarrow> u32 \<Rightarrow> u32 list \<Rightarrow> bool" where
  "flist m p [] \<longleftrightarrow> p = 0"
| "flist m p (x # xs) \<longleftrightarrow> p = x \<and> x \<noteq> 0 \<and> flist m (load32 m x) xs"

definition valid_frame :: "'a phys_scheme \<Rightarrow> u32 \<Rightarrow> bool" where
  "valid_frame s v \<longleftrightarrow> aligned v \<and> kend s \<le> v \<and> V2P v < PHYSTOP"

definition kmem_inv :: "'a phys_scheme \<Rightarrow> u32 list \<Rightarrow> bool" where
  "kmem_inv s xs \<longleftrightarrow>
     flist (mem s) (freelist s) xs \<and> distinct xs \<and> (\<forall>x\<in>set xs. valid_frame s x)"

lemma valid_frame_aligned [dest]: "valid_frame s v \<Longrightarrow> aligned v"
  by (simp add: valid_frame_def)

lemma valid_frame_nonzero: "valid_frame s v \<Longrightarrow> v \<noteq> 0"
  by (auto simp: valid_frame_def V2P_def)

lemma aligned_mod4: "aligned v \<Longrightarrow> v mod 4 = 0"
  using slot_word_aligned [of v 0] by simp

lemma flist_frame:
  "changes P m m' \<Longrightarrow> set xs \<inter> P = {} \<Longrightarrow> \<forall>x\<in>set xs. aligned x \<Longrightarrow> flist m p xs \<Longrightarrow> flist m' p xs"
proof (induction xs arbitrary: p)
  case (Cons x xs)
  have "load32 m' x = load32 m x"
    using Cons.prems by (intro changes_load32) (auto simp: aligned_mod4)
  then show ?case using Cons by auto
qed simp

lemma kmem_inv_frame:
  assumes "kmem_inv s xs" and "changes P (mem s) (mem s')" and "set xs \<inter> P = {}"
    and "freelist s' = freelist s" and "kend s' = kend s"
  shows "kmem_inv s' xs"
  using assms flist_frame [of P "mem s" "mem s'" xs "freelist s"]
  by (auto simp: kmem_inv_def valid_frame_def)

lemma kfree_valid:
  "valid_frame s v \<Longrightarrow>
   kfree v s = Inr (s\<lparr>mem := store32 (memset (mem s) v 1 4096) v (freelist s), freelist := v\<rparr>)"
  by (auto simp: kfree_def valid_frame_def aligned_def Let_def not_le not_less)

lemma kfree_invalid: "\<not> valid_frame s v \<Longrightarrow> kfree v s = Inl (Panic ''kfree'')"
  by (auto simp: kfree_def valid_frame_def aligned_def not_le not_less)

lemma kfree_changes: "kfree v s = Inr s' \<Longrightarrow> changes {v} (mem s) (mem s')"
proof -
  assume k: "kfree v s = Inr s'"
  then have v: "valid_frame s v" using kfree_invalid [of s v] by (cases "valid_frame s v") auto
  then have a: "aligned v" by auto
  then have "changes {v} (mem s) (memset (mem s) v 1 4096)"
    by (intro changes_memset_page) auto
  moreover have "changes {v} (memset (mem s) v 1 4096) (mem s')"
    using v k a by (auto simp: kfree_valid aligned_mod4 intro!: changes_store32)
  ultimately show ?thesis
    using changes_trans by fastforce
qed

lemma kfree_inv:
  assumes "kmem_inv s xs" and "valid_frame s v" and "v \<notin> set xs"
  obtains s' where "kfree v s = Inr s'" and "kmem_inv s' (v # xs)"
proof -
  let ?s' = "s\<lparr>mem := store32 (memset (mem s) v 1 4096) v (freelist s), freelist := v\<rparr>"
  have k: "kfree v s = Inr ?s'" by (rule kfree_valid) fact
  have "flist (mem ?s') (freelist s) xs"
    by (rule flist_frame [OF kfree_changes [OF k]]) (use assms in \<open>auto simp: kmem_inv_def\<close>)
  then have "kmem_inv ?s' (v # xs)"
    using assms valid_frame_nonzero [OF assms(2)] by (auto simp: kmem_inv_def valid_frame_def)
  with k show ?thesis by (rule that)
qed

lemma kalloc_Nil: "kmem_inv s [] \<Longrightarrow> kalloc s = (0, s)"
  by (simp add: kmem_inv_def kalloc_def)

lemma kalloc_Cons:
  assumes "kmem_inv s (x # xs)"
  shows "kalloc s = (x, s\<lparr>freelist := load32 (mem s) x\<rparr>)"
    and "kmem_inv (s\<lparr>freelist := load32 (mem s) x\<rparr>) xs"
  using assms by (auto simp: kmem_inv_def kalloc_def valid_frame_def)

lemma kalloc_mem [simp]:
  "mem (snd (kalloc s)) = mem s" "kend (snd (kalloc s)) = kend s"
  "kdata (snd (kalloc s)) = kdata s" "cr3 (snd (kalloc s)) = cr3 s"
  "phys.more (snd (kalloc s)) = phys.more s"
  by (simp_all add: kalloc_def Let_def)

lemma kfree_Inr:
  "kfree v s = Inr s' \<Longrightarrow> valid_frame s v \<and>
     s' = s\<lparr>mem := store32 (memset (mem s) v 1 4096) v (freelist s), freelist := v\<rparr>"
  using kfree_valid [of s v] kfree_invalid [of s v] by (cases "valid_frame s v") auto

section \<open>The allocator's contract\<close>

text \<open>
  What the users of the allocator rely on: there is a list of free frames, all
  distinct and valid; allocation hands out its head, or the null pointer when it is
  empty, and changes no byte; freeing pushes a frame that was in use and changes bytes
  of that frame only.
\<close>

locale frame_pool =
  fixes alloc :: "'s \<Rightarrow> u32 \<times> 's"
    and free :: "u32 \<Rightarrow> 's \<Rightarrow> err + 's"
    and pool :: "'s \<Rightarrow> u32 list \<Rightarrow> bool"
    and valid :: "'s \<Rightarrow> u32 \<Rightarrow> bool"
    and bytes :: "'s \<Rightarrow> memory"
  assumes alloc_empty: "pool s [] \<Longrightarrow> alloc s = (0, s)"
    and alloc_head: "pool s (x # xs) \<Longrightarrow>
      fst (alloc s) = x \<and> pool (snd (alloc s)) xs \<and> bytes (snd (alloc s)) = bytes s"
    and alloc_valid: "valid (snd (alloc s)) v = valid s v"
    and free_push: "pool s xs \<Longrightarrow> valid s v \<Longrightarrow> v \<notin> set xs \<Longrightarrow>
      \<exists>s'. free v s = Inr s' \<and> pool s' (v # xs) \<and> changes {v} (bytes s) (bytes s')"
    and free_valid: "free v s = Inr s' \<Longrightarrow> valid s v \<and> valid s' w = valid s w"
    and pool_frames: "pool s xs \<Longrightarrow> distinct xs \<and> (\<forall>x\<in>set xs. valid s x \<and> x \<noteq> 0)"
begin

lemma alloc_cases:
  assumes "pool s xs"
  obtains (none) "xs = []" "alloc s = (0, s)"
    | (frame) r ys where "xs = r # ys" "fst (alloc s) = r" "pool (snd (alloc s)) ys"
        "bytes (snd (alloc s)) = bytes s" "valid s r" "r \<noteq> 0" "r \<notin> set ys"
proof (cases xs)
  case Nil
  with assms show ?thesis using alloc_empty none by blast
next
  case (Cons r ys)
  with assms alloc_head [of s r ys] pool_frames [of s xs] show ?thesis
    by (intro frame [of r ys]) auto
qed

lemma alloc_null_iff: "pool s xs \<Longrightarrow> fst (alloc s) = 0 \<longleftrightarrow> xs = []"
  by (erule alloc_cases) auto

lemma free_alloc:
  assumes "pool s (x # xs)"
  shows "\<exists>s'. free x (snd (alloc s)) = Inr s' \<and> pool s' (x # xs)"
proof -
  have "pool (snd (alloc s)) xs" "valid (snd (alloc s)) x" "x \<notin> set xs"
    using assms alloc_head pool_frames [OF assms] by (auto simp: alloc_valid)
  then show ?thesis using free_push by blast
qed

text \<open>A run of allocations hands out pairwise distinct frames.\<close>

lemma alloc_run:
  assumes "pool s xs" and "n \<le> length xs"
  shows "pool (((\<lambda>s. snd (alloc s)) ^^ n) s) (drop n xs)
    \<and> (\<forall>i<n. fst (alloc (((\<lambda>s. snd (alloc s)) ^^ i) s)) = xs ! i)"
  using assms(2)
proof (induction n)
  case 0
  with assms(1) show ?case by simp
next
  case (Suc n)
  let ?t = "((\<lambda>s. snd (alloc s)) ^^ n) s"
  have "pool ?t (xs ! n # drop (Suc n) xs)"
    using Suc by (simp add: Cons_nth_drop_Suc)
  from alloc_head [OF this] show ?case
    using Suc by (auto simp: less_Suc_eq)
qed

end

interpretation km: frame_pool kalloc kfree kmem_inv valid_frame mem
proof unfold_locales
  fix s :: "'a phys_scheme" and x xs v w s'
  show "kmem_inv s [] \<Longrightarrow> kalloc s = (0, s)" by (rule kalloc_Nil)
  show "kmem_inv s (x # xs) \<Longrightarrow>
    fst (kalloc s) = x \<and> kmem_inv (snd (kalloc s)) xs \<and> mem (snd (kalloc s)) = mem s"
    using kalloc_Cons [of s x xs] by simp
  show "valid_frame (snd (kalloc s)) v = valid_frame s v" by (simp add: valid_frame_def)
  show "kmem_inv s xs \<Longrightarrow> valid_frame s v \<Longrightarrow> v \<notin> set xs \<Longrightarrow>
    \<exists>s'. kfree v s = Inr s' \<and> kmem_inv s' (v # xs) \<and> changes {v} (mem s) (mem s')"
    using kfree_inv [of s xs v] kfree_changes [of v s] by metis
  show "kfree v s = Inr s' \<Longrightarrow> valid_frame s v \<and> valid_frame s' w = valid_frame s w"
    using kfree_Inr [of v s s'] by (auto simp: valid_frame_def)
  show "kmem_inv s xs \<Longrightarrow> distinct xs \<and> (\<forall>x\<in>set xs. valid_frame s x \<and> x \<noteq> 0)"
    using valid_frame_nonzero by (auto simp: kmem_inv_def)
qed

section \<open>Building the free list\<close>

definition frames :: "u32 \<Rightarrow> nat \<Rightarrow> u32 list" where
  "frames p n = map (\<lambda>i. p + 4096 * of_nat i) [0..<n]"

lemma frames_0 [simp]: "frames p 0 = []"
  by (simp add: frames_def)

lemma frames_Suc: "frames p (Suc n) = p # frames (p + 4096) n"
  by (simp add: frames_def upt_conv_Cons map_Suc_upt [symmetric] algebra_simps
      del: upt_Suc)

lemma unat_frame:
  assumes "unat (p :: u32) + 4096 * n \<le> 4294967296" and "i < n"
  shows "unat (p + 4096 * of_nat i) = unat p + 4096 * i"
proof -
  have "4096 * i < 4294967296" using assms by linarith
  moreover have "i < 4294967296" using assms by linarith
  ultimately have "unat (4096 * of_nat i :: u32) = 4096 * i"
    by (simp add: unat_mult32 unat_of_nat)
  moreover have "unat p + 4096 * i < 4294967296" using assms by linarith
  ultimately show ?thesis by (simp add: unat_add_small)
qed

lemma frames_fresh:
  assumes "unat p + 4096 * Suc n \<le> 4294967296"
  shows "p \<notin> set (frames (p + 4096) n)"
proof
  assume "p \<in> set (frames (p + 4096) n)"
  then obtain i where "i < n" and "p = p + 4096 * of_nat (Suc i)"
    by (auto simp: frames_def algebra_simps)
  then have "unat p = unat p + 4096 * Suc i"
    using unat_frame [OF assms, of "Suc i"] by simp
  then show False by simp
qed

lemma freerange_loop_inv:
  assumes "kmem_inv s xs" and "aligned p" and "kend s \<le> p"
    and "unat vend \<le> 0x8E000000" and "0x80000000 \<le> unat p" and "unat p < 0xF0000000"
    and "n = (unat vend - unat p) div 4096" and "set (frames p n) \<inter> set xs = {}"
  shows "\<exists>s'. freerange_loop p vend s = Inr s' \<and> kmem_inv s' (rev (frames p n) @ xs)"
  using assms
proof (induction n arbitrary: p s xs)
  case 0
  then have "\<not> p + 4096 \<le> vend"
    by (simp add: word_le_nat_alt unat_add32 div_eq_0_iff)
  then show ?case
    using 0 by (simp add: freerange_loop.simps [of p])
next
  case (Suc n)
  have n: "n = (unat vend - unat p - 4096) div 4096" and le: "unat p + 4096 \<le> unat vend"
    using div_Suc_page [OF Suc.prems(7)] by auto
  have up: "unat (p + 4096) = unat p + 4096"
    using le Suc.prems(4) by (simp add: unat_add32)
  have "unat (V2P p) = unat p - 0x80000000"
    using Suc.prems(5) by (simp add: V2P_def unat_sub_le word_le_nat_alt)
  then have v: "valid_frame s p"
    using Suc.prems le by (simp add: valid_frame_def word_less_nat_alt)
  have "p \<notin> set xs" using Suc.prems(8) by (auto simp: frames_Suc)
  then obtain s1 where s1: "kfree p s = Inr s1" "kmem_inv s1 (p # xs)"
    using kfree_inv [OF Suc.prems(1) v] by blast
  have "4096 * n \<le> unat vend - unat p - 4096"
    unfolding n by simp
  then have "p \<notin> set (frames (p + 4096) n)"
    using le Suc.prems(4) by (intro frames_fresh) simp
  then have sep: "set (frames (p + 4096) n) \<inter> set (p # xs) = {}"
    using Suc.prems(8) by (auto simp: frames_Suc)
  have "\<exists>s'. freerange_loop (p + 4096) vend s1 = Inr s'
      \<and> kmem_inv s' (rev (frames (p + 4096) n) @ (p # xs))"
    using Suc.prems(2-5) le up kfree_Inr [OF s1(1)] n
    by (intro Suc.IH s1(2) sep) (auto simp: word_le_nat_alt)
  then show ?case
    using le up s1(1) by (auto simp: freerange_loop.simps [of p] word_le_nat_alt frames_Suc)
qed

section \<open>Properties\<close>

text \<open>C35. The allocator is a stack of frames: whatever the free list \<open>xs\<close> is, freeing a valid
  frame that is not on it succeeds, allocating then returns exactly that frame and leaves
  the list \<open>xs\<close>, and no byte outside that frame has changed.\<close>

theorem kfree_kalloc:
  assumes "kmem_inv s xs" and "valid_frame s v" and "v \<notin> set xs"
  shows "\<exists>s'. kfree v s = Inr s' \<and> fst (kalloc s') = v \<and> kmem_inv (snd (kalloc s')) xs
    \<and> changes {v} (mem s) (mem (snd (kalloc s')))"
proof -
  obtain s' where k: "kfree v s = Inr s'" "kmem_inv s' (v # xs)" "changes {v} (mem s) (mem s')"
    using km.free_push [OF assms] by blast
  with km.alloc_head [OF k(2)] show ?thesis by auto
qed

definition phys0 :: phys where
  "phys0 = \<lparr>mem = (\<lambda>_. 0), freelist = 0, use_lock = False, cr3 = 0, kend = 0x80119f48, kdata = 0x8010b000\<rparr>"

lemma phys0_inv: "kmem_inv phys0 []"
  by (simp add: kmem_inv_def phys0_def)

lemma phys0_valid: "valid_frame phys0 v \<longleftrightarrow> aligned v \<and> 0x80119f48 \<le> v \<and> V2P v < 0xE000000"
  by (simp add: valid_frame_def phys0_def)

theorem kfree_kalloc_witness:
  "\<exists>s'. kfree 0x80200000 phys0 = Inr s' \<and> fst (kalloc s') = 0x80200000"
  using kfree_kalloc [OF phys0_inv, of "0x80200000"]
  by (auto simp: phys0_valid aligned_def V2P_def)

text \<open>C36. \<open>freerange\<close> (and so \<open>kinit1\<close> and \<open>kinit2\<close>) ends, does not panic, and puts exactly
  the whole pages of the range on the free list, the highest first, provided the range
  lies between the end of the kernel and the top of physical memory and none of its
  pages is on the list already.\<close>

theorem freerange_pages:
  assumes "kmem_inv s xs" and "kend s \<le> PGROUNDUP vstart" and "KERNBASE \<le> PGROUNDUP vstart"
    and "vend \<le> P2V PHYSTOP" and "unat (PGROUNDUP vstart) < 0xF0000000"
    and "n = (unat vend - unat (PGROUNDUP vstart)) div 4096"
    and "set (frames (PGROUNDUP vstart) n) \<inter> set xs = {}"
  shows "\<exists>s'. freerange vstart vend s = Inr s' \<and> kmem_inv s' (rev (frames (PGROUNDUP vstart) n) @ xs)"
  unfolding freerange_def
  by (rule freerange_loop_inv) (use assms in \<open>simp_all add: word_le_nat_alt P2V_def\<close>)

theorem freerange_pages_witness:
  "\<exists>s'. freerange 0x80200001 0x80203800 phys0 = Inr s' \<and> kmem_inv s' [0x80202000, 0x80201000]"
proof -
  have r: "PGROUNDUP 0x80200001 = (0x80201000 :: u32)" by (simp add: PGROUNDUP_def)
  have f: "frames 0x80201000 2 = [0x80201000, 0x80202000]"
    by (simp add: numeral_2_eq_2 frames_Suc)
  have "\<exists>s'. freerange 0x80200001 0x80203800 phys0 = Inr s'
      \<and> kmem_inv s' (rev (frames (PGROUNDUP 0x80200001) 2) @ [])"
    by (rule freerange_pages [OF phys0_inv]) (simp_all add: r phys0_def P2V_def)
  then show ?thesis by (simp add: r f)
qed

end
