(* ===== verification/Vm.thy ===== *)
theory Vm
  imports Kalloc
begin

text \<open>
  Page tables and user address spaces, the first part of \<^verbatim>\<open>src/src/vm.c\<close>
  (everything up to \<open>copyout\<close>). A page directory is a frame of 1024 words; the
  kernel pointer to it is the C \<open>pde_t *\<close>. A function that can return a null
  pointer returns the word 0; a dereference of it is the outcome \<open>NullDeref\<close>.
  Functions that return an \<open>int\<close> return it as an integer. Console output is not
  part of the state. Loops over pages carry a bound of \<open>2^20\<close> iterations, the number of
  pages of the address space.
\<close>

section \<open>Operations\<close>

definition walkpgdir ::
    "u32 \<Rightarrow> u32 \<Rightarrow> bool \<Rightarrow> 'a phys_scheme \<Rightarrow> u32 \<times> 'a phys_scheme" where
  "walkpgdir pgdir va alloc s =
    (let pde = pgdir + 4 * PDX va in
     if has (load32 (mem s) pde) PTE_P
     then (P2V (PTE_ADDR (load32 (mem s) pde)) + 4 * PTX va, s)
     else if \<not> alloc then (0, s)
     else
       let (pgtab, s) = kalloc s in
       if pgtab = 0 then (0, s)
       else
         let s = s\<lparr>mem := memset (mem s) pgtab 0 PGSIZE\<rparr>;
             s = s\<lparr>mem := store32 (mem s) pde (V2P pgtab OR PTE_P OR PTE_W OR PTE_U)\<rparr>
         in (pgtab + 4 * PTX va, s))"

definition page_fuel :: nat where "page_fuel = 1048576"

fun mappages_loop :: "nat \<Rightarrow> u32 \<Rightarrow> u32 \<Rightarrow> u32 \<Rightarrow> u32 \<Rightarrow> u32 \<Rightarrow> 'a phys_scheme
    \<Rightarrow> err + (int \<times> 'a phys_scheme)" where
  "mappages_loop 0 pgdir a last_a pa perm s = Inl NoFuel"
| "mappages_loop (Suc fuel) pgdir a last_a pa perm s =
    (let (pte, s) = walkpgdir pgdir a True s in
     if pte = 0 then Inr (-1, s)
     else if has (load32 (mem s) pte) (PTE_P OR PTE_E)
     then Inl (Panic ''p4Debug, remapping page'')
     else
       let s = s\<lparr>mem := store32 (mem s) pte
                  (if has perm PTE_E then pa OR perm OR PTE_E else pa OR perm OR PTE_P)\<rparr>
       in if a = last_a then Inr (0, s)
          else mappages_loop fuel pgdir (a + PGSIZE) last_a (pa + PGSIZE) perm s)"

definition mappages :: "u32 \<Rightarrow> u32 \<Rightarrow> u32 \<Rightarrow> u32 \<Rightarrow> u32 \<Rightarrow> 'a phys_scheme
    \<Rightarrow> err + (int \<times> 'a phys_scheme)" where
  "mappages pgdir va sz pa perm s =
    mappages_loop page_fuel pgdir (PGROUNDDOWN va) (PGROUNDDOWN (va + sz - 1)) pa perm s"

fun deallocuvm_loop :: "nat \<Rightarrow> u32 \<Rightarrow> u32 \<Rightarrow> u32 \<Rightarrow> 'a phys_scheme \<Rightarrow> err + 'a phys_scheme" where
  "deallocuvm_loop 0 pgdir a oldsz s = (if a < oldsz then Inl NoFuel else Inr s)"
| "deallocuvm_loop (Suc fuel) pgdir a oldsz s =
    (if a < oldsz then
       let (pte, s) = walkpgdir pgdir a False s in
       if pte = 0 then
         deallocuvm_loop fuel pgdir (PGADDR (PDX a + 1) 0 0 - PGSIZE + PGSIZE) oldsz s
       else if has (load32 (mem s) pte) (PTE_P OR PTE_E) then
         let pa = PTE_ADDR (load32 (mem s) pte) in
         if pa = 0 then Inl (Panic ''kfree'')
         else bindE (kfree (P2V pa) s) (\<lambda>s.
           deallocuvm_loop fuel pgdir (a + PGSIZE) oldsz (s\<lparr>mem := store32 (mem s) pte 0\<rparr>))
       else deallocuvm_loop fuel pgdir (a + PGSIZE) oldsz s
     else Inr s)"

definition deallocuvm :: "u32 \<Rightarrow> u32 \<Rightarrow> u32 \<Rightarrow> 'a phys_scheme \<Rightarrow> err + (u32 \<times> 'a phys_scheme)" where
  "deallocuvm pgdir oldsz newsz s =
    (if newsz \<ge> oldsz then Inr (oldsz, s)
     else bindE (deallocuvm_loop page_fuel pgdir (PGROUNDUP newsz) oldsz s)
       (\<lambda>s. Inr (newsz, s)))"

text \<open>The directory scan of \<open>freevm\<close>: \<open>n\<close> entries from index \<open>i\<close> on.\<close>

fun freevm_loop :: "nat \<Rightarrow> u32 \<Rightarrow> u32 \<Rightarrow> 'a phys_scheme \<Rightarrow> err + 'a phys_scheme" where
  "freevm_loop 0 pgdir i s = Inr s"
| "freevm_loop (Suc n) pgdir i s =
    (let e = load32 (mem s) (pgdir + 4 * i) in
     if has e (PTE_P OR PTE_E)
     then bindE (kfree (P2V (PTE_ADDR e)) s) (freevm_loop n pgdir (i + 1))
     else freevm_loop n pgdir (i + 1) s)"

definition freevm :: "u32 \<Rightarrow> 'a phys_scheme \<Rightarrow> err + 'a phys_scheme" where
  "freevm pgdir s =
    (if pgdir = 0 then Inl (Panic ''freevm: no pgdir'')
     else bindE (deallocuvm pgdir KERNBASE 0 s) (\<lambda>(_, s).
       bindE (freevm_loop NPDENTRIES pgdir 0 s) (kfree pgdir)))"

text \<open>The kernel's mappings: virtual start, physical start and end, permissions.\<close>

definition kmap :: "'a phys_scheme \<Rightarrow> (u32 \<times> u32 \<times> u32 \<times> u32) list" where
  "kmap s =
    [(KERNBASE, 0, EXTMEM, PTE_W),
     (KERNLINK, V2P KERNLINK, V2P (kdata s), 0),
     (kdata s, V2P (kdata s), PHYSTOP, PTE_W),
     (DEVSPACE, DEVSPACE, 0, PTE_W)]"

fun setupkvm_loop :: "(u32 \<times> u32 \<times> u32 \<times> u32) list \<Rightarrow> u32 \<Rightarrow> 'a phys_scheme
    \<Rightarrow> err + (u32 \<times> 'a phys_scheme)" where
  "setupkvm_loop [] pgdir s = Inr (pgdir, s)"
| "setupkvm_loop ((virt, phys_start, phys_end, perm) # ks) pgdir s =
    bindE (mappages pgdir virt (phys_end - phys_start) phys_start perm s) (\<lambda>(r, s).
      if r < 0 then bindE (freevm pgdir s) (\<lambda>s. Inr (0, s))
      else setupkvm_loop ks pgdir s)"

definition setupkvm :: "'a phys_scheme \<Rightarrow> err + (u32 \<times> 'a phys_scheme)" where
  "setupkvm s =
    (let (pgdir, s) = kalloc s in
     if pgdir = 0 then Inr (0, s)
     else
       let s = s\<lparr>mem := memset (mem s) pgdir 0 PGSIZE\<rparr> in
       if P2V PHYSTOP > DEVSPACE then Inl (Panic ''PHYSTOP too high'')
       else setupkvm_loop (kmap s) pgdir s)"

text \<open>\<open>init\<close> is a kernel pointer to the \<open>sz\<close> bytes of the first program.\<close>

definition inituvm :: "u32 \<Rightarrow> u32 \<Rightarrow> u32 \<Rightarrow> 'a phys_scheme \<Rightarrow> err + 'a phys_scheme" where
  "inituvm pgdir init sz s =
    (if sz \<ge> PGSIZE then Inl (Panic ''inituvm: more than a page'')
     else
       let (p, s) = kalloc s in
       if p = 0 then Inl NullDeref
       else
         bindE (mappages pgdir 0 PGSIZE (V2P p) (PTE_W OR PTE_U)
                  (s\<lparr>mem := memset (mem s) p 0 PGSIZE\<rparr>)) (\<lambda>(_, s).
         Inr (s\<lparr>mem := memmove (mem s) p init sz\<rparr>)))"

fun allocuvm_loop :: "nat \<Rightarrow> u32 \<Rightarrow> u32 \<Rightarrow> u32 \<Rightarrow> u32 \<Rightarrow> 'a phys_scheme
    \<Rightarrow> err + (u32 \<times> 'a phys_scheme)" where
  "allocuvm_loop 0 pgdir a oldsz newsz s = (if a < newsz then Inl NoFuel else Inr (newsz, s))"
| "allocuvm_loop (Suc fuel) pgdir a oldsz newsz s =
    (if a < newsz then
       let (p, s) = kalloc s in
       if p = 0 then bindE (deallocuvm pgdir newsz oldsz s) (\<lambda>(_, s). Inr (0, s))
       else
         bindE (mappages pgdir a PGSIZE (V2P p) (PTE_W OR PTE_U)
                  (s\<lparr>mem := memset (mem s) p 0 PGSIZE\<rparr>)) (\<lambda>(r, s).
         if r < 0 then
           bindE (deallocuvm pgdir newsz oldsz s) (\<lambda>(_, s).
           bindE (kfree p s) (\<lambda>s. Inr (0, s)))
         else allocuvm_loop fuel pgdir (a + PGSIZE) oldsz newsz s)
     else Inr (newsz, s))"

definition allocuvm :: "u32 \<Rightarrow> u32 \<Rightarrow> u32 \<Rightarrow> 'a phys_scheme \<Rightarrow> err + (u32 \<times> 'a phys_scheme)" where
  "allocuvm pgdir oldsz newsz s =
    (if newsz \<ge> KERNBASE then Inr (0, s)
     else if newsz < oldsz then Inr (oldsz, s)
     else allocuvm_loop page_fuel pgdir (PGROUNDUP oldsz) oldsz newsz s)"

definition clearpteu :: "u32 \<Rightarrow> u32 \<Rightarrow> 'a phys_scheme \<Rightarrow> err + 'a phys_scheme" where
  "clearpteu pgdir uva s =
    (let (pte, s) = walkpgdir pgdir uva False s in
     if pte = 0 then Inl (Panic ''clearpteu'')
     else Inr (s\<lparr>mem := store32 (mem s) pte (load32 (mem s) pte AND NOT PTE_U)\<rparr>))"

fun copyuvm_loop :: "nat \<Rightarrow> u32 \<Rightarrow> u32 \<Rightarrow> u32 \<Rightarrow> u32 \<Rightarrow> 'a phys_scheme
    \<Rightarrow> err + (u32 \<times> 'a phys_scheme)" where
  "copyuvm_loop 0 d pgdir i sz s = (if i < sz then Inl NoFuel else Inr (d, s))"
| "copyuvm_loop (Suc fuel) d pgdir i sz s =
    (if i < sz then
       let (pte, s) = walkpgdir pgdir i False s in
       if pte = 0 then Inl (Panic ''p4Debug: inside copyuvm, pte should exist'')
       else if \<not> has (load32 (mem s) pte) (PTE_P OR PTE_E)
       then Inl (Panic ''p4Debug: inside copyuvm, page not present'')
       else
         let pa = PTE_ADDR (load32 (mem s) pte);
             flags = PTE_FLAGS (load32 (mem s) pte);
             (p, s) = kalloc s
         in if p = 0 then bindE (freevm d s) (\<lambda>s. Inr (0, s))
            else
              bindE (mappages d i PGSIZE (V2P p) flags
                       (s\<lparr>mem := memmove (mem s) p (P2V pa) PGSIZE\<rparr>)) (\<lambda>(r, s).
              if r < 0 then bindE (kfree p s) (\<lambda>s. bindE (freevm d s) (\<lambda>s. Inr (0, s)))
              else copyuvm_loop fuel d pgdir (i + PGSIZE) sz s)
     else Inr (d, s))"

definition copyuvm :: "u32 \<Rightarrow> u32 \<Rightarrow> 'a phys_scheme \<Rightarrow> err + (u32 \<times> 'a phys_scheme)" where
  "copyuvm pgdir sz s =
    bindE (setupkvm s) (\<lambda>(d, s).
      if d = 0 then Inr (0, s) else copyuvm_loop page_fuel d pgdir 0 sz s)"

definition uva2ka :: "u32 \<Rightarrow> u32 \<Rightarrow> 'a phys_scheme \<Rightarrow> err + u32" where
  "uva2ka pgdir uva s =
    (let (pte, s) = walkpgdir pgdir uva False s in
     if pte = 0 then Inl NullDeref
     else
       let e = load32 (mem s) pte in
       if (e AND PTE_P) OR (e AND PTE_E) = 0 then Inr 0
       else if e AND PTE_U = 0 then Inr 0
       else Inr (P2V (PTE_ADDR e)))"

text \<open>\<open>p\<close> is a kernel pointer to the bytes to copy.\<close>

function copyout_loop :: "u32 \<Rightarrow> u32 \<Rightarrow> u32 \<Rightarrow> u32 \<Rightarrow> 'a phys_scheme
    \<Rightarrow> err + (int \<times> 'a phys_scheme)" where
  "copyout_loop pgdir va buf len s =
    (if len > 0 then
       let va0 = PGROUNDDOWN va in
       bindE (uva2ka pgdir va0 s) (\<lambda>pa0.
         if pa0 = 0 then Inr (-1, s)
         else
           let n = PGSIZE - (va - va0);
               n = (if n > len then len else n)
           in copyout_loop pgdir (va0 + PGSIZE) (buf + n) (len - n)
                (s\<lparr>mem := memmove (mem s) (pa0 + (va - va0)) buf n\<rparr>))
     else Inr (0, s))"
  by pat_completeness auto
termination
proof (relation "measure (\<lambda>(pgdir, va, buf, len, s). unat len)", goal_cases)
  case 1
  show ?case by simp
next
  case (2 pgdir va buf len s va0 pa0 n n')
  have off: "va - va0 = OFFSET va"
    using 2(2) PGROUNDDOWN_OFFSET [of va] by (metis add_diff_cancel_left')
  have le: "OFFSET va \<le> 4096" by (simp add: word_le_nat_alt less_imp_le)
  have "unat n = 4096 - unat (OFFSET va)"
    unfolding 2(5) off using unat_sub_le [OF le] by simp
  then have pos: "0 < unat n" by simp
  have "0 < unat n'" "n' \<le> len"
    unfolding 2(6) using pos 2(1) by (auto simp: word_gt_0 unat_gt_0)
  then show ?case
    by (simp add: unat_sub_le word_le_nat_alt)
qed

declare copyout_loop.simps [simp del]

definition copyout :: "u32 \<Rightarrow> u32 \<Rightarrow> u32 \<Rightarrow> u32 \<Rightarrow> 'a phys_scheme \<Rightarrow> err + (int \<times> 'a phys_scheme)" where
  "copyout pgdir va p len s = copyout_loop pgdir va p len s"

end
