(* ===== verification/Vm_Tables.thy ===== *)
theory Vm_Tables
  imports Vm
begin

text \<open>
  The abstract view of a page table: the entry of every virtual address, and the
  condition under which the two-level structure in memory behaves as such a map. The
  lemmas state \<open>walkpgdir\<close> and \<open>mappages\<close> in that view.
\<close>

section \<open>The view\<close>

definition pde_at :: "memory \<Rightarrow> u32 \<Rightarrow> u32 \<Rightarrow> u32" where
  "pde_at m pd va = load32 m (pd + 4 * PDX va)"

definition pgtab_at :: "memory \<Rightarrow> u32 \<Rightarrow> u32 \<Rightarrow> u32" where
  "pgtab_at m pd va = P2V (PTE_ADDR (pde_at m pd va))"

definition pte_slot :: "memory \<Rightarrow> u32 \<Rightarrow> u32 \<Rightarrow> u32" where
  "pte_slot m pd va = pgtab_at m pd va + 4 * PTX va"

definition has_table :: "memory \<Rightarrow> u32 \<Rightarrow> u32 \<Rightarrow> bool" where
  "has_table m pd va \<longleftrightarrow> has (pde_at m pd va) PTE_P"

definition pte_at :: "memory \<Rightarrow> u32 \<Rightarrow> u32 \<Rightarrow> u32" where
  "pte_at m pd va = (if has_table m pd va then load32 m (pte_slot m pd va) else 0)"

text \<open>The frames that make up the table, and its well-formedness: the directory is
  page aligned, and the tables are frames of their own, one per directory slot.\<close>

definition table_frames :: "memory \<Rightarrow> u32 \<Rightarrow> u32 set" where
  "table_frames m pd = {pd} \<union> {pgtab_at m pd va |va. has_table m pd va}"

definition pd_wf :: "memory \<Rightarrow> u32 \<Rightarrow> bool" where
  "pd_wf m pd \<longleftrightarrow> aligned pd \<and>
     (\<forall>va. has_table m pd va \<longrightarrow> pgtab_at m pd va \<noteq> pd \<and> pgtab_at m pd va \<noteq> 0) \<and>
     (\<forall>va vb. has_table m pd va \<longrightarrow> has_table m pd vb \<longrightarrow>
        pgtab_at m pd va = pgtab_at m pd vb \<longrightarrow> PDX va = PDX vb)"

section \<open>Basic facts\<close>

lemma pd_wf_aligned: "pd_wf m pd \<Longrightarrow> aligned pd"
  by (simp add: pd_wf_def)

lemma pd_wf_inj:
  "pd_wf m pd \<Longrightarrow> has_table m pd va \<Longrightarrow> has_table m pd vb \<Longrightarrow>
   pgtab_at m pd va = pgtab_at m pd vb \<Longrightarrow> PDX va = PDX vb"
  unfolding pd_wf_def by blast

lemma pd_wf_tables:
  "pd_wf m pd \<Longrightarrow> has_table m pd va \<Longrightarrow> pgtab_at m pd va \<noteq> pd \<and> pgtab_at m pd va \<noteq> 0"
  unfolding pd_wf_def by blast

lemma pgtab_aligned [simp]: "aligned (pgtab_at m pd va)"
  by (simp add: pgtab_at_def)

lemma pd_in_table_frames [simp]: "pd \<in> table_frames m pd"
  by (simp add: table_frames_def)

lemma pgtab_in_table_frames: "has_table m pd va \<Longrightarrow> pgtab_at m pd va \<in> table_frames m pd"
  by (auto simp: table_frames_def)

lemma pde_slot_page: "aligned pd \<Longrightarrow> PGROUNDDOWN (pd + 4 * PDX va) = pd"
  by (simp add: slot_page)

lemma pte_slot_page [simp]: "PGROUNDDOWN (pte_slot m pd va) = pgtab_at m pd va"
  by (simp add: pte_slot_def slot_page)

lemma pde_slot_mod4: "aligned pd \<Longrightarrow> (pd + 4 * PDX va) mod 4 = 0"
  by (simp add: slot_word_aligned)

lemma pte_slot_mod4 [simp]: "pte_slot m pd va mod 4 = 0"
  by (simp add: pte_slot_def slot_word_aligned)

lemma pte_slot_nonzero: "pd_wf m pd \<Longrightarrow> has_table m pd va \<Longrightarrow> pte_slot m pd va \<noteq> 0"
proof
  assume "pd_wf m pd" "has_table m pd va" and z: "pte_slot m pd va = 0"
  then have "pgtab_at m pd va \<noteq> 0" by (simp add: pd_wf_tables)
  moreover have "PGROUNDDOWN (pte_slot m pd va) = pgtab_at m pd va" by simp
  ultimately show False using z by simp
qed

lemma pte_slot_eq_iff:
  assumes "pd_wf m pd" and "has_table m pd va" and "has_table m pd vb"
  shows "pte_slot m pd va = pte_slot m pd vb \<longleftrightarrow> PGROUNDDOWN va = PGROUNDDOWN vb"
proof
  assume eq: "pte_slot m pd va = pte_slot m pd vb"
  then have "pgtab_at m pd va = pgtab_at m pd vb"
    using pte_slot_page by metis
  then have "PDX va = PDX vb" and "PTX va = PTX vb"
    using pd_wf_inj [OF assms] eq by (simp_all add: pte_slot_def)
  then show "PGROUNDDOWN va = PGROUNDDOWN vb" by (simp add: page_eq_iff)
next
  assume "PGROUNDDOWN va = PGROUNDDOWN vb"
  then show "pte_slot m pd va = pte_slot m pd vb"
    by (simp add: page_eq_iff pte_slot_def pgtab_at_def pde_at_def)
qed

lemma view_cong_page:
  assumes "PGROUNDDOWN va = PGROUNDDOWN vb"
  shows "pde_at m pd va = pde_at m pd vb" "pgtab_at m pd va = pgtab_at m pd vb"
    "pte_slot m pd va = pte_slot m pd vb" "has_table m pd va = has_table m pd vb"
    "pte_at m pd va = pte_at m pd vb"
  using assms by (simp_all add: page_eq_iff pte_slot_def pgtab_at_def pde_at_def has_table_def pte_at_def)

lemma view_PGROUNDDOWN [simp]:
  "pde_at m pd (PGROUNDDOWN va) = pde_at m pd va"
  "pgtab_at m pd (PGROUNDDOWN va) = pgtab_at m pd va"
  "pte_slot m pd (PGROUNDDOWN va) = pte_slot m pd va"
  "has_table m pd (PGROUNDDOWN va) = has_table m pd va"
  "pte_at m pd (PGROUNDDOWN va) = pte_at m pd va"
  by (rule view_cong_page; simp)+

section \<open>Updates\<close>

text \<open>Changes outside the table's own frames leave the view alone.\<close>

lemma pde_at_frame:
  assumes "changes P m m'" and "aligned pd" and "pd \<notin> P"
  shows "pde_at m' pd va = pde_at m pd va"
  using assms by (auto simp: pde_at_def pde_slot_page pde_slot_mod4 intro!: changes_load32)

lemma table_frame:
  assumes "changes P m m'" and "aligned pd" and "pd \<notin> P"
  shows "pgtab_at m' pd va = pgtab_at m pd va" "has_table m' pd va = has_table m pd va"
    "pte_slot m' pd va = pte_slot m pd va"
  using pde_at_frame [OF assms] by (simp_all add: pgtab_at_def has_table_def pte_slot_def)

lemma pte_at_frame:
  assumes "changes P m m'" and "pd_wf m pd" and "P \<inter> table_frames m pd = {}"
  shows "pte_at m' pd va = pte_at m pd va"
proof -
  have pd: "aligned pd" "pd \<notin> P"
    using assms(2,3) by (auto simp: pd_wf_def table_frames_def)
  have "has_table m pd va \<Longrightarrow> pgtab_at m pd va \<notin> P"
    using assms(3) pgtab_in_table_frames by blast
  then have "has_table m pd va \<Longrightarrow> load32 m' (pte_slot m pd va) = load32 m (pte_slot m pd va)"
    using assms(1) by (intro changes_load32) simp_all
  then show ?thesis
    by (simp add: pte_at_def table_frame [OF assms(1) pd])
qed

lemma pd_wf_frame:
  assumes "changes P m m'" and "pd_wf m pd" and "pd \<notin> P"
  shows "pd_wf m' pd"
  using assms(2) unfolding pd_wf_def table_frame [OF assms(1) pd_wf_aligned [OF assms(2)] assms(3)] .

lemma table_frames_frame:
  assumes "changes P m m'" and "aligned pd" and "pd \<notin> P"
  shows "table_frames m' pd = table_frames m pd"
  using table_frame [OF assms] by (simp add: table_frames_def)

text \<open>A store to the entry of one address changes that entry and no other.\<close>

lemma store_pte_changes: "changes {pgtab_at m pd va} m (store32 m (pte_slot m pd va) v)"
  by (rule changes_store32) simp_all

lemma store_pte_view:
  fixes v :: u32
  assumes "pd_wf m pd" and "has_table m pd va"
  defines "m' \<equiv> store32 m (pte_slot m pd va) v"
  shows "pte_at m' pd vb = (if PGROUNDDOWN vb = PGROUNDDOWN va then v else pte_at m pd vb)"
    and "pde_at m' pd vb = pde_at m pd vb"
    and "has_table m' pd vb = has_table m pd vb"
    and "pgtab_at m' pd vb = pgtab_at m pd vb"
    and "pte_slot m' pd vb = pte_slot m pd vb"
    and "pd_wf m' pd"
    and "table_frames m' pd = table_frames m pd"
proof -
  have ch: "changes {pgtab_at m pd va} m m'"
    unfolding m'_def by (rule store_pte_changes)
  have pd: "aligned pd" "pd \<notin> {pgtab_at m pd va}"
    using assms by (auto simp: pd_wf_def)
  note fr = table_frame [OF ch pd] pde_at_frame [OF ch pd]
  show "pde_at m' pd vb = pde_at m pd vb" "has_table m' pd vb = has_table m pd vb"
    "pgtab_at m' pd vb = pgtab_at m pd vb" "pte_slot m' pd vb = pte_slot m pd vb"
    by (rule fr)+
  show "pd_wf m' pd" "table_frames m' pd = table_frames m pd"
    using pd_wf_frame [OF ch assms(1) pd(2)] table_frames_frame [OF ch pd] .
  show "pte_at m' pd vb = (if PGROUNDDOWN vb = PGROUNDDOWN va then v else pte_at m pd vb)"
  proof (cases "has_table m pd vb")
    case True
    then have "load32 m' (pte_slot m pd vb) =
        (if PGROUNDDOWN vb = PGROUNDDOWN va then v else load32 m (pte_slot m pd vb))"
      using pte_slot_eq_iff [OF assms(1) True assms(2)]
      by (auto simp: m'_def load32_store32_other)
    with True show ?thesis by (simp add: pte_at_def fr)
  next
    case False
    then show ?thesis
      using assms(2) view_cong_page(4) [of vb va m pd] by (auto simp: pte_at_def fr)
  qed
qed

section \<open>walkpgdir\<close>

lemma walkpgdir_lookup:
  "walkpgdir pd va False s = (if has_table (mem s) pd va then pte_slot (mem s) pd va else 0, s)"
  by (simp add: walkpgdir_def has_table_def pte_slot_def pgtab_at_def pde_at_def Let_def)

lemma walkpgdir_present:
  "has_table (mem s) pd va \<Longrightarrow> walkpgdir pd va alloc s = (pte_slot (mem s) pd va, s)"
  by (simp add: walkpgdir_def has_table_def pte_slot_def pgtab_at_def pde_at_def Let_def)

text \<open>Memory after a fresh table frame \<open>r\<close> has been installed for \<open>va\<close>.\<close>

definition install :: "memory \<Rightarrow> u32 \<Rightarrow> u32 \<Rightarrow> u32 \<Rightarrow> memory" where
  "install m pd va r =
    store32 (memset m r 0 PGSIZE) (pd + 4 * PDX va) (V2P r OR PTE_P OR PTE_W OR PTE_U)"

lemma walkpgdir_install:
  assumes "\<not> has_table (mem s) pd va" and "kalloc s = (r, s1)" and "r \<noteq> 0"
  shows "walkpgdir pd va True s = (r + 4 * PTX va, s1\<lparr>mem := install (mem s1) pd va r\<rparr>)"
  using assms by (simp add: walkpgdir_def install_def has_table_def pde_at_def Let_def)

lemma walkpgdir_fail:
  assumes "\<not> has_table (mem s) pd va" and "kalloc s = (0, s1)"
  shows "walkpgdir pd va True s = (0, s1)"
  using assms by (simp add: walkpgdir_def has_table_def pde_at_def Let_def)

lemma install_changes: "aligned r \<Longrightarrow> aligned pd \<Longrightarrow> changes {r, pd} m (install m pd va r)"
proof -
  assume a: "aligned r" "aligned pd"
  have "changes {r} m (memset m r 0 4096)"
    using a by (intro changes_memset_page) auto
  moreover have "changes {pd} (memset m r 0 4096) (install m pd va r)"
    using a by (auto simp: install_def pde_slot_page pde_slot_mod4 intro!: changes_store32)
  ultimately have "changes ({r} \<union> {pd}) m (install m pd va r)" by (rule changes_trans)
  then show ?thesis by (rule changes_mono) auto
qed

text \<open>Installing a zeroed frame does not change the entry of any address: an address
  without a table had the entry 0 before.\<close>

lemma install_view:
  assumes wf: "pd_wf m pd" and new: "\<not> has_table m pd va"
    and r: "aligned r" "r \<noteq> 0" "r \<notin> table_frames m pd"
  defines "m' \<equiv> install m pd va r"
  shows "has_table m' pd vb \<longleftrightarrow> PDX vb = PDX va \<or> has_table m pd vb"
    and "pgtab_at m' pd vb = (if PDX vb = PDX va then r else pgtab_at m pd vb)"
    and "pte_at m' pd vb = pte_at m pd vb"
    and "pd_wf m' pd"
    and "table_frames m' pd = insert r (table_frames m pd)"
proof -
  let ?e = "V2P r OR 7" and ?z = "memset m r 0 4096"
  have pd: "aligned pd" "pd \<noteq> r" using wf r by (auto simp: pd_wf_def table_frames_def)
  have cz: "changes {r} m ?z" using r by (intro changes_memset_page) auto
  have ch: "changes {r, pd} m m'" unfolding m'_def using r(1) pd(1) by (rule install_changes)
  have pde: "pde_at m' pd vb = (if PDX vb = PDX va then ?e else pde_at m pd vb)" for vb
    using pd changes_load32 [OF cz, of "pd + 4 * PDX vb"]
    by (auto simp: m'_def install_def pde_at_def pde_slot_page pde_slot_mod4 slot_inject
        intro!: load32_store32_other [THEN trans])
  have eaddr: "PTE_ADDR ?e = V2P r"
    using r(1) by simp
  have tab: "has_table m' pd vb \<longleftrightarrow> PDX vb = PDX va \<or> has_table m pd vb" for vb
    by (auto simp: has_table_def pde has_P bit_simps)
  have pgt: "pgtab_at m' pd vb = (if PDX vb = PDX va then r else pgtab_at m pd vb)" for vb
    by (simp add: pgtab_at_def pde eaddr)
  have old: "pgtab_at m pd vb \<notin> {r, pd}" if "has_table m pd vb" for vb
    using pd_wf_tables [OF wf that] r(3) pgtab_in_table_frames [OF that] by auto
  have samedir: "has_table m pd vb \<Longrightarrow> PDX vb \<noteq> PDX va" for vb
    using new by (auto simp: has_table_def pde_at_def)
  show "has_table m' pd vb \<longleftrightarrow> PDX vb = PDX va \<or> has_table m pd vb" by (rule tab)
  show "pgtab_at m' pd vb = (if PDX vb = PDX va then r else pgtab_at m pd vb)" by (rule pgt)
  show "pd_wf m' pd"
    unfolding pd_wf_def tab pgt
  proof (intro conjI allI impI)
    fix vb vc
    assume "PDX vb = PDX va \<or> has_table m pd vb" and "PDX vc = PDX va \<or> has_table m pd vc"
      and "(if PDX vb = PDX va then r else pgtab_at m pd vb)
         = (if PDX vc = PDX va then r else pgtab_at m pd vc)"
    then show "PDX vb = PDX vc"
      using old [of vb] old [of vc] pd_wf_inj [OF wf, of vb vc] by (simp split: if_splits)
  next
    fix vb assume "PDX vb = PDX va \<or> has_table m pd vb"
    then show "(if PDX vb = PDX va then r else pgtab_at m pd vb) \<noteq> pd"
      and "(if PDX vb = PDX va then r else pgtab_at m pd vb) \<noteq> 0"
      using old [of vb] pd_wf_tables [OF wf, of vb] pd(2) r(2) by auto
  qed (rule pd(1))
  show "table_frames m' pd = insert r (table_frames m pd)"
  proof -
    have "{pgtab_at m' pd vb |vb. has_table m' pd vb} = insert r {pgtab_at m pd vb |vb. has_table m pd vb}"
      unfolding tab pgt using samedir by (safe; force)
    then show ?thesis by (simp add: table_frames_def insert_commute)
  qed
  show "pte_at m' pd vb = pte_at m pd vb"
  proof (cases "PDX vb = PDX va")
    case True
    have "pte_slot m' pd vb = r + 4 * PTX vb" by (simp add: pte_slot_def pgt True)
    moreover have "pd + 4 * PDX va \<noteq> r + 4 * PTX vb"
      using pd(2) slot_page [OF r(1), of "PTX vb"] pde_slot_page [OF pd(1), of va] by force
    then have "load32 m' (r + 4 * PTX vb) = load32 ?z (r + 4 * PTX vb)"
      using pd(1) r(1)
      by (simp add: m'_def install_def load32_store32_other pde_slot_mod4 slot_word_aligned)
    moreover have "load32 ?z (r + 4 * PTX vb) = 0"
      using r(1) by (intro load32_memset_zero) (simp_all add: slot_page slot_word_aligned)
    ultimately show ?thesis
      using True samedir [of vb] by (auto simp: pte_at_def tab)
  next
    case False
    have "load32 m' (pte_slot m pd vb) = load32 m (pte_slot m pd vb)" if "has_table m pd vb"
      using old [OF that] by (intro changes_load32 [OF ch]) simp_all
    then show ?thesis
      using False by (simp add: pte_at_def tab pte_slot_def pgt)
  qed
qed

section \<open>Page table and allocator together\<close>

definition vm_inv :: "'a phys_scheme \<Rightarrow> u32 \<Rightarrow> u32 list \<Rightarrow> bool" where
  "vm_inv s pd xs \<longleftrightarrow> kmem_inv s xs \<and> pd_wf (mem s) pd \<and> table_frames (mem s) pd \<inter> set xs = {}"

text \<open>\<open>grows s s' pd xs ys\<close>: the state went from \<open>s\<close>, with free list \<open>xs\<close>, to \<open>s'\<close>, with
  free list \<open>ys\<close>; the frames taken from the list and the frames of the table are the only
  ones written, and the table consists of such frames.\<close>

definition grows ::
    "'a phys_scheme \<Rightarrow> 'a phys_scheme \<Rightarrow> u32 \<Rightarrow> u32 list \<Rightarrow> u32 list \<Rightarrow> bool" where
  "grows s s' pd xs ys \<longleftrightarrow>
     s' = s\<lparr>mem := mem s', freelist := freelist s'\<rparr> \<and> vm_inv s' pd ys \<and>
     (\<exists>zs. xs = zs @ ys \<and>
        table_frames (mem s') pd \<subseteq> table_frames (mem s) pd \<union> set zs \<and>
        changes (table_frames (mem s) pd \<union> set zs) (mem s) (mem s'))"

lemma grows_refl: "vm_inv s pd xs \<Longrightarrow> grows s s pd xs xs"
  by (auto simp: grows_def)

lemma grows_trans:
  assumes "grows s s1 pd xs ys" and "grows s1 s2 pd ys zs"
  shows "grows s s2 pd xs zs"
proof -
  obtain us where us: "xs = us @ ys" "table_frames (mem s1) pd \<subseteq> table_frames (mem s) pd \<union> set us"
    "changes (table_frames (mem s) pd \<union> set us) (mem s) (mem s1)"
    using assms(1) by (auto simp: grows_def)
  obtain vs where vs: "ys = vs @ zs" "table_frames (mem s2) pd \<subseteq> table_frames (mem s1) pd \<union> set vs"
    "changes (table_frames (mem s1) pd \<union> set vs) (mem s1) (mem s2)"
    using assms(2) by (auto simp: grows_def)
  have "changes (table_frames (mem s) pd \<union> set (us @ vs)) (mem s) (mem s2)"
    by (rule changes_mono [OF changes_trans [OF us(3) vs(3)]]) (use us(2) in auto)
  moreover have "table_frames (mem s2) pd \<subseteq> table_frames (mem s) pd \<union> set (us @ vs)"
    using us(2) vs(2) by auto
  moreover have "s2 = s\<lparr>mem := mem s2, freelist := freelist s2\<rparr>"
  proof -
    have "s1 = s\<lparr>mem := mem s1, freelist := freelist s1\<rparr>"
      "s2 = s1\<lparr>mem := mem s2, freelist := freelist s2\<rparr>"
      using assms by (simp_all add: grows_def)
    then show ?thesis by (metis (no_types, lifting) phys.surjective phys.update_convs(1,2))
  qed
  ultimately show ?thesis
    using us(1) vs(1) assms(2) by (auto simp: grows_def)
qed

lemma grows_inv: "grows s s' pd xs ys \<Longrightarrow> vm_inv s' pd ys"
  by (simp add: grows_def)

text \<open>\<open>walkpgdir\<close> with allocation finds or makes the table of \<open>va\<close> and keeps every entry.\<close>

lemma walkpgdir_alloc:
  assumes inv: "vm_inv s pd xs"
  obtains (slot) s' ys where "walkpgdir pd va True s = (pte_slot (mem s') pd va, s')"
      "has_table (mem s') pd va" "pte_slot (mem s') pd va \<noteq> 0" "grows s s' pd xs ys"
      "\<And>vb. pte_at (mem s') pd vb = pte_at (mem s) pd vb"
    | (full) "walkpgdir pd va True s = (0, s)" "xs = []" "\<not> has_table (mem s) pd va"
proof (cases "has_table (mem s) pd va")
  case True
  have "pte_slot (mem s) pd va \<noteq> 0"
    using inv True by (auto simp: vm_inv_def dest: pte_slot_nonzero)
  with True walkpgdir_present [OF True, of True] grows_refl [OF inv] show ?thesis
    by (intro slot [of s xs]) auto
next
  case False
  have k: "kmem_inv s xs" and wf: "pd_wf (mem s) pd" and sep: "table_frames (mem s) pd \<inter> set xs = {}"
    using inv by (simp_all add: vm_inv_def)
  show ?thesis
  proof (rule km.alloc_cases [OF k])
    assume "xs = []" "kalloc s = (0, s)"
    with False show ?thesis using walkpgdir_fail [OF False] full by blast
  next
    fix r ys
    assume r: "xs = r # ys" "fst (kalloc s) = r" "kmem_inv (snd (kalloc s)) ys"
      "mem (snd (kalloc s)) = mem s" "valid_frame s r" "r \<noteq> 0" "r \<notin> set ys"
    let ?s1 = "snd (kalloc s)"
    let ?s' = "?s1\<lparr>mem := install (mem s) pd va r\<rparr>"
    have ra: "aligned r" and rn: "r \<notin> table_frames (mem s) pd"
      using r(1,5) sep by auto
    note view = install_view [OF wf False ra r(6) rn]
    have w: "walkpgdir pd va True s = (r + 4 * PTX va, ?s')"
      using walkpgdir_install [OF False, of r ?s1] r by (simp add: prod_eq_iff)
    have tab: "has_table (mem ?s') pd va" and slot_eq: "pte_slot (mem ?s') pd va = r + 4 * PTX va"
      using view(1,2) [of va] by (simp_all add: pte_slot_def)
    have ch: "changes {r, pd} (mem s) (mem ?s')"
      using install_changes [OF ra pd_wf_aligned [OF wf]] by simp
    have "kmem_inv ?s' ys"
      by (rule kmem_inv_frame [OF r(3), of "{r, pd}"])
        (use ch r sep in \<open>auto simp: table_frames_def\<close>)
    then have "vm_inv ?s' pd ys"
      using view(4,5) sep r(1,7) by (auto simp: vm_inv_def)
    moreover have "changes (table_frames (mem s) pd \<union> set [r]) (mem s) (mem ?s')"
      by (rule changes_mono [OF ch]) auto
    moreover have "?s' = s\<lparr>mem := mem ?s', freelist := freelist ?s'\<rparr>"
      by (simp add: kalloc_def Let_def)
    ultimately have "grows s ?s' pd xs ys"
      using view(5) r(1) unfolding grows_def by (intro conjI exI [of _ "[r]"]) auto
    moreover have "pte_slot (mem ?s') pd va \<noteq> 0"
      using pte_slot_nonzero [of "mem ?s'"] view(4) tab by auto
    ultimately show ?thesis
      using slot [of ?s' ys] w tab slot_eq view(3) by simp
  qed
qed

section \<open>mappages\<close>

definition map_entry :: "u32 \<Rightarrow> u32 \<Rightarrow> u32" where
  "map_entry pa perm = (if has perm PTE_E then pa OR perm OR PTE_E else pa OR perm OR PTE_P)"

text \<open>The reference: the pages \<open>a\<close>, \<open>a + 4096\<close>, \<dots>, \<open>n\<close> of them, map to \<open>pa\<close>,
  \<open>pa + 4096\<close>, \<dots>; every other page keeps its entry.\<close>

definition map_run :: "u32 \<Rightarrow> u32 \<Rightarrow> u32 \<Rightarrow> nat \<Rightarrow> (u32 \<Rightarrow> u32) \<Rightarrow> u32 \<Rightarrow> u32" where
  "map_run a pa perm n f vb =
    (let d = PGROUNDDOWN vb - a in
     if unat d < 4096 * n then map_entry (pa + d) perm else f vb)"

lemma map_run_0 [simp]: "map_run a pa perm 0 f = f"
  by (auto simp: map_run_def)

lemma aligned_ge_page: "aligned d \<Longrightarrow> d \<noteq> 0 \<Longrightarrow> 4096 \<le> unat d"
  by (metis aligned_dvd dvd_imp_le unat_gt_0)

lemma unat_page_diff:
  assumes "aligned b" and "aligned a" and "b \<noteq> a"
  shows "unat (b - a) = unat (b - (a + 4096)) + 4096"
proof -
  have ge: "4096 \<le> unat (b - a)" using assms by (intro aligned_ge_page) auto
  then have "unat (b - a - 4096) = unat (b - a) - 4096"
    by (simp add: unat_sub_le word_le_nat_alt)
  with ge show ?thesis by (simp add: diff_diff_eq)
qed

lemma unat_pages: "k < 1048576 \<Longrightarrow> unat (4096 * of_nat k :: u32) = 4096 * k"
  by (simp add: unat_mult32 unat_of_nat)

lemma map_run_Suc:
  assumes "aligned a" and "n < 1048576"
  shows "map_run a pa perm (Suc n) f =
    map_run (a + 4096) (pa + 4096) perm n
      (\<lambda>vb. if PGROUNDDOWN vb = a then map_entry pa perm else f vb)"
proof
  fix vb
  let ?d = "PGROUNDDOWN vb - a"
  have al: "aligned ?d" using assms(1) by auto
  show "map_run a pa perm (Suc n) f vb = map_run (a + 4096) (pa + 4096) perm n
      (\<lambda>vb. if PGROUNDDOWN vb = a then map_entry pa perm else f vb) vb"
  proof (cases "?d = 0")
    case True
    have "unat (0 - 4096 :: u32) = 4294963200" by simp
    then have "\<not> unat (PGROUNDDOWN vb - (a + 4096)) < 4096 * n"
      using True assms(2) by (simp add: diff_diff_eq [symmetric])
    then show ?thesis
      using True by (simp add: map_run_def)
  next
    case False
    have ge: "4096 \<le> unat ?d" using aligned_ge_page [OF al False] .
    then have "unat (?d - 4096) = unat ?d - 4096"
      by (simp add: unat_sub_le word_le_nat_alt)
    then have "unat (PGROUNDDOWN vb - (a + 4096)) = unat ?d - 4096"
      by (simp add: diff_diff_eq)
    moreover have "pa + 4096 + (PGROUNDDOWN vb - (a + 4096)) = pa + ?d" by simp
    ultimately show ?thesis
      using False ge by (auto simp: map_run_def Let_def)
  qed
qed

lemma has_P_or_E: "has e (PTE_P OR PTE_E) \<longleftrightarrow> bit e 0 \<or> bit e 10"
  by (simp only: has_or) (simp add: has_P)

lemma store_pte_grows:
  assumes "vm_inv s pd xs" and "has_table (mem s) pd va"
  shows "grows s (s\<lparr>mem := store32 (mem s) (pte_slot (mem s) pd va) v\<rparr>) pd xs xs"
proof -
  have k: "kmem_inv s xs" and wf: "pd_wf (mem s) pd" and sep: "table_frames (mem s) pd \<inter> set xs = {}"
    using assms(1) by (simp_all add: vm_inv_def)
  let ?s' = "s\<lparr>mem := store32 (mem s) (pte_slot (mem s) pd va) v\<rparr>"
  note view = store_pte_view [OF wf assms(2), of v]
  have ch: "changes (table_frames (mem s) pd) (mem s) (mem ?s')"
    using changes_mono [OF store_pte_changes, of "mem s" pd va "table_frames (mem s) pd" v]
      pgtab_in_table_frames [OF assms(2)] by simp
  have "kmem_inv ?s' xs"
    by (rule kmem_inv_frame [OF k ch]) (use sep in auto)
  then show ?thesis
    using view(6,7) sep ch by (auto simp: grows_def vm_inv_def)
qed

text \<open>One iteration on a page that is not mapped.\<close>

lemma mappages_step:
  assumes inv: "vm_inv s pd xs" and a: "aligned a"
    and free: "\<not> has (pte_at (mem s) pd a) (PTE_P OR PTE_E)"
  obtains (mapped) s1 ys where
      "\<And>fuel l. mappages_loop (Suc fuel) pd a l pa perm s =
        (if a = l then Inr (0, s1) else mappages_loop fuel pd (a + 4096) l (pa + 4096) perm s1)"
      "grows s s1 pd xs ys"
      "\<And>vb. pte_at (mem s1) pd vb = (if PGROUNDDOWN vb = a then map_entry pa perm else pte_at (mem s) pd vb)"
    | (full) "\<And>fuel l. mappages_loop (Suc fuel) pd a l pa perm s = Inr (-1, s)" "xs = []"
proof (rule walkpgdir_alloc [OF inv, of a])
  fix s1 ys
  assume w: "walkpgdir pd a True s = (pte_slot (mem s1) pd a, s1)" "has_table (mem s1) pd a"
    "pte_slot (mem s1) pd a \<noteq> 0" "grows s s1 pd xs ys"
    and same: "\<And>vb. pte_at (mem s1) pd vb = pte_at (mem s) pd vb"
  have inv1: "vm_inv s1 pd ys" using w(4) by (rule grows_inv)
  then have wf1: "pd_wf (mem s1) pd" by (simp add: vm_inv_def)
  let ?s2 = "s1\<lparr>mem := store32 (mem s1) (pte_slot (mem s1) pd a) (map_entry pa perm)\<rparr>"
  have "load32 (mem s1) (pte_slot (mem s1) pd a) = pte_at (mem s) pd a"
    using same [of a] w(2) by (simp add: pte_at_def)
  then have "mappages_loop (Suc fuel) pd a l pa perm s =
      (if a = l then Inr (0, ?s2) else mappages_loop fuel pd (a + 4096) l (pa + 4096) perm ?s2)" for fuel l
    using w(1,3) free by (simp add: map_entry_def Let_def)
  moreover have "grows s ?s2 pd xs ys"
    by (rule grows_trans [OF w(4) store_pte_grows [OF inv1 w(2)]])
  moreover have "pte_at (mem ?s2) pd vb =
      (if PGROUNDDOWN vb = a then map_entry pa perm else pte_at (mem s) pd vb)" for vb
    using store_pte_view(1) [OF wf1 w(2)] a by (simp add: same)
  ultimately show ?thesis by (rule mapped)
next
  assume "walkpgdir pd a True s = (0, s)" "xs = []"
  then show ?thesis by (intro full) simp_all
qed

text \<open>Result of the loop for \<open>Suc k\<close> pages none of which is mapped: it maps all of them,
  or runs out of frames after a prefix of them.\<close>

lemma mappages_loop_run:
  assumes "vm_inv s pd xs" and "aligned a" and "k < fuel" and "k < 1048576"
    and "\<And>vb. unat (PGROUNDDOWN vb - a) \<le> 4096 * k \<Longrightarrow> \<not> has (pte_at (mem s) pd vb) (PTE_P OR PTE_E)"
  shows "\<exists>r s' ys j. mappages_loop fuel pd a (a + 4096 * of_nat k) pa perm s = Inr (r, s')
    \<and> grows s s' pd xs ys \<and> pte_at (mem s') pd = map_run a pa perm j (pte_at (mem s) pd)
    \<and> (r = 0 \<and> j = Suc k \<or> r = -1 \<and> j \<le> k \<and> ys = [])"
  using assms
proof (induction k arbitrary: s xs a pa fuel)
  case 0
  obtain fuel' where f: "fuel = Suc fuel'" using 0 by (cases fuel) auto
  have "\<not> has (pte_at (mem s) pd a) (PTE_P OR PTE_E)"
    using 0(5) [of a] 0(2) by simp
  then show ?case
  proof (rule mappages_step [OF 0(1,2), of pa perm])
    fix s1 ys
    assume "\<And>fuel l. mappages_loop (Suc fuel) pd a l pa perm s =
        (if a = l then Inr (0, s1) else mappages_loop fuel pd (a + 4096) l (pa + 4096) perm s1)"
      and "grows s s1 pd xs ys"
      and "\<And>vb. pte_at (mem s1) pd vb = (if PGROUNDDOWN vb = a then map_entry pa perm else pte_at (mem s) pd vb)"
    then show ?thesis
      using f map_run_Suc [OF 0(2), of 0 pa perm]
      by (intro exI [of _ 0] exI [of _ s1] exI [of _ ys] exI [of _ "Suc 0"]) auto
  next
    assume "\<And>fuel l. mappages_loop (Suc fuel) pd a l pa perm s = Inr (-1, s)" "xs = []"
    then show ?thesis
      using f grows_refl [OF 0(1)]
      by (intro exI [of _ "-1"] exI [of _ s] exI [of _ xs] exI [of _ 0]) auto
  qed
next
  case (Suc k)
  obtain fuel' where f: "fuel = Suc fuel'" using Suc.prems(3) by (cases fuel) auto
  have "\<not> has (pte_at (mem s) pd a) (PTE_P OR PTE_E)"
    using Suc.prems(5) [of a] Suc.prems(2) by simp
  then show ?case
  proof (rule mappages_step [OF Suc.prems(1,2), of pa perm])
    fix s1 ys
    assume st: "\<And>fuel l. mappages_loop (Suc fuel) pd a l pa perm s =
        (if a = l then Inr (0, s1) else mappages_loop fuel pd (a + 4096) l (pa + 4096) perm s1)"
      and g: "grows s s1 pd xs ys"
      and v: "\<And>vb. pte_at (mem s1) pd vb = (if PGROUNDDOWN vb = a then map_entry pa perm else pte_at (mem s) pd vb)"
    have free: "\<not> has (pte_at (mem s1) pd vb) (PTE_P OR PTE_E)"
      if "unat (PGROUNDDOWN vb - (a + 4096)) \<le> 4096 * k" for vb
    proof -
      have "PGROUNDDOWN vb \<noteq> a" using that Suc.prems(4) by auto
      then have "unat (PGROUNDDOWN vb - a) = unat (PGROUNDDOWN vb - (a + 4096)) + 4096"
        using Suc.prems(2) by (intro unat_page_diff) auto
      then show ?thesis
        using that Suc.prems(5) [of vb] v [of vb] \<open>PGROUNDDOWN vb \<noteq> a\<close> by simp
    qed
    have ne: "a \<noteq> a + 4096 * of_nat (Suc k)"
      using unat_pages [OF Suc.prems(4)] by auto
    have "\<exists>r s' ys' j. mappages_loop fuel' pd (a + 4096) (a + 4096 + 4096 * of_nat k) (pa + 4096) perm s1 = Inr (r, s')
      \<and> grows s1 s' pd ys ys' \<and> pte_at (mem s') pd = map_run (a + 4096) (pa + 4096) perm j (pte_at (mem s1) pd)
      \<and> (r = 0 \<and> j = Suc k \<or> r = -1 \<and> j \<le> k \<and> ys' = [])"
      using Suc.prems f free grows_inv [OF g] by (intro Suc.IH) auto
    then obtain r s' ys' j where r: "mappages_loop fuel' pd (a + 4096) (a + 4096 + 4096 * of_nat k) (pa + 4096) perm s1 = Inr (r, s')"
      "grows s1 s' pd ys ys'" "pte_at (mem s') pd = map_run (a + 4096) (pa + 4096) perm j (pte_at (mem s1) pd)"
      "r = 0 \<and> j = Suc k \<or> r = -1 \<and> j \<le> k \<and> ys' = []" by blast
    have "pte_at (mem s1) pd = (\<lambda>vb. if PGROUNDDOWN vb = a then map_entry pa perm else pte_at (mem s) pd vb)"
      using v by blast
    then have "pte_at (mem s') pd = map_run a pa perm (Suc j) (pte_at (mem s) pd)"
      using r(3,4) Suc.prems(2,4) by (subst map_run_Suc) auto
    moreover have "mappages_loop fuel pd a (a + 4096 * of_nat (Suc k)) pa perm s = Inr (r, s')"
      using st [of fuel'] ne r(1) f by (simp add: algebra_simps)
    ultimately show ?thesis
      using grows_trans [OF g r(2)] r(4)
      by (intro exI [of _ r] exI [of _ s'] exI [of _ ys'] exI [of _ "Suc j"]) auto
  next
    assume "\<And>fuel l. mappages_loop (Suc fuel) pd a l pa perm s = Inr (-1, s)" "xs = []"
    then show ?thesis
      using f grows_refl [OF Suc.prems(1)]
      by (intro exI [of _ "-1"] exI [of _ s] exI [of _ xs] exI [of _ 0]) auto
  qed
qed

text \<open>The range of pages that \<open>mappages\<close> covers.\<close>

definition in_run :: "u32 \<Rightarrow> u32 \<Rightarrow> u32 \<Rightarrow> bool" where
  "in_run va sz vb \<longleftrightarrow>
     unat (PGROUNDDOWN vb - PGROUNDDOWN va) \<le> unat (PGROUNDDOWN (va + sz - 1) - PGROUNDDOWN va)"

lemma mappages_run:
  assumes inv: "vm_inv s pd xs"
    and free: "\<And>vb. in_run va sz vb \<Longrightarrow> \<not> has (pte_at (mem s) pd vb) (PTE_P OR PTE_E)"
  defines "k \<equiv> unat (PGROUNDDOWN (va + sz - 1) - PGROUNDDOWN va) div 4096"
  shows "\<exists>r s' ys j. mappages pd va sz pa perm s = Inr (r, s')
    \<and> grows s s' pd xs ys \<and> pte_at (mem s') pd = map_run (PGROUNDDOWN va) pa perm j (pte_at (mem s) pd)
    \<and> (r = 0 \<and> j = Suc k \<or> r = -1 \<and> j \<le> k \<and> ys = [])"
proof -
  let ?a = "PGROUNDDOWN va" and ?l = "PGROUNDDOWN (va + sz - 1)"
  have al: "aligned (?l - ?a)" by (intro aligned_diff) simp_all
  then have k: "unat (?l - ?a) = 4096 * k"
    using aligned_dvd unfolding k_def by fastforce
  have lt: "k < 1048576" using unat_lt32 [of "?l - ?a"] k by linarith
  have "4096 * of_nat k = ?l - ?a"
    using unat_pages [OF lt] k by (simp add: word_unat_eq_iff)
  then have l: "?a + 4096 * of_nat k = ?l" by simp
  show ?thesis
    unfolding mappages_def l [symmetric]
    by (rule mappages_loop_run [OF inv])
      (use lt free k in \<open>auto simp: page_fuel_def in_run_def\<close>)
qed

text \<open>Whatever the arguments, an existing mapping survives: the loop panics rather than
  overwrite it.\<close>

lemma mappages_loop_keeps:
  assumes "vm_inv s pd xs" and "aligned a" and "mappages_loop fuel pd a l pa perm s = Inr (r, s')"
  shows "\<exists>ys. grows s s' pd xs ys \<and> (\<forall>vb. has (pte_at (mem s) pd vb) (PTE_P OR PTE_E) \<longrightarrow>
    pte_at (mem s') pd vb = pte_at (mem s) pd vb)"
  using assms
proof (induction fuel arbitrary: s xs a pa)
  case (Suc fuel)
  show ?case
  proof (cases "has (pte_at (mem s) pd a) (PTE_P OR PTE_E)")
    case True
    then have "has_table (mem s) pd a" by (auto simp: pte_at_def has_def split: if_splits)
    with True Suc.prems(3) show ?thesis
      using walkpgdir_present [of s pd a True] grows_refl [OF Suc.prems(1)]
      by (auto simp: pte_at_def split: if_splits)
  next
    case False
    then show ?thesis
    proof (rule mappages_step [OF Suc.prems(1,2), of pa perm])
      fix s1 ys
      assume st: "\<And>fuel l. mappages_loop (Suc fuel) pd a l pa perm s =
          (if a = l then Inr (0, s1) else mappages_loop fuel pd (a + 4096) l (pa + 4096) perm s1)"
        and g: "grows s s1 pd xs ys"
        and v: "\<And>vb. pte_at (mem s1) pd vb = (if PGROUNDDOWN vb = a then map_entry pa perm else pte_at (mem s) pd vb)"
      have keep: "has (pte_at (mem s) pd vb) (PTE_P OR PTE_E) \<Longrightarrow> PGROUNDDOWN vb \<noteq> a" for vb
        using False view_PGROUNDDOWN(5) [of "mem s" pd vb] by auto
      show ?thesis
      proof (cases "a = l")
        case True
        with st [of fuel l] Suc.prems(3) g v keep show ?thesis by auto
      next
        case ne: False
        then have "mappages_loop fuel pd (a + 4096) l (pa + 4096) perm s1 = Inr (r, s')"
          using st [of fuel l] Suc.prems(3) by simp
        moreover have "aligned (a + 4096)" using Suc.prems(2) by auto
        ultimately obtain zs where
          "grows s1 s' pd ys zs" "\<forall>vb. has (pte_at (mem s1) pd vb) (PTE_P OR PTE_E) \<longrightarrow>
             pte_at (mem s') pd vb = pte_at (mem s1) pd vb"
          using Suc.IH [OF grows_inv [OF g]] by blast
        then show ?thesis
          using grows_trans [OF g] v keep by (intro exI [of _ zs]) auto
      qed
    next
      assume "\<And>fuel l. mappages_loop (Suc fuel) pd a l pa perm s = Inr (-1, s)"
      with Suc.prems(1,3) show ?thesis by (auto intro: grows_refl)
    qed
  qed
qed simp

section \<open>A one-page address space\<close>

text \<open>The smallest example: one table, and the entry \<open>e\<close> for page 0. It serves as the
  concrete input of the examples.\<close>

definition one_page :: "u32 \<Rightarrow> memory" where
  "one_page e = (let m = install (\<lambda>_. 0) 0x80300000 0 0x80400000 in store32 m (pte_slot m 0x80300000 0) e)"

lemma zero_mem_view: "pde_at (\<lambda>_. 0) pd va = 0" "\<not> has_table (\<lambda>_. 0) pd va" "pte_at (\<lambda>_. 0) pd va = 0"
  "table_frames (\<lambda>_. 0) pd = {pd}" "aligned pd \<Longrightarrow> pd_wf (\<lambda>_. 0) pd"
proof -
  show "pde_at (\<lambda>_. 0) pd va = 0" for va by (simp add: pde_at_def load32_def)
  then show no: "\<not> has_table (\<lambda>_. 0) pd va" for va by (simp add: has_table_def has_def)
  from no show "pte_at (\<lambda>_. 0) pd va = 0" "table_frames (\<lambda>_. 0) pd = {pd}"
    "aligned pd \<Longrightarrow> pd_wf (\<lambda>_. 0) pd"
    by (simp_all add: pte_at_def table_frames_def pd_wf_def)
qed

lemma one_page_view:
  "has_table (one_page e) 0x80300000 va \<longleftrightarrow> PDX va = 0"
  "pte_at (one_page e) 0x80300000 va = (if PGROUNDDOWN va = 0 then e else 0)"
  "pd_wf (one_page e) 0x80300000"
  "table_frames (one_page e) 0x80300000 = {0x80300000, 0x80400000}"
  "pgtab_at (one_page e) 0x80300000 0 = 0x80400000"
proof -
  let ?m = "install (\<lambda>_. 0) 0x80300000 0 0x80400000"
  have a: "aligned 0x80300000" "aligned 0x80400000" by (simp_all add: aligned_def)
  have z: "PDX 0 = 0" "PGROUNDDOWN 0 = 0" by (simp_all add: PDX_def PGROUNDDOWN_def)
  note iv = install_view [OF zero_mem_view(5) [OF a(1)] zero_mem_view(2) a(2), of 0, unfolded zero_mem_view(4)]
  have wf: "pd_wf ?m 0x80300000" and t: "has_table ?m 0x80300000 0"
    using iv(4) iv(1) [of 0] by (simp_all add: z)
  note sv = store_pte_view [OF wf t, of e]
  have eq: "one_page e = store32 ?m (pte_slot ?m 0x80300000 0) e"
    by (simp add: one_page_def Let_def)
  show "has_table (one_page e) 0x80300000 va \<longleftrightarrow> PDX va = 0"
    unfolding eq sv using iv(1) [of va] zero_mem_view(2) by (simp add: z)
  show "pte_at (one_page e) 0x80300000 va = (if PGROUNDDOWN va = 0 then e else 0)"
    unfolding eq sv using iv(3) [of va] by (simp add: z zero_mem_view(3))
  show "pd_wf (one_page e) 0x80300000" unfolding eq by (rule sv)
  show "table_frames (one_page e) 0x80300000 = {0x80300000, 0x80400000}"
    unfolding eq sv using iv(5) by auto
  show "pgtab_at (one_page e) 0x80300000 0 = 0x80400000"
    unfolding eq sv using iv(2) [of 0] by (simp add: z)
qed

lemma one_page_inv:
  "freelist s = 0 \<Longrightarrow> mem s = one_page e \<Longrightarrow> vm_inv s 0x80300000 []"
  by (simp add: vm_inv_def kmem_inv_def one_page_view)

section \<open>Properties\<close>

text \<open>C37. \<open>mappages\<close> on a range of pages none of which is present or encrypted never panics and
  never runs past the range. If it returns 0, exactly the pages of the range are mapped, each to its
  physical page with the permissions asked for and the present bit (or the encrypted bit,
  when the permissions have it), and every other entry is unchanged; if it returns -1,
  a prefix of the range is mapped and the allocator is empty.\<close>

theorem mappages_maps:
  assumes "vm_inv s pd xs"
    and "\<And>vb. in_run va sz vb \<Longrightarrow> \<not> has (pte_at (mem s) pd vb) (PTE_P OR PTE_E)"
  shows "\<exists>r s' ys j. mappages pd va sz pa perm s = Inr (r, s') \<and> vm_inv s' pd ys
    \<and> pte_at (mem s') pd = map_run (PGROUNDDOWN va) pa perm j (pte_at (mem s) pd)
    \<and> (r = 0 \<and> j = Suc (unat (PGROUNDDOWN (va + sz - 1) - PGROUNDDOWN va) div 4096)
       \<or> r = -1 \<and> j \<le> unat (PGROUNDDOWN (va + sz - 1) - PGROUNDDOWN va) div 4096 \<and> ys = [])"
proof -
  obtain r s' ys j where m: "mappages pd va sz pa perm s = Inr (r, s')" and g: "grows s s' pd xs ys"
    and v: "pte_at (mem s') pd = map_run (PGROUNDDOWN va) pa perm j (pte_at (mem s) pd)"
    and r: "r = 0 \<and> j = Suc (unat (PGROUNDDOWN (va + sz - 1) - PGROUNDDOWN va) div 4096)
       \<or> r = -1 \<and> j \<le> unat (PGROUNDDOWN (va + sz - 1) - PGROUNDDOWN va) div 4096 \<and> ys = []"
    using mappages_run [of s pd xs va sz pa perm] assms by blast
  show ?thesis
    by (intro exI conjI) (rule m grows_inv [OF g] v r)+
qed

text \<open>A state with an empty page directory and two free frames.\<close>

lemma two_frames:
  obtains s :: phys where "vm_inv s 0x80300000 [0x80202000, 0x80201000]"
    "\<And>va. pte_at (mem s) 0x80300000 va = 0" "kend s = 0x80119f48" "\<And>va. \<not> has_table (mem s) 0x80300000 va"
proof -
  let ?xs = "[0x80202000, 0x80201000] :: u32 list"
  obtain s :: phys where s: "kmem_inv s ?xs" "changes (set ?xs) (mem phys0) (mem s)" "kend s = 0x80119f48"
  proof -
    obtain s1 where s1: "kfree 0x80201000 phys0 = Inr s1" "kmem_inv s1 [0x80201000]"
      by (rule kfree_inv [OF phys0_inv, of "0x80201000"]) (auto simp: phys0_valid aligned_def V2P_def)
    have e1: "kend s1 = 0x80119f48" using kfree_Inr [OF s1(1)] by (simp add: phys0_def)
    obtain s2 where s2: "kfree 0x80202000 s1 = Inr s2" "kmem_inv s2 ?xs"
      by (rule kfree_inv [OF s1(2), of "0x80202000"]) (auto simp: e1 valid_frame_def aligned_def V2P_def)
    have e2: "kend s2 = 0x80119f48" using kfree_Inr [OF s2(1)] e1 by simp
    have "changes ({0x80201000} \<union> {0x80202000}) (mem phys0) (mem s2)"
      by (rule changes_trans [OF kfree_changes [OF s1(1)] kfree_changes [OF s2(1)]])
    then have "changes (set ?xs) (mem phys0) (mem s2)" by (rule changes_mono) auto
    with s2(2) e2 that show ?thesis by blast
  qed
  have al: "aligned 0x80300000" by (simp add: aligned_def)
  have "pde_at (mem phys0) 0x80300000 va = 0" for va
    by (simp add: pde_at_def phys0_def load32_def)
  then have no: "\<not> has_table (mem s) 0x80300000 va" for va
    using table_frame(2) [OF s(2) al] by (simp add: has_table_def has_def)
  then have "table_frames (mem s) 0x80300000 = {0x80300000}" by (simp add: table_frames_def)
  moreover have "pd_wf (mem s) 0x80300000" using no al by (simp add: pd_wf_def)
  ultimately have "vm_inv s 0x80300000 ?xs" using s(1) by (simp add: vm_inv_def)
  moreover have "pte_at (mem s) 0x80300000 va = 0" for va using no by (simp add: pte_at_def)
  ultimately show ?thesis using that s(3) no by blast
qed

theorem mappages_maps_witness:
  "\<exists>(s :: phys) r s' ys j. vm_inv s 0x80300000 [0x80202000, 0x80201000]
    \<and> mappages 0x80300000 0x1234 0x2000 0x500000 (PTE_W OR PTE_U) s = Inr (r, s') \<and> vm_inv s' 0x80300000 ys
    \<and> (r = 0 \<and> pte_at (mem s') 0x80300000 0x2000 = 0x501007 \<or> r = -1 \<and> ys = [])"
proof -
  obtain s :: phys where s: "vm_inv s 0x80300000 [0x80202000, 0x80201000]"
    "\<And>va. pte_at (mem s) 0x80300000 va = 0" using two_frames by metis
  have free: "\<not> has (pte_at (mem s) 0x80300000 vb) (PTE_P OR PTE_E)" for vb
    by (simp add: s(2) has_def)
  have r: "PGROUNDDOWN 0x1234 = (0x1000 :: u32)" "PGROUNDDOWN (0x1234 + 0x2000 - 1) = (0x3000 :: u32)"
    "PGROUNDDOWN 0x2000 = (0x2000 :: u32)"
    by (simp_all add: PGROUNDDOWN_def)
  obtain r s' ys j where m: "mappages 0x80300000 0x1234 0x2000 0x500000 (PTE_W OR PTE_U) s = Inr (r, s')"
      "vm_inv s' 0x80300000 ys"
    and v: "pte_at (mem s') 0x80300000 = map_run 0x1000 0x500000 (PTE_W OR PTE_U) j (pte_at (mem s) 0x80300000)"
    and j: "r = 0 \<and> j = 3 \<or> r = -1 \<and> ys = []"
    using mappages_maps [OF s(1), of "0x1234" "0x2000" "0x500000" "PTE_W OR PTE_U", OF free, unfolded r]
    by auto
  have "r = 0 \<Longrightarrow> pte_at (mem s') 0x80300000 0x2000 = 0x501007"
    using v j by (simp add: r map_run_def map_entry_def)
  with m j s(1) show ?thesis by blast
qed

text \<open>C38. Whatever its arguments, when \<open>mappages\<close> returns at all it has not touched any
  existing mapping: an entry that was present or encrypted before keeps its value (a
  request to map over it is a panic instead).\<close>

theorem mappages_keeps_mappings:
  assumes "vm_inv s pd xs" and "mappages pd va sz pa perm s = Inr (r, s')"
    and "has (pte_at (mem s) pd vb) (PTE_P OR PTE_E)"
  shows "pte_at (mem s') pd vb = pte_at (mem s) pd vb"
  using mappages_loop_keeps [OF assms(1) aligned_PGROUNDDOWN assms(2) [unfolded mappages_def]] assms(3)
  by blast

theorem mappages_keeps_mappings_witness:
  "\<exists>r s'. mappages 0x80300000 0x1000 0x1000 0x600000 PTE_W (phys0\<lparr>mem := one_page 0x500007\<rparr>) = Inr (r, s')
    \<and> pte_at (mem s') 0x80300000 0x123 = 0x500007"
proof -
  let ?s = "phys0\<lparr>mem := one_page 0x500007\<rparr>"
  have inv: "vm_inv ?s 0x80300000 []" by (rule one_page_inv) (simp_all add: phys0_def)
  have z: "PGROUNDDOWN 0x123 = (0 :: u32)" by (simp add: PGROUNDDOWN_def)
  have "in_run 0x1000 0x1000 vb \<Longrightarrow> PGROUNDDOWN vb \<noteq> 0" for vb
    by (auto simp: in_run_def PGROUNDDOWN_def [of "0x1000"] PGROUNDDOWN_def [of "0x1FFF"])
  then have "\<exists>r s'. mappages 0x80300000 0x1000 0x1000 0x600000 PTE_W ?s = Inr (r, s')"
    using mappages_run [OF inv, of "0x1000" "0x1000" "0x600000" PTE_W]
    by (fastforce simp: one_page_view(2) has_def)
  then obtain r s' where m: "mappages 0x80300000 0x1000 0x1000 0x600000 PTE_W ?s = Inr (r, s')" by blast
  then show ?thesis
    using mappages_keeps_mappings [OF inv m, of "0x123"] by (simp add: one_page_view(2) z has_def)
qed

end
