(* ===== verification/Uvm.thy ===== *)
theory Uvm
  imports Vm_Tables
begin

text \<open>
  User address spaces over the page-table view: what \<open>deallocuvm\<close>, \<open>allocuvm\<close>,
  \<open>freevm\<close>, \<open>copyuvm\<close> and \<open>copyout\<close> of \<^verbatim>\<open>src/src/vm.c\<close> do to the entries of a page table, to
  the frames they name and to the list of free frames.
\<close>

section \<open>Well-formed address spaces\<close>

definition mapped :: "memory \<Rightarrow> u32 \<Rightarrow> u32 \<Rightarrow> bool" where
  "mapped m pd va \<longleftrightarrow> has (pte_at m pd va) (PTE_P OR PTE_E)"

definition uframe :: "memory \<Rightarrow> u32 \<Rightarrow> u32 \<Rightarrow> u32" where
  "uframe m pd va = P2V (PTE_ADDR (pte_at m pd va))"

text \<open>The frames of the user pages (present or encrypted) are frames of the allocator
  that are not free, not part of the page table, and not shared between pages.\<close>

definition user_wf :: "'a phys_scheme \<Rightarrow> u32 \<Rightarrow> u32 list \<Rightarrow> bool" where
  "user_wf s pd xs \<longleftrightarrow> vm_inv s pd xs \<and> KERNBASE < kend s \<and>
     (\<forall>f\<in>table_frames (mem s) pd. valid_frame s f) \<and>
     (\<forall>va<KERNBASE. mapped (mem s) pd va \<longrightarrow> valid_frame s (uframe (mem s) pd va) \<and>
        uframe (mem s) pd va \<notin> table_frames (mem s) pd \<union> set xs) \<and>
     (\<forall>va<KERNBASE. \<forall>vb<KERNBASE. mapped (mem s) pd va \<longrightarrow> mapped (mem s) pd vb \<longrightarrow>
        uframe (mem s) pd va = uframe (mem s) pd vb \<longrightarrow> PGROUNDDOWN va = PGROUNDDOWN vb)"

lemma user_wf_vm: "user_wf s pd xs \<Longrightarrow> vm_inv s pd xs"
  and user_wf_pool: "user_wf s pd xs \<Longrightarrow> kmem_inv s xs"
  and user_wf_pd: "user_wf s pd xs \<Longrightarrow> pd_wf (mem s) pd"
  and user_wf_sep: "user_wf s pd xs \<Longrightarrow> table_frames (mem s) pd \<inter> set xs = {}"
  and user_wf_kend: "user_wf s pd xs \<Longrightarrow> KERNBASE < kend s"
  and user_wf_tables: "user_wf s pd xs \<Longrightarrow> f \<in> table_frames (mem s) pd \<Longrightarrow> valid_frame s f"
  unfolding user_wf_def vm_inv_def by blast+

lemma user_wf_frame:
  assumes "user_wf s pd xs" and "va < KERNBASE" and "mapped (mem s) pd va"
  shows "valid_frame s (uframe (mem s) pd va)"
    and "uframe (mem s) pd va \<notin> table_frames (mem s) pd" and "uframe (mem s) pd va \<notin> set xs"
  using assms unfolding user_wf_def by blast+

lemma user_wf_inj:
  assumes "user_wf s pd xs" and "va < KERNBASE" and "vb < KERNBASE"
    and "mapped (mem s) pd va" and "mapped (mem s) pd vb"
    and "uframe (mem s) pd va = uframe (mem s) pd vb"
  shows "PGROUNDDOWN va = PGROUNDDOWN vb"
  using assms unfolding user_wf_def by blast

lemma user_wfI:
  assumes "vm_inv s pd xs" and "KERNBASE < kend s"
    and "\<And>f. f \<in> table_frames (mem s) pd \<Longrightarrow> valid_frame s f"
    and "\<And>va. va < KERNBASE \<Longrightarrow> mapped (mem s) pd va \<Longrightarrow> valid_frame s (uframe (mem s) pd va) \<and>
        uframe (mem s) pd va \<notin> table_frames (mem s) pd \<union> set xs"
    and "\<And>va vb. va < KERNBASE \<Longrightarrow> vb < KERNBASE \<Longrightarrow> mapped (mem s) pd va \<Longrightarrow> mapped (mem s) pd vb \<Longrightarrow>
        uframe (mem s) pd va = uframe (mem s) pd vb \<Longrightarrow> PGROUNDDOWN va = PGROUNDDOWN vb"
  shows "user_wf s pd xs"
  using assms unfolding user_wf_def by blast

lemma mapped_table: "mapped m pd va \<Longrightarrow> has_table m pd va"
  by (auto simp: mapped_def pte_at_def has_def split: if_splits)

lemma mapped_cong: "pte_at m' pd va = pte_at m pd va \<Longrightarrow> mapped m' pd va = mapped m pd va"
  and uframe_cong: "pte_at m' pd va = pte_at m pd va \<Longrightarrow> uframe m' pd va = uframe m pd va"
  by (simp_all add: mapped_def uframe_def)

lemma mapped_PGROUNDDOWN [simp]: "mapped m pd (PGROUNDDOWN va) = mapped m pd va"
  and uframe_PGROUNDDOWN [simp]: "uframe m pd (PGROUNDDOWN va) = uframe m pd va"
  by (simp_all add: mapped_def uframe_def)

lemma PGROUNDDOWN_le: "PGROUNDDOWN a \<le> a"
  by (simp add: word_le_nat_alt unat_PGROUNDDOWN)

lemma below_page: "aligned k \<Longrightarrow> PGROUNDDOWN va < k \<longleftrightarrow> va < k"
proof -
  assume "aligned k"
  then obtain q where q: "unat k = 4096 * q" by (auto simp: aligned_dvd)
  have "unat (PGROUNDDOWN va) = 4096 * (unat va div 4096)"
    by (simp add: unat_PGROUNDDOWN minus_mod_eq_mult_div)
  moreover have "unat va < 4096 * q \<longleftrightarrow> unat va div 4096 < q"
    by (simp add: div_less_iff_less_mult mult.commute)
  ultimately show ?thesis
    using q by (simp add: word_less_nat_alt)
qed

lemma same_page_below:
  "aligned k \<Longrightarrow> PGROUNDDOWN va = PGROUNDDOWN vb \<Longrightarrow> va < k \<longleftrightarrow> vb < k"
  using below_page [of k va] below_page [of k vb] by simp

lemma not_mapped_0: "pte_at m pd va = 0 \<Longrightarrow> \<not> mapped m pd va"
  by (simp add: mapped_def has_def)

section \<open>Unmapping\<close>

text \<open>\<open>shrinks s s' pd zs xs\<close>: the frames \<open>zs\<close> went back to the free list \<open>xs\<close>; the
  table kept its frames.\<close>

definition shrinks ::
    "'a phys_scheme \<Rightarrow> 'a phys_scheme \<Rightarrow> u32 \<Rightarrow> u32 list \<Rightarrow> u32 list \<Rightarrow> bool" where
  "shrinks s s' pd zs xs \<longleftrightarrow>
     s' = s\<lparr>mem := mem s', freelist := freelist s'\<rparr> \<and> user_wf s' pd (zs @ xs) \<and>
     table_frames (mem s') pd = table_frames (mem s) pd \<and>
     (\<forall>va. has_table (mem s') pd va = has_table (mem s) pd va) \<and>
     changes (table_frames (mem s) pd \<union> set zs) (mem s) (mem s')"

lemma shrinks_refl: "user_wf s pd xs \<Longrightarrow> shrinks s s pd [] xs"
  by (simp add: shrinks_def)

lemma phys_update_trans:
  "s1 = s\<lparr>mem := mem s1, freelist := freelist s1\<rparr> \<Longrightarrow> s2 = s1\<lparr>mem := mem s2, freelist := freelist s2\<rparr> \<Longrightarrow>
   s2 = s\<lparr>mem := mem s2, freelist := freelist (s2 :: 'a phys_scheme)\<rparr>"
  by (metis (no_types, lifting) phys.surjective phys.update_convs(1,2))

lemma shrinks_trans:
  assumes "shrinks s s1 pd zs xs" and "shrinks s1 s2 pd us (zs @ xs)"
  shows "shrinks s s2 pd (us @ zs) xs"
  unfolding shrinks_def
proof (intro conjI)
  show "s2 = s\<lparr>mem := mem s2, freelist := freelist s2\<rparr>"
    using assms unfolding shrinks_def by (blast intro: phys_update_trans [of s1])
  have "changes (table_frames (mem s) pd \<union> set zs \<union> (table_frames (mem s1) pd \<union> set us)) (mem s) (mem s2)"
    using assms unfolding shrinks_def by (blast intro: changes_trans)
  moreover have "table_frames (mem s1) pd = table_frames (mem s) pd"
    using assms(1) unfolding shrinks_def by blast
  ultimately show "changes (table_frames (mem s) pd \<union> set (us @ zs)) (mem s) (mem s2)"
    by (elim changes_mono) auto
  show "user_wf s2 pd ((us @ zs) @ xs)"
    using assms(2) unfolding shrinks_def append_assoc by blast
  show "table_frames (mem s2) pd = table_frames (mem s) pd"
    "\<forall>va. has_table (mem s2) pd va = has_table (mem s) pd va"
    using assms unfolding shrinks_def by metis+
qed

lemma unmap_step:
  assumes wf: "user_wf s pd xs" and a: "a < KERNBASE" and map: "mapped (mem s) pd a"
  obtains s1 where "PTE_ADDR (pte_at (mem s) pd a) \<noteq> 0"
    "kfree (uframe (mem s) pd a) s = Inr s1"
    "shrinks s (s1\<lparr>mem := store32 (mem s1) (pte_slot (mem s) pd a) 0\<rparr>) pd [uframe (mem s) pd a] xs"
    "\<And>vb. pte_at (store32 (mem s1) (pte_slot (mem s) pd a) 0) pd vb =
       (if PGROUNDDOWN vb = PGROUNDDOWN a then 0 else pte_at (mem s) pd vb)"
proof -
  let ?f = "uframe (mem s) pd a"
  note fr = user_wf_frame [OF wf a map]
  obtain s1 where s1: "kfree ?f s = Inr s1" "kmem_inv s1 (?f # xs)"
    by (rule kfree_inv [OF user_wf_pool [OF wf] fr(1) fr(3)])
  have nz: "PTE_ADDR (pte_at (mem s) pd a) \<noteq> 0"
    using fr(1) user_wf_kend [OF wf] by (auto simp: valid_frame_def uframe_def P2V_def)
  have upd: "s1 = s\<lparr>mem := mem s1, freelist := freelist s1\<rparr>"
    using kfree_Inr [OF s1(1)] by simp
  have ch: "changes {?f} (mem s) (mem s1)" by (rule kfree_changes [OF s1(1)])
  have pdn: "pd \<notin> {?f}" using fr(2) by auto
  have al: "aligned pd" by (rule pd_wf_aligned [OF user_wf_pd [OF wf]])
  note tf = table_frame [OF ch al pdn]
  have wf1: "pd_wf (mem s1) pd" by (rule pd_wf_frame [OF ch user_wf_pd [OF wf] pdn])
  have tab1: "has_table (mem s1) pd a" using mapped_table [OF map] tf(2) by simp
  have pte1: "pte_at (mem s1) pd vb = pte_at (mem s) pd vb" for vb
    by (rule pte_at_frame [OF ch user_wf_pd [OF wf]]) (use fr(2) in auto)
  have tfs: "table_frames (mem s1) pd = table_frames (mem s) pd"
    by (rule table_frames_frame [OF ch al pdn])
  let ?m2 = "store32 (mem s1) (pte_slot (mem s) pd a) 0"
  let ?s2 = "s1\<lparr>mem := ?m2\<rparr>"
  have vm1: "vm_inv s1 pd (?f # xs)"
    using s1(2) wf1 fr(2) user_wf_sep [OF wf] by (auto simp: vm_inv_def tfs)
  note view = store_pte_view [OF wf1 tab1, of 0, unfolded tf(3)]
  have g: "grows s1 ?s2 pd (?f # xs) (?f # xs)"
    using store_pte_grows [OF vm1 tab1, of 0] by (simp add: tf(3))
  have pte2: "pte_at ?m2 pd vb = (if PGROUNDDOWN vb = PGROUNDDOWN a then 0 else pte_at (mem s) pd vb)" for vb
    by (simp add: view(1) pte1)
  have val: "valid_frame ?s2 f = valid_frame s f" for f
    by (subst upd) (simp add: valid_frame_def)
  have m2: "mapped ?m2 pd vb \<Longrightarrow> mapped (mem s) pd vb \<and> PGROUNDDOWN vb \<noteq> PGROUNDDOWN a \<and>
      uframe ?m2 pd vb = uframe (mem s) pd vb" for vb
    using not_mapped_0 [of ?m2 pd vb] by (auto simp: mapped_def uframe_def pte2 split: if_splits)
  have "user_wf ?s2 pd (?f # xs)"
  proof (rule user_wfI)
    show "vm_inv ?s2 pd (?f # xs)" using g by (rule grows_inv)
    show "KERNBASE < kend ?s2" using user_wf_kend [OF wf] by (subst upd) simp
    fix f assume "f \<in> table_frames (mem ?s2) pd"
    then show "valid_frame ?s2 f" using user_wf_tables [OF wf] by (simp add: view(7) tfs val)
  next
    fix va assume va: "va < KERNBASE" and "mapped (mem ?s2) pd va"
    then have m: "mapped (mem s) pd va" "PGROUNDDOWN va \<noteq> PGROUNDDOWN a"
      "uframe ?m2 pd va = uframe (mem s) pd va"
      using m2 by auto
    then have "uframe (mem s) pd va \<noteq> ?f"
      using user_wf_inj [OF wf va a _ map] by blast
    then show "valid_frame ?s2 (uframe (mem ?s2) pd va) \<and>
        uframe (mem ?s2) pd va \<notin> table_frames (mem ?s2) pd \<union> set (?f # xs)"
      using user_wf_frame [OF wf va m(1)] m(3) by (simp add: view(7) tfs val)
  next
    fix va vb assume "va < KERNBASE" "vb < KERNBASE" "mapped (mem ?s2) pd va" "mapped (mem ?s2) pd vb"
      "uframe (mem ?s2) pd va = uframe (mem ?s2) pd vb"
    then show "PGROUNDDOWN va = PGROUNDDOWN vb"
      using m2 [of va] m2 [of vb] by (intro user_wf_inj [OF wf]) simp_all
  qed
  moreover have "?s2 = s\<lparr>mem := mem ?s2, freelist := freelist ?s2\<rparr>"
    using kfree_Inr [OF s1(1)] by simp
  moreover have "changes (table_frames (mem s) pd \<union> {?f}) (mem s) (mem ?s2)"
  proof (rule changes_mono)
    show "changes ({?f} \<union> {pgtab_at (mem s1) pd a}) (mem s) (mem ?s2)"
      using changes_trans [OF ch store_pte_changes [of "mem s1" pd a 0]] by (simp add: tf(3))
  qed (use tab1 tfs pgtab_in_table_frames in blast)
  ultimately have "shrinks s ?s2 pd [?f] xs"
    by (simp add: shrinks_def view(3,7) tfs tf(2))
  then show ?thesis
    by (rule that [OF nz s1(1) _ pte2])
qed

end
