(* ===== verification/Proc.thy ===== *)
theory Proc
  imports Uvm
begin

text \<open>
  The process table of \<^verbatim>\<open>src/src/proc.h\<close> and \<^verbatim>\<open>src/src/proc.c\<close>: \<open>struct proc\<close> as a record, the table as a
  list of \<open>NPROC\<close> of them, a pointer to a process as its index. Code between
  \<open>acquire(&ptable.lock)\<close> and \<open>release(&ptable.lock)\<close> is one step. A channel of \<open>sleep\<close> is the
  address of a kernel object; here it is the object.

  \<open>struct node\<close> is its \<open>pageAddr\<close>: no code reads its other two fields except to copy
  them, and \<open>mdecrypt\<close> stores them uninitialised.
\<close>

section \<open>State\<close>

datatype procstate = UNUSED | EMBRYO | SLEEPING | RUNNABLE | RUNNING | ZOMBIE

datatype chan =
    ChanProc nat
  | ChanTicks
  | ChanPipeRead u32
  | ChanPipeWrite u32
  | ChanSleeplock nat
  | ChanLog
  | ChanBuf nat
  | ChanInput

record proc =
  sz :: u32
  pgdir :: u32
  kstack :: u32
  pstate :: procstate
  pid :: int
  parent :: "nat option"
  tf :: u32
  pcontext :: u32
  pchan :: "chan option"
  killed :: bool
  ofile :: "nat option list"
  cwd :: "nat option"
  pname :: "u8 list"
  nodes :: "u32 list"
  inClock :: int
  currInd :: int

text \<open>The kernel state around it: the running process of the executing processor, its
  task state and segment table, and addresses of code that the linker provides.\<close>

record kst = phys +
  ptable :: "proc list"
  cpu_proc :: "nat option"
  nextpid :: int
  initproc :: "nat option"
  ticks :: u32
  gdt :: "segdesc list"
  ts_ss0 :: u16
  ts_esp0 :: u32
  ts_iomb :: u16
  cpu_ts :: u32
  kpgdir :: u32
  ktrapret :: u32
  kforkret :: u32

definition proc_at :: "nat \<Rightarrow> 'a kst_scheme \<Rightarrow> proc" where
  "proc_at i s = ptable s ! i"

definition upd_proc :: "nat \<Rightarrow> (proc \<Rightarrow> proc) \<Rightarrow> 'a kst_scheme \<Rightarrow> 'a kst_scheme" where
  "upd_proc i f s = s\<lparr>ptable := (ptable s)[i := f (ptable s ! i)]\<rparr>"

text \<open>\<open>myproc()\<close> followed by a dereference of its result.\<close>

definition myproc :: "'a kst_scheme \<Rightarrow> err + nat" where
  "myproc s = (case cpu_proc s of None \<Rightarrow> Inl NullDeref | Some i \<Rightarrow> Inr i)"

section \<open>Address space switches\<close>

definition seginit :: "'a kst_scheme \<Rightarrow> 'a kst_scheme" where
  "seginit s = s\<lparr>gdt := (gdt s)
     [unat SEG_KCODE := SEG (0x8 OR 0x2) 0 0xffffffff 0,
      unat SEG_KDATA := SEG 0x2 0 0xffffffff 0,
      unat SEG_UCODE := SEG (0x8 OR 0x2) 0 0xffffffff DPL_USER,
      unat SEG_UDATA := SEG 0x2 0 0xffffffff DPL_USER]\<rparr>"

definition switchkvm :: "'a kst_scheme \<Rightarrow> 'a kst_scheme" where
  "switchkvm s = s\<lparr>cr3 := V2P (kpgdir s)\<rparr>"

definition kvmalloc :: "'a kst_scheme \<Rightarrow> err + 'a kst_scheme" where
  "kvmalloc s = bindE (setupkvm s) (\<lambda>(d, s). Inr (switchkvm (s\<lparr>kpgdir := d\<rparr>)))"

definition switchuvm :: "nat option \<Rightarrow> 'a kst_scheme \<Rightarrow> err + 'a kst_scheme" where
  "switchuvm po s =
    (case po of
       None \<Rightarrow> Inl (Panic ''switchuvm: no process'')
     | Some p \<Rightarrow>
         if kstack (proc_at p s) = 0 then Inl (Panic ''switchuvm: no kstack'')
         else if pgdir (proc_at p s) = 0 then Inl (Panic ''switchuvm: no pgdir'')
         else Inr (s\<lparr>gdt := (gdt s)[unat SEG_TSS := (SEG16 0x9 (cpu_ts s) (104 - 1) 0)\<lparr>seg_s := 0\<rparr>],
                     ts_ss0 := ucast (push_bit 3 SEG_KDATA),
                     ts_esp0 := kstack (proc_at p s) + KSTACKSIZE,
                     ts_iomb := 0xFFFF,
                     cr3 := V2P (pgdir (proc_at p s))\<rparr>))"

section \<open>Process table operations\<close>

text \<open>The first index from \<open>i\<close> on whose process satisfies \<open>P\<close>: the scan
  \<open>for(p = ptable.proc; p < &ptable.proc[NPROC]; p++)\<close> with an exit.\<close>

fun scan :: "(proc \<Rightarrow> bool) \<Rightarrow> nat \<Rightarrow> proc list \<Rightarrow> nat option" where
  "scan P i [] = None"
| "scan P i (p # ps) = (if P p then Some i else scan P (Suc i) ps)"

definition allocproc :: "'a kst_scheme \<Rightarrow> err + (nat option \<times> 'a kst_scheme)" where
  "allocproc s =
    (case scan (\<lambda>p. pstate p = UNUSED) 0 (ptable s) of
       None \<Rightarrow> Inr (None, s)
     | Some i \<Rightarrow>
         let s = upd_proc i (\<lambda>p. p\<lparr>pstate := EMBRYO, pid := nextpid s, inClock := 0\<rparr>) s;
             s = s\<lparr>nextpid := nextpid s + 1\<rparr>;
             (k, s) = kalloc s;
             s = upd_proc i (\<lambda>p. p\<lparr>kstack := k\<rparr>) s
         in if k = 0 then Inr (None, upd_proc i (\<lambda>p. p\<lparr>pstate := UNUSED\<rparr>) s)
            else
              let sp = k + KSTACKSIZE - 76;
                  s = upd_proc i (\<lambda>p. p\<lparr>tf := sp\<rparr>) s;
                  s = s\<lparr>mem := store32 (mem s) (sp - 4) (ktrapret s)\<rparr>;
                  sp = sp - 4 - 20;
                  s = upd_proc i (\<lambda>p. p\<lparr>pcontext := sp\<rparr>) s;
                  s = s\<lparr>mem := memset (mem s) sp 0 20\<rparr>;
                  s = s\<lparr>mem := store32 (mem s) (sp + 16) (kforkret s)\<rparr>
              in Inr (Some i, s))"

definition wakeup1 :: "chan \<Rightarrow> 'a kst_scheme \<Rightarrow> 'a kst_scheme" where
  "wakeup1 c s = s\<lparr>ptable := map (\<lambda>p.
     if pstate p = SLEEPING \<and> pchan p = Some c then p\<lparr>pstate := RUNNABLE\<rparr> else p) (ptable s)\<rparr>"

definition wakeup :: "chan \<Rightarrow> 'a kst_scheme \<Rightarrow> 'a kst_scheme" where
  "wakeup c s = wakeup1 c s"

definition kill :: "int \<Rightarrow> 'a kst_scheme \<Rightarrow> int \<times> 'a kst_scheme" where
  "kill pd s =
    (case scan (\<lambda>p. pid p = pd) 0 (ptable s) of
       None \<Rightarrow> (-1, s)
     | Some i \<Rightarrow> (0, upd_proc i (\<lambda>p.
         p\<lparr>killed := True, pstate := (if pstate p = SLEEPING then RUNNABLE else pstate p)\<rparr>) s))"

text \<open>\<open>sleep\<close> gives up the processor in the middle; its two halves are separate steps.
  \<open>lk\<close> is whether a lock was passed.\<close>

definition sleep_enter :: "chan \<Rightarrow> bool \<Rightarrow> 'a kst_scheme \<Rightarrow> err + 'a kst_scheme" where
  "sleep_enter c lk s =
    (case cpu_proc s of
       None \<Rightarrow> Inl (Panic ''sleep'')
     | Some p \<Rightarrow>
         if \<not> lk then Inl (Panic ''sleep without lk'')
         else Inr ((upd_proc p (\<lambda>q. q\<lparr>pchan := Some c, pstate := SLEEPING\<rparr>) s)\<lparr>cpu_proc := None\<rparr>))"

definition sleep_leave :: "nat \<Rightarrow> 'a kst_scheme \<Rightarrow> 'a kst_scheme" where
  "sleep_leave p s = upd_proc p (\<lambda>q. q\<lparr>pchan := None\<rparr>) s"

definition yield :: "'a kst_scheme \<Rightarrow> err + 'a kst_scheme" where
  "yield s = bindE (myproc s) (\<lambda>p.
     Inr ((upd_proc p (\<lambda>q. q\<lparr>pstate := RUNNABLE\<rparr>) s)\<lparr>cpu_proc := None\<rparr>))"

text \<open>One visit of the scheduler's loop to table entry \<open>p\<close>: a runnable process is given the
  processor; the switch back is the step that ends its run (\<open>yield\<close>, \<open>sleep_enter\<close>,
  \<open>exit\<close>), after which \<open>c->proc\<close> is null again.\<close>

definition scheduler_visit :: "nat \<Rightarrow> 'a kst_scheme \<Rightarrow> err + 'a kst_scheme" where
  "scheduler_visit p s =
    (if pstate (proc_at p s) \<noteq> RUNNABLE then Inr s
     else bindE (switchuvm (Some p) (s\<lparr>cpu_proc := Some p\<rparr>)) (\<lambda>s.
       Inr (upd_proc p (\<lambda>q. q\<lparr>pstate := RUNNING\<rparr>) s)))"

text \<open>One pass of \<open>wait\<close> over the table: \<open>(havekids, reaped pid)\<close>.\<close>

fun wait_scan :: "nat \<Rightarrow> nat \<Rightarrow> nat \<Rightarrow> bool \<Rightarrow> 'a kst_scheme \<Rightarrow> err + (bool \<times> int option \<times> 'a kst_scheme)" where
  "wait_scan 0 cur i kids s = Inr (kids, None, s)"
| "wait_scan (Suc n) cur i kids s =
    (if parent (proc_at i s) \<noteq> Some cur then wait_scan n cur (Suc i) kids s
     else if pstate (proc_at i s) = ZOMBIE then
       bindE (kfree (kstack (proc_at i s)) s) (\<lambda>s1.
       let s1 = upd_proc i (\<lambda>p. p\<lparr>kstack := 0\<rparr>) s1 in
       bindE (freevm (pgdir (proc_at i s1)) s1) (\<lambda>s2.
       Inr (True, Some (pid (proc_at i s)),
         upd_proc i (\<lambda>p. p\<lparr>pid := 0, parent := None, pname := (pname p)[0 := 0], killed := False,
           pstate := UNUSED\<rparr>) s2)))
     else wait_scan n cur (Suc i) True s)"

text \<open>\<open>wait\<close> up to its first sleep: it returns a pid or -1, or goes to sleep
  (\<open>None\<close>) on its own process.\<close>

definition wait :: "'a kst_scheme \<Rightarrow> err + (int option \<times> 'a kst_scheme)" where
  "wait s = bindE (myproc s) (\<lambda>cur.
     bindE (wait_scan NPROC cur 0 False s) (\<lambda>(kids, r, s).
     case r of
       Some pd \<Rightarrow> Inr (Some pd, s)
     | None \<Rightarrow>
         if \<not> kids \<or> killed (proc_at cur s) then Inr (Some (-1), s)
         else bindE (sleep_enter (ChanProc cur) True s) (\<lambda>s. Inr (None, s))))"

end
