(* ===== verification/Crypt.thy ===== *)
theory Crypt
  imports Proc
begin

text \<open>
  Page encryption and the clock of decrypted pages: \<open>translate_and_set\<close>, \<open>mdecrypt\<close>,
  \<open>mencrypt\<close>, \<open>getpgtable\<close> and \<open>dump_rawphymem\<close> of \<^verbatim>\<open>src/src/vm.c\<close>, \<open>growproc\<close> and the
  clock part of \<open>fork\<close> of \<^verbatim>\<open>src/src/proc.c\<close>. The pages are flipped through the
  user's virtual addresses, as the code does it, so each byte goes through the page
  walk of the machine with the current page table register.
\<close>

section \<open>Encryption\<close>

definition translate_and_set :: "u32 \<Rightarrow> u32 \<Rightarrow> 'a phys_scheme \<Rightarrow> err + (u32 \<times> 'a phys_scheme)" where
  "translate_and_set pd uva s =
    (let (pte, s) = walkpgdir pd uva False s in
     if pte = 0 then Inl NullDeref
     else
       let e = load32 (mem s) pte in
       if e AND PTE_P = 0 \<and> e AND PTE_E = 0 then Inr (0, s)
       else if has e PTE_E then Inr (0, s)
       else if e AND PTE_U = 0 then Inr (0, s)
       else
         let s = s\<lparr>mem := store32 (mem s) pte (load32 (mem s) pte OR PTE_E)\<rparr>;
             s = s\<lparr>mem := store32 (mem s) pte (load32 (mem s) pte AND NOT PTE_P)\<rparr>
         in Inr (P2V (PTE_ADDR (load32 (mem s) pte)), s))"

text \<open>\<open>for(offset = 0; offset < PGSIZE; offset++) { *slider = *slider ^ 0xFF; slider++; }\<close>
  for the remaining \<open>n\<close> bytes.\<close>

fun flip_bytes :: "nat \<Rightarrow> u32 \<Rightarrow> 'a phys_scheme \<Rightarrow> err + 'a phys_scheme" where
  "flip_bytes 0 slider s = Inr s"
| "flip_bytes (Suc n) slider s =
    bindE (user_read (cr3 s) slider (mem s)) (\<lambda>(b, m).
    bindE (user_write (cr3 s) slider (b XOR 0xFF) m) (\<lambda>m.
    flip_bytes n (slider + 1) (s\<lparr>mem := m\<rparr>)))"

text \<open>The checking pass of \<open>mencrypt\<close>: does it get through?\<close>

fun mencrypt_check :: "nat \<Rightarrow> u32 \<Rightarrow> u32 \<Rightarrow> 'a phys_scheme \<Rightarrow> err + bool" where
  "mencrypt_check 0 mypd slider s = Inr True"
| "mencrypt_check (Suc n) mypd slider s =
    (let (pte, s) = walkpgdir mypd slider False s in
     if pte = 0 then Inl NullDeref
     else if load32 (mem s) pte AND PTE_U = 0 then mencrypt_check n mypd (slider + PGSIZE) s
     else bindE (uva2ka mypd slider s) (\<lambda>kvp.
       if kvp = 0 then Inr False else mencrypt_check n mypd (slider + PGSIZE) s))"

text \<open>The encrypting pass; \<open>False\<close> is the early \<open>return -1\<close>.\<close>

fun mencrypt_pages :: "nat \<Rightarrow> u32 \<Rightarrow> u32 \<Rightarrow> 'a phys_scheme \<Rightarrow> err + (bool \<times> 'a phys_scheme)" where
  "mencrypt_pages 0 mypd slider s = Inr (True, s)"
| "mencrypt_pages (Suc n) mypd slider s =
    (let (pte, s) = walkpgdir mypd slider False s in
     if pte = 0 then Inl NullDeref
     else if load32 (mem s) pte AND PTE_U = 0 then mencrypt_pages n mypd (slider + PGSIZE) s
     else if has (load32 (mem s) pte) PTE_E then mencrypt_pages n mypd (slider + PGSIZE) s
     else
       bindE (flip_bytes 4096 slider s) (\<lambda>s.
       let s = s\<lparr>mem := store32 (mem s) pte (load32 (mem s) pte AND NOT PTE_A)\<rparr> in
       bindE (translate_and_set mypd (slider + PGSIZE - PGSIZE) s) (\<lambda>(k, s).
       if k = 0 then Inr (False, s) else mencrypt_pages n mypd (slider + PGSIZE) s)))"

definition mencrypt :: "u32 \<Rightarrow> int \<Rightarrow> 'a kst_scheme \<Rightarrow> err + (int \<times> 'a kst_scheme)" where
  "mencrypt virtual_addr len s =
    bindE (myproc s) (\<lambda>p.
    let mypd = pgdir (proc_at p s); va = PGROUNDDOWN virtual_addr in
    bindE (mencrypt_check (nat len) mypd va s) (\<lambda>ok.
    if \<not> ok then Inr (-1, s)
    else
      bindE (mencrypt_pages (nat len) mypd va s) (\<lambda>(ok, s).
      if \<not> ok then Inr (-1, s)
      else bindE (switchuvm (cpu_proc s) s) (\<lambda>s. Inr (0, s)))))"

section \<open>Decryption and the clock\<close>

text \<open>Array accesses \<open>nodes[i]\<close> with a C integer index.\<close>

definition node_get :: "proc \<Rightarrow> int \<Rightarrow> err + u32" where
  "node_get p i = (if 0 \<le> i \<and> i < int CLOCKSIZE then Inr (nodes p ! nat i) else Inl OutOfBounds)"

definition node_set :: "nat \<Rightarrow> int \<Rightarrow> u32 \<Rightarrow> 'a kst_scheme \<Rightarrow> err + 'a kst_scheme" where
  "node_set p i v s =
    (if 0 \<le> i \<and> i < int CLOCKSIZE
     then Inr (upd_proc p (\<lambda>q. q\<lparr>nodes := (nodes q)[nat i := v]\<rparr>) s) else Inl OutOfBounds)"

text \<open>One pass over the clock, \<open>n\<close> entries to go; the result says whether an entry was
  evicted.\<close>

fun clock_pass :: "nat \<Rightarrow> nat \<Rightarrow> u32 \<Rightarrow> u32 \<Rightarrow> 'a kst_scheme \<Rightarrow> err + (bool \<times> 'a kst_scheme)" where
  "clock_pass 0 p mypd addr s = Inr (False, s)"
| "clock_pass (Suc n) p mypd addr s =
    (let realInd = (int CLOCKSIZE - int (Suc n) + currInd (proc_at p s)) smod int CLOCKSIZE in
     bindE (node_get (proc_at p s) realInd) (\<lambda>a.
     let (pte, s) = walkpgdir mypd a False s in
     if pte = 0 then Inl NullDeref
     else if has (load32 (mem s) pte) PTE_A then
       clock_pass n p mypd addr (s\<lparr>mem := store32 (mem s) pte (load32 (mem s) pte AND NOT PTE_A)\<rparr>)
     else
       bindE (mencrypt a 1 s) (\<lambda>(_, s).
       bindE (node_set p realInd addr s) (\<lambda>s.
       Inr (True, upd_proc p (\<lambda>q. q\<lparr>currInd := (realInd + 1) smod int CLOCKSIZE\<rparr>) s)))))"

definition clock_add :: "nat \<Rightarrow> u32 \<Rightarrow> u32 \<Rightarrow> 'a kst_scheme \<Rightarrow> err + 'a kst_scheme" where
  "clock_add p mypd addr s =
    (if inClock (proc_at p s) = 0 then
       bindE (node_set p 0 addr s) (\<lambda>s.
       Inr (upd_proc p (\<lambda>q. q\<lparr>inClock := 1, currInd := 1\<rparr>) s))
     else if inClock (proc_at p s) < int CLOCKSIZE then
       bindE (node_set p (currInd (proc_at p s)) addr s) (\<lambda>s.
       Inr (upd_proc p (\<lambda>q. q\<lparr>currInd := currInd q + 1, inClock := inClock q + 1\<rparr>) s))
     else
       bindE (clock_pass CLOCKSIZE p mypd addr s) (\<lambda>(evicted, s).
       if evicted then Inr s
       else bindE (clock_pass CLOCKSIZE p mypd addr s) (\<lambda>(evicted, s). Inr s)))"

definition mdecrypt :: "u32 \<Rightarrow> 'a kst_scheme \<Rightarrow> err + (int \<times> 'a kst_scheme)" where
  "mdecrypt virtual_addr s =
    bindE (myproc s) (\<lambda>p.
    let mypd = pgdir (proc_at p s);
        (pte, s) = walkpgdir mypd virtual_addr False s
    in
    if pte = 0 then Inl NullDeref
    else if \<not> has (load32 (mem s) pte) PTE_E then Inr (-1, s)
    else if load32 (mem s) pte AND PTE_U = 0 then Inr (-1, s)
    else if load32 (mem s) pte = 0 then Inr (-1, s)
    else
      let s = s\<lparr>mem := store32 (mem s) pte (load32 (mem s) pte AND NOT PTE_E)\<rparr>;
          s = s\<lparr>mem := store32 (mem s) pte (load32 (mem s) pte OR PTE_P)\<rparr>
      in
      bindE (uva2ka mypd virtual_addr s) (\<lambda>original.
      let va = PGROUNDDOWN virtual_addr in
      bindE (uva2ka mypd va s) (\<lambda>kvp.
      if kvp = 0 \<or> mem s kvp = 0 then Inr (-1, s)
      else
        bindE (flip_bytes 4096 va s) (\<lambda>s.
        bindE (clock_add p mypd (PGROUNDDOWN va) s) (\<lambda>s.
        bindE (switchuvm (cpu_proc s) s) (\<lambda>s. Inr (0, s)))))))"

section \<open>User memory seen from the kernel\<close>

text \<open>The kernel reads and writes user memory through the page tables of the running process. When it touches an encrypted page the
  processor faults, \<open>trap\<close> calls \<open>mdecrypt\<close> and the access is retried; if \<open>mdecrypt\<close> fails, the
  fault counts as one of the kernel, which is a panic.\<close>

definition with_decrypt :: "('a kst_scheme \<Rightarrow> err + 'b) \<Rightarrow> 'a kst_scheme \<Rightarrow> err + 'b" where
  "with_decrypt f s =
    (case f s of
       Inl (PageFault va) \<Rightarrow>
         bindE (mdecrypt va s) (\<lambda>(r, s). if r = 0 then f s else Inl (Panic ''trap''))
     | r \<Rightarrow> r)"

definition kload8 :: "u32 \<Rightarrow> 'a kst_scheme \<Rightarrow> err + (u8 \<times> 'a kst_scheme)" where
  "kload8 va = with_decrypt (\<lambda>s. bindE (user_read (cr3 s) va (mem s)) (\<lambda>(b, m). Inr (b, s\<lparr>mem := m\<rparr>)))"

definition kstore8 :: "u32 \<Rightarrow> u8 \<Rightarrow> 'a kst_scheme \<Rightarrow> err + 'a kst_scheme" where
  "kstore8 va b = with_decrypt (\<lambda>s. bindE (user_write (cr3 s) va b (mem s)) (\<lambda>m. Inr (s\<lparr>mem := m\<rparr>)))"

fun kloads :: "nat \<Rightarrow> u32 \<Rightarrow> 'a kst_scheme \<Rightarrow> err + (u8 list \<times> 'a kst_scheme)" where
  "kloads 0 va s = Inr ([], s)"
| "kloads (Suc n) va s =
    bindE (kload8 va s) (\<lambda>(b, s). bindE (kloads n (va + 1) s) (\<lambda>(bs, s). Inr (b # bs, s)))"

fun kstores :: "u8 list \<Rightarrow> u32 \<Rightarrow> 'a kst_scheme \<Rightarrow> err + 'a kst_scheme" where
  "kstores [] va s = Inr s"
| "kstores (b # bs) va s = bindE (kstore8 va b s) (kstores bs (va + 1))"

section \<open>Inspection\<close>

record pt_entry =
  pe_pdx :: "10 word"
  pe_ptx :: "10 word"
  pe_ppage :: "20 word"
  pe_present :: "1 word"
  pe_writable :: "1 word"
  pe_encrypted :: "1 word"
  pe_ref :: "1 word"

text \<open>The fields \<open>getpgtable\<close> fills in; it leaves the field \<open>user\<close> of the caller's record
  as it was.\<close>

definition entry_of :: "u32 \<Rightarrow> u32 \<Rightarrow> pt_entry" where
  "entry_of uva e = \<lparr>pe_pdx = ucast (PDX uva), pe_ptx = ucast (PTX uva), pe_ppage = ucast (drop_bit PTXSHIFT e),
     pe_present = ucast (e AND PTE_P), pe_writable = (if has e PTE_W then 1 else 0),
     pe_encrypted = (if has e PTE_E then 1 else 0), pe_ref = (if has e PTE_A then 1 else 0)\<rparr>"

text \<open>The two words of a record in memory: \<open>pdx\<close> and \<open>ptx\<close> in the first, the rest in the second. A bit field is
  assigned by reading its word, replacing the bits and writing the word back.\<close>

definition entry_word0 :: "pt_entry \<Rightarrow> u32 \<Rightarrow> u32" where
  "entry_word0 e w = (w AND 0xFFF00000) OR ucast (pe_pdx e) OR push_bit 10 (ucast (pe_ptx e))"

definition entry_word1 :: "pt_entry \<Rightarrow> u32 \<Rightarrow> u32" where
  "entry_word1 e w = (w AND 0xFE400000) OR ucast (pe_ppage e) OR push_bit 20 (ucast (pe_present e))
     OR push_bit 21 (ucast (pe_writable e)) OR push_bit 23 (ucast (pe_encrypted e)) OR push_bit 24 (ucast (pe_ref e))"

text \<open>Storing the record for \<open>uva\<close> at \<open>dst\<close>. The first store may decrypt the page that holds the
  array, so the table entry is read again for the second word.\<close>

definition put_entry :: "u32 \<Rightarrow> u32 \<Rightarrow> u32 \<Rightarrow> 'a kst_scheme \<Rightarrow> err + 'a kst_scheme" where
  "put_entry dst uva pte s =
    bindE (kloads 4 dst s) (\<lambda>(b0, s).
    bindE (kstores (bytes32 (entry_word0 (entry_of uva (load32 (mem s) pte)) (get32 b0 0))) dst s) (\<lambda>s.
    bindE (kloads 4 (dst + 4) s) (\<lambda>(b1, s).
    kstores (bytes32 (entry_word1 (entry_of uva (load32 (mem s) pte)) (get32 b1 0))) (dst + 4) s)))"

text \<open>Is the entry at \<open>pte\<close> that of a node \<open>j < n\<close> of the clock?\<close>

fun in_clock :: "nat \<Rightarrow> nat \<Rightarrow> u32 \<Rightarrow> u32 \<Rightarrow> proc \<Rightarrow> 'a phys_scheme \<Rightarrow> err + bool" where
  "in_clock 0 j pd pte p s = Inr False"
| "in_clock (Suc n) j pd pte p s =
    bindE (node_get p (int j)) (\<lambda>a.
    if pte = fst (walkpgdir pd a False s) then Inr True else in_clock n (Suc j) pd pte p s)"

text \<open>\<open>dst\<close> is the address of \<open>pt_entries\<close>, \<open>i\<close> the number of records written.\<close>

fun getpgtable_loop :: "nat \<Rightarrow> nat \<Rightarrow> u32 \<Rightarrow> u32 \<Rightarrow> int \<Rightarrow> bool \<Rightarrow> u32 \<Rightarrow> int \<Rightarrow> 'a kst_scheme
    \<Rightarrow> err + (int \<times> 'a kst_scheme)" where
  "getpgtable_loop 0 c pd uva num wset dst i s = Inl NoFuel"
| "getpgtable_loop (Suc fuel) c pd uva num wset dst i s =
    (let (pte, s) = walkpgdir pd uva False s in
     if pte = 0 then Inl NullDeref
     else
       let e = load32 (mem s) pte in
       if \<not> has e PTE_U \<or> \<not> has e (PTE_P OR PTE_E)
       then getpgtable_loop fuel c pd (uva - PGSIZE) num wset dst i s
       else
         bindE (if wset then in_clock (nat (inClock (proc_at c s))) 0 pd pte (proc_at c s) s else Inr True) (\<lambda>add.
         bindE (if add then bindE (put_entry (dst + 8 * of_int i) uva pte s) (\<lambda>s. Inr (i + 1, s)) else Inr (i, s)) (\<lambda>(i, s).
         if uva = 0 \<or> i = num then Inr (i, s)
         else getpgtable_loop fuel c pd (uva - PGSIZE) num wset dst i s)))"

definition getpgtable :: "u32 \<Rightarrow> int \<Rightarrow> int \<Rightarrow> 'a kst_scheme \<Rightarrow> err + (int \<times> 'a kst_scheme)" where
  "getpgtable pt_entries num wsetOnly s =
    (if wsetOnly \<noteq> 0 \<and> wsetOnly \<noteq> 1 then Inr (-1, s)
     else
       bindE (myproc s) (\<lambda>c.
       let p = proc_at c s;
           uva = (if sz p mod PGSIZE = 0 then sz p - PGSIZE else PGROUNDDOWN (sz p))
       in getpgtable_loop page_fuel c (pgdir p) uva num (wsetOnly = 1) pt_entries 0 s))"

text \<open>\<open>*buffer = *buffer\<close> faults the buffer in; the copy goes through the page table.\<close>

definition dump_rawphymem :: "u32 \<Rightarrow> u32 \<Rightarrow> 'a kst_scheme \<Rightarrow> err + (int \<times> 'a kst_scheme)" where
  "dump_rawphymem physical_addr buffer s =
    bindE (kload8 buffer s) (\<lambda>(b, s).
    bindE (kstore8 buffer b s) (\<lambda>s.
    bindE (myproc s) (\<lambda>p.
    bindE (copyout (pgdir (proc_at p s)) buffer (PGROUNDDOWN (P2V physical_addr)) PGSIZE s) (\<lambda>(r, s).
    if r \<noteq> 0 then Inr (-1, s) else Inr (0, s)))))"

section \<open>Growing, shrinking and copying a process\<close>

text \<open>The inner loop of \<open>growproc\<close> that closes the gap at \<open>i\<close>: indices \<open>j\<close> to
  \<open>inClock - 1\<close>, \<open>n\<close> of them.\<close>

fun shift_nodes :: "nat \<Rightarrow> nat \<Rightarrow> int \<Rightarrow> 'a kst_scheme \<Rightarrow> err + 'a kst_scheme" where
  "shift_nodes 0 p j s = Inr s"
| "shift_nodes (Suc n) p j s =
    bindE (if j = inClock (proc_at p s) - 1
           then bindE (node_set p j (- 1) s) (\<lambda>s. Inr (upd_proc p (\<lambda>q. q\<lparr>currInd := inClock q - 1\<rparr>) s))
           else bindE (node_get (proc_at p s) (j + 1)) (\<lambda>a. node_set p j a s))
      (shift_nodes n p (j + 1))"

text \<open>The scan over the clock when the process shrinks to \<open>newsz\<close>: every iteration
  either moves on or removes a node, so \<open>inClock - i\<close> of them are enough.\<close>

fun drop_nodes :: "nat \<Rightarrow> nat \<Rightarrow> u32 \<Rightarrow> int \<Rightarrow> 'a kst_scheme \<Rightarrow> err + 'a kst_scheme" where
  "drop_nodes 0 p newsz i s = (if i < inClock (proc_at p s) then Inl NoFuel else Inr s)"
| "drop_nodes (Suc fuel) p newsz i s =
    (if i < inClock (proc_at p s) then
       bindE (node_get (proc_at p s) i) (\<lambda>a.
       if a \<ge> newsz then
         bindE (if i < inClock (proc_at p s) - 1
                then shift_nodes (nat (inClock (proc_at p s) - i)) p i s
                else node_set p i (- 1) s) (\<lambda>s.
         drop_nodes fuel p newsz i (upd_proc p (\<lambda>q. q\<lparr>inClock := inClock q - 1\<rparr>) s))
       else drop_nodes fuel p newsz (i + 1) s)
     else Inr s)"

definition growproc :: "int \<Rightarrow> 'a kst_scheme \<Rightarrow> err + (int \<times> 'a kst_scheme)" where
  "growproc n s =
    bindE (myproc s) (\<lambda>c.
    let osz = sz (proc_at c s); pd = pgdir (proc_at c s);
        finish = (\<lambda>nsz s. bindE (switchuvm (Some c) (upd_proc c (\<lambda>q. q\<lparr>sz := nsz\<rparr>) s)) (\<lambda>s. Inr (0, s)))
    in
    if n > 0 then
      bindE (allocuvm pd osz (osz + of_int n) s) (\<lambda>(nsz, s).
      if nsz = 0 then Inr (-1, s)
      else
        bindE (if osz mod PGSIZE = 0 then mencrypt osz (n div 4096) s
               else mencrypt (PGROUNDUP osz) (n div 4096) s) (\<lambda>(_, s).
        finish nsz s))
    else if n < 0 then
      bindE (drop_nodes (nat (inClock (proc_at c s))) c (osz + of_int n) 0 s) (\<lambda>s.
      bindE (deallocuvm pd osz (osz + of_int n) s) (\<lambda>(nsz, s).
      if nsz = 0 then Inr (-1, s) else finish nsz s))
    else finish osz s)"

text \<open>\<open>fork\<close>, the lines that give the child \<open>np\<close> the parent's clock.\<close>

fun fork_nodes :: "nat \<Rightarrow> nat \<Rightarrow> nat \<Rightarrow> nat \<Rightarrow> 'a kst_scheme \<Rightarrow> err + 'a kst_scheme" where
  "fork_nodes 0 i cur np s = Inr s"
| "fork_nodes (Suc n) i cur np s =
    bindE (node_get (proc_at cur s) (int i)) (\<lambda>a.
    let (p, s) = walkpgdir (pgdir (proc_at cur s)) a False s in
    bindE (node_set np (int i) a s) (\<lambda>s.
    let (c, s) = walkpgdir (pgdir (proc_at np s)) a False s in
    if p = 0 then Inl NullDeref
    else if load32 (mem s) p AND PTE_P = 0 then
      (if c = 0 then Inl NullDeref
       else if has (load32 (mem s) c) PTE_P
       then fork_nodes n (Suc i) cur np (s\<lparr>mem := store32 (mem s) c (load32 (mem s) c AND NOT PTE_P)\<rparr>)
       else fork_nodes n (Suc i) cur np s)
    else fork_nodes n (Suc i) cur np s))"

definition fork_clock :: "nat \<Rightarrow> nat \<Rightarrow> 'a kst_scheme \<Rightarrow> err + 'a kst_scheme" where
  "fork_clock cur np s =
    (let s = upd_proc np (\<lambda>q. q\<lparr>currInd := currInd (proc_at cur s) + 3\<rparr>) s;
         s = upd_proc np (\<lambda>q. q\<lparr>inClock := inClock (proc_at cur s)\<rparr>) s
     in fork_nodes (nat (inClock (proc_at cur s))) 0 cur np s)"

end
