(* ===== verification/Crypt_Pages.thy ===== *)
theory Crypt_Pages
  imports Crypt
begin

text \<open>
  What one page flip does: the accesses of the processor to a mapped page, the loop
  over its 4096 bytes, and the entry and the contents of the page before and after.
\<close>

section \<open>Accesses to a mapped page\<close>

definition writable_page :: "memory \<Rightarrow> u32 \<Rightarrow> u32 \<Rightarrow> bool" where
  "writable_page m pd va \<longleftrightarrow> pd_wf m pd \<and> has_table m pd va \<and> has (pde_at m pd va) PTE_W \<and>
     has (pte_at m pd va) PTE_P \<and> has (pte_at m pd va) PTE_W \<and>
     uframe m pd va \<notin> table_frames m pd"

text \<open>\<open>tab_upd g pd va m m'\<close>: the table in \<open>m'\<close> is that in \<open>m\<close> with \<open>g\<close> applied to the
  entry of \<open>va\<close>'s page (and accessed bits added to directory entries).\<close>

definition tab_upd :: "(u32 \<Rightarrow> u32) \<Rightarrow> u32 \<Rightarrow> u32 \<Rightarrow> memory \<Rightarrow> memory \<Rightarrow> bool" where
  "tab_upd g pd va m m' \<longleftrightarrow> pd_wf m' pd \<and> table_frames m' pd = table_frames m pd \<and>
     (\<forall>vb. has_table m' pd vb = has_table m pd vb \<and> pgtab_at m' pd vb = pgtab_at m pd vb \<and>
        has (pde_at m' pd vb) PTE_W = has (pde_at m pd vb) PTE_W \<and>
        pte_at m' pd vb = (if PGROUNDDOWN vb = PGROUNDDOWN va then g (pte_at m pd vb) else pte_at m pd vb))"

abbreviation touched :: "u32 \<Rightarrow> u32 \<Rightarrow> u32 \<Rightarrow> memory \<Rightarrow> memory \<Rightarrow> bool" where
  "touched b \<equiv> tab_upd (\<lambda>e. e OR b)"

lemma touched_refl: "pd_wf m pd \<Longrightarrow> touched 0 pd va m m"
  by (simp add: tab_upd_def)

lemma tab_upd_trans:
  "tab_upd g pd va m m' \<Longrightarrow> tab_upd h pd va m' m'' \<Longrightarrow> tab_upd (\<lambda>e. h (g e)) pd va m m''"
  by (auto simp: tab_upd_def)

lemma touched_trans:
  "touched b pd va m m' \<Longrightarrow> touched c pd va m' m'' \<Longrightarrow> touched (b OR c) pd va m m''"
  using tab_upd_trans [of "\<lambda>e. e OR b" pd va m m' "\<lambda>e. e OR c"] by (simp add: or.assoc)

lemma bit_4095: "bit (4095 :: u32) n \<longleftrightarrow> n < 12"
proof -
  have "(4095 :: u32) = mask 12" by (simp add: mask_eq_exp_minus_1)
  then show ?thesis by (simp only: bit_mask_iff) auto
qed

lemma low_bits: "unat (b :: u32) < 4096 \<Longrightarrow> bit b n \<Longrightarrow> n < 12"
proof -
  assume b: "unat b < 4096" and n: "bit b n"
  have "take_bit 12 b = b"
    by (rule u32_eqI) (simp add: unat_take_bit32 b)
  with n show ?thesis by (metis bit_take_bit_iff)
qed

lemma bit_PTE_ADDR: "bit (PTE_ADDR e) n \<longleftrightarrow> bit e n \<and> 12 \<le> n"
  by (cases "n < LENGTH(32)") (auto simp only: PTE_ADDR_def bit_and_iff bit_not_iff bit_4095 possible_bit_word dest: bit_imp_le_length)

lemma PTE_ADDR_or_low: "unat b < 4096 \<Longrightarrow> PTE_ADDR (e OR b) = PTE_ADDR e"
  and PTE_ADDR_andn_low: "unat b < 4096 \<Longrightarrow> PTE_ADDR (e AND NOT b) = PTE_ADDR e"
  using low_bits [of b] by (fastforce intro!: bit_word_eqI simp: bit_PTE_ADDR bit_or_iff bit_and_iff bit_not_iff)+

lemma bit_32: "bit (32 :: u32) n \<longleftrightarrow> n = 5"
proof -
  have "(32 :: u32) = 2 ^ 5" by simp
  then show ?thesis by (simp only: bit_exp_iff) auto
qed

lemma or_A: "PTE_ADDR (e OR 0x20) = PTE_ADDR e" "has (e OR 0x20) 1 = has e 1" "has (e OR 0x20) 2 = has e 2"
  by (simp_all add: PTE_ADDR_or_low has_P bit_or_iff bit_32)

text \<open>Setting the accessed bit of a directory entry.\<close>

lemma store_pde_touched:
  assumes wf: "pd_wf m pd" and tab: "has_table m pd va"
  defines "m' \<equiv> store32 m (pd + 4 * PDX va) (pde_at m pd va OR PTE_A)"
  shows "touched 0 pd va m m'" and "pte_slot m' pd vb = pte_slot m pd vb" and "changes {pd} m m'"
proof -
  have al: "aligned pd" by (rule pd_wf_aligned [OF wf])
  show ch: "changes {pd} m m'"
    unfolding m'_def by (rule changes_store32) (simp_all add: al pde_slot_mod4 pde_slot_page)
  have pde: "pde_at m' pd vb = (if PDX vb = PDX va then pde_at m pd va OR 0x20 else pde_at m pd vb)" for vb
    by (auto simp: m'_def pde_at_def al pde_slot_mod4 slot_inject intro!: load32_store32_other)
  have same: "PDX vb = PDX va \<Longrightarrow> pde_at m pd vb = pde_at m pd va" for vb
    by (simp add: pde_at_def)
  have pg: "pgtab_at m' pd vb = pgtab_at m pd vb" and tb: "has_table m' pd vb = has_table m pd vb"
    and w: "has (pde_at m' pd vb) PTE_W = has (pde_at m pd vb) PTE_W" for vb
    using same [of vb] by (simp_all add: pgtab_at_def has_table_def pde or_A del: has_bits)
  show sl: "pte_slot m' pd vb = pte_slot m pd vb" for vb by (simp add: pte_slot_def pg)
  have "load32 m' (pte_slot m pd vb) = load32 m (pte_slot m pd vb)" if "has_table m pd vb" for vb
    using pd_wf_tables [OF wf that] by (intro changes_load32 [OF ch]) auto
  then have "pte_at m' pd vb = pte_at m pd vb" for vb
    by (simp add: pte_at_def tb sl)
  moreover have "pd_wf m' pd" using wf unfolding pd_wf_def pg tb .
  ultimately show "touched 0 pd va m m'"
    using w by (simp add: tab_upd_def pg tb table_frames_def)
qed

lemma store_pte_touched:
  assumes wf: "pd_wf m pd" and tab: "has_table m pd va"
  shows "touched b pd va m (store32 m (pte_slot m pd va) (pte_at m pd va OR b))"
  unfolding tab_upd_def store_pte_view [OF wf tab]
proof (intro conjI allI refl)
  fix vb
  show "(if PGROUNDDOWN vb = PGROUNDDOWN va then pte_at m pd va OR b else pte_at m pd vb) =
      (if PGROUNDDOWN vb = PGROUNDDOWN va then pte_at m pd vb OR b else pte_at m pd vb)"
    using view_cong_page(5) [of va vb m pd] by (cases "PGROUNDDOWN vb = PGROUNDDOWN va") simp_all
qed (rule store_pte_view [OF wf tab])

lemma mmu_access_ok:
  assumes w: "writable_page m pd va"
  shows "\<exists>m'. mmu_access wr (V2P pd) va m = Inr (uframe m pd va + OFFSET va, m')
    \<and> touched (if wr then 0x60 else 0x20) pd va m m' \<and> changes (table_frames m pd) m m'"
proof -
  have wf: "pd_wf m pd" and tab: "has_table m pd va" and pw: "has (pde_at m pd va) PTE_W"
    and tp: "has (pte_at m pd va) PTE_P" "has (pte_at m pd va) PTE_W"
    using w by (simp_all add: writable_page_def)
  let ?b = "if wr then 0x60 else 0x20 :: u32"
  let ?m1 = "store32 m (pd + 4 * PDX va) (pde_at m pd va OR PTE_A)"
  let ?m2 = "store32 ?m1 (pte_slot ?m1 pd va) (pte_at ?m1 pd va OR ?b)"
  note t1 = store_pde_touched [OF wf tab]
  have wf1: "pd_wf ?m1 pd" and tab1: "has_table ?m1 pd va" and pte1: "pte_at ?m1 pd va = pte_at m pd va"
    using t1(1) tab by (auto simp: tab_upd_def)
  have al: "PTE_ADDR (V2P pd) = V2P pd"
    using pd_wf_aligned [OF wf] by (simp add: PTE_ADDR_eq)
  have pd: "P2V (PTE_ADDR (V2P pd)) + 4 * PDX va = pd + 4 * PDX va" by (simp add: al)
  have pde: "load32 m (pd + 4 * PDX va) = pde_at m pd va" by (simp add: pde_at_def)
  have slot: "P2V (PTE_ADDR (pde_at m pd va)) + 4 * PTX va = pte_slot m pd va"
    by (simp add: pte_slot_def pgtab_at_def)
  have pte: "load32 m (pte_slot m pd va) = pte_at m pd va" using tab by (simp add: pte_at_def)
  have "has (pde_at m pd va) PTE_P" using tab by (simp add: has_table_def)
  then have "mmu_access wr (V2P pd) va m = Inr (uframe m pd va + OFFSET va, ?m2)"
    using pw tp unfolding mmu_access_def Let_def pd pde slot pte
    by (simp add: t1(2) [simplified] pte1 [simplified] uframe_def)
  moreover have "touched (0 OR ?b) pd va m ?m2"
    by (rule touched_trans [OF t1(1) store_pte_touched [OF wf1 tab1]])
  moreover have "changes ({pd} \<union> {pgtab_at ?m1 pd va}) m ?m2"
    by (rule changes_trans [OF t1(3) store_pte_changes])
  then have "changes (table_frames m pd) m ?m2"
  proof (rule changes_mono)
    have "pgtab_at ?m1 pd va \<in> table_frames ?m1 pd" by (rule pgtab_in_table_frames [OF tab1])
    then show "{pd} \<union> {pgtab_at ?m1 pd va} \<subseteq> table_frames m pd"
      using t1(1) by (auto simp: tab_upd_def)
  qed
  ultimately show ?thesis by (intro exI [of _ ?m2]) simp
qed

lemma touched_writable:
  assumes "writable_page m pd va" and "touched b pd va m m'" and "unat b < 4096"
  shows "writable_page m' pd va" and "uframe m' pd va = uframe m pd va"
proof -
  have pte: "pte_at m' pd va = pte_at m pd va OR b" using assms(2) by (simp add: tab_upd_def)
  show uf: "uframe m' pd va = uframe m pd va"
    by (simp add: uframe_def pte PTE_ADDR_or_low assms(3))
  show "writable_page m' pd va"
    using assms(1,2) by (simp add: writable_page_def uf pte tab_upd_def has_P bit_simps)
qed

section \<open>Flipping a page\<close>

lemma frame_touched:
  assumes wf: "pd_wf m pd" and ch: "changes P m m'" and sep: "P \<inter> table_frames m pd = {}"
  shows "touched 0 pd va m m'"
proof -
  have pd: "pd \<notin> P" using sep by auto
  note al = pd_wf_aligned [OF wf]
  show ?thesis
    by (simp add: tab_upd_def pd_wf_frame [OF ch wf pd] table_frames_frame [OF ch al pd]
        table_frame [OF ch al pd] pde_at_frame [OF ch al pd] pte_at_frame [OF ch wf sep])
qed

lemma byte_page: "aligned f \<Longrightarrow> x = f + OFFSET va \<longleftrightarrow> PGROUNDDOWN x = f \<and> OFFSET x = OFFSET va"
  using PGROUNDDOWN_OFFSET [of x] by (auto simp: OFFSET_add)

lemma uframe_aligned [simp]: "aligned (uframe m pd va)"
  by (simp add: uframe_def)

lemma user_flip:
  assumes w: "writable_page m pd va"
  shows "\<exists>m'. bindE (user_read (V2P pd) va m) (\<lambda>(b, m). user_write (V2P pd) va (b XOR 0xFF) m) = Inr m'
    \<and> touched 0x60 pd va m m'
    \<and> (\<forall>x. PGROUNDDOWN x \<notin> table_frames m pd \<longrightarrow>
         m' x = (if x = uframe m pd va + OFFSET va then m x XOR 0xFF else m x))"
proof -
  let ?f = "uframe m pd va" and ?p = "uframe m pd va + OFFSET va"
  have fn: "?f \<notin> table_frames m pd" using w by (simp add: writable_page_def)
  have pp: "PGROUNDDOWN ?p = ?f" by simp
  obtain m1 where m1: "mmu_access False (V2P pd) va m = Inr (?p, m1)" "touched 0x20 pd va m m1"
      "changes (table_frames m pd) m m1"
    using mmu_access_ok [OF w, of False] by auto
  have w1: "writable_page m1 pd va" and f1: "uframe m1 pd va = ?f"
    using touched_writable [OF w m1(2)] by simp_all
  obtain m2 where m2: "mmu_access True (V2P pd) va m1 = Inr (?p, m2)" "touched 0x60 pd va m1 m2"
      "changes (table_frames m1 pd) m1 m2"
    using mmu_access_ok [OF w1, of True] f1 by auto
  have tf: "table_frames m1 pd = table_frames m pd" "table_frames m2 pd = table_frames m pd"
    using m1(2) m2(2) by (simp_all add: tab_upd_def)
  let ?m3 = "m2(?p := m1 ?p XOR 0xFF)"
  have "touched 0 pd va m2 ?m3"
  proof (rule frame_touched)
    show "pd_wf m2 pd" using m2(2) by (simp add: tab_upd_def)
    show "changes {?f} m2 ?m3" by (simp add: changes_def)
    show "{?f} \<inter> table_frames m2 pd = {}" using fn tf by simp
  qed
  from touched_trans [OF m1(2) touched_trans [OF m2(2) this]]
  have t: "touched 0x60 pd va m ?m3" by simp
  have old: "m1 x = m x" "m2 x = m x" if "PGROUNDDOWN x \<notin> table_frames m pd" for x
    using changesD [OF m1(3) that] changesD [OF m2(3)] that tf by simp_all
  have "bindE (user_read (V2P pd) va m) (\<lambda>(b, m). user_write (V2P pd) va (b XOR 0xFF) m) = Inr ?m3"
    by (simp add: user_read_def user_write_def m1(1) m2(1))
  with t old fn pp show ?thesis by (intro exI [of _ ?m3]) auto
qed

lemma touched_page: "PGROUNDDOWN va = PGROUNDDOWN vb \<Longrightarrow> touched b pd va m m' = touched b pd vb m m'"
  by (simp add: tab_upd_def)

lemma writable_page_cong:
  "PGROUNDDOWN va = PGROUNDDOWN vb \<Longrightarrow> writable_page m pd va = writable_page m pd vb"
  unfolding writable_page_def uframe_def using view_cong_page [of va vb m pd] by simp

lemma flip_bytes_run:
  assumes "aligned va" and "i + n \<le> 4096" and "writable_page (mem s) pd va" and "cr3 s = V2P pd"
  shows "\<exists>m'. flip_bytes n (va + of_nat i) s = Inr (s\<lparr>mem := m'\<rparr>)
    \<and> touched (if n = 0 then 0 else 0x60) pd va (mem s) m'
    \<and> (\<forall>x. PGROUNDDOWN x \<notin> table_frames (mem s) pd \<longrightarrow>
         m' x = (if PGROUNDDOWN x = uframe (mem s) pd va \<and> i \<le> unat (OFFSET x) \<and> unat (OFFSET x) < i + n
                 then mem s x XOR 0xFF else mem s x))"
  using assms(2-4)
proof (induction n arbitrary: i s)
  case 0
  then show ?case
    using touched_refl [of "mem s" pd va] by (intro exI [of _ "mem s"]) (auto simp: writable_page_def)
next
  case (Suc n)
  let ?va = "va + of_nat i" and ?f = "uframe (mem s) pd va"
  have ui: "unat (of_nat i :: u32) = i" using Suc.prems(1) by (simp add: unat_of_nat)
  have off: "OFFSET ?va = of_nat i" and pg: "PGROUNDDOWN ?va = PGROUNDDOWN va"
    using assms(1) ui Suc.prems(1) by (simp_all add: OFFSET_add PGROUNDDOWN_add)
  have w: "writable_page (mem s) pd ?va" using Suc.prems(2) writable_page_cong [OF pg] by simp
  have f: "uframe (mem s) pd ?va = ?f" using view_cong_page(5) [OF pg] by (simp add: uframe_def)
  obtain m1 where m1: "bindE (user_read (V2P pd) ?va (mem s)) (\<lambda>(b, m). user_write (V2P pd) ?va (b XOR 0xFF) m) = Inr m1"
      and t1: "touched 0x60 pd va (mem s) m1"
      and b1: "\<And>x. PGROUNDDOWN x \<notin> table_frames (mem s) pd \<Longrightarrow>
         m1 x = (if x = ?f + OFFSET ?va then mem s x XOR 0xFF else mem s x)"
    using user_flip [OF w] touched_page [OF pg] f by auto
  have tw: "writable_page m1 pd va" "uframe m1 pd va = ?f"
    using touched_writable [OF Suc.prems(2) t1] by simp_all
  have tf: "table_frames m1 pd = table_frames (mem s) pd" using t1 by (simp add: tab_upd_def)
  obtain m2 where m2: "flip_bytes n (va + of_nat (Suc i)) (s\<lparr>mem := m1\<rparr>) = Inr (s\<lparr>mem := m1\<rparr>\<lparr>mem := m2\<rparr>)"
      and t2: "touched (if n = 0 then 0 else 0x60) pd va m1 m2"
      and b2: "\<And>x. PGROUNDDOWN x \<notin> table_frames (mem s) pd \<Longrightarrow>
         m2 x = (if PGROUNDDOWN x = ?f \<and> Suc i \<le> unat (OFFSET x) \<and> unat (OFFSET x) < Suc i + n
                 then m1 x XOR 0xFF else m1 x)"
    using Suc.IH [of "Suc i" "s\<lparr>mem := m1\<rparr>"] Suc.prems tw tf by auto
  have next_va: "?va + 1 = va + of_nat (Suc i)" by simp
  have "flip_bytes (Suc n) ?va s =
      bindE (bindE (user_read (V2P pd) ?va (mem s)) (\<lambda>(b, m). user_write (V2P pd) ?va (b XOR 0xFF) m))
        (\<lambda>m. flip_bytes n (?va + 1) (s\<lparr>mem := m\<rparr>))"
    by (simp add: Suc.prems(3) bindE_assoc split_def)
  also have "\<dots> = Inr (s\<lparr>mem := m2\<rparr>)"
    using m1 m2 by (simp only: bindE_simps next_va) simp
  finally have run: "flip_bytes (Suc n) ?va s = Inr (s\<lparr>mem := m2\<rparr>)" .
  have t: "touched 0x60 pd va (mem s) m2"
    using touched_trans [OF t1 t2] by (cases "n = 0") simp_all
  have here: "x = ?f + OFFSET ?va \<longleftrightarrow> PGROUNDDOWN x = ?f \<and> unat (OFFSET x) = i" for x
  proof -
    have "OFFSET x = OFFSET ?va \<longleftrightarrow> unat (OFFSET x) = i"
      unfolding off by (subst word_unat_eq_iff) (simp add: ui)
    then show ?thesis using byte_page [of ?f x ?va] by simp
  qed
  have "PGROUNDDOWN x \<notin> table_frames (mem s) pd \<Longrightarrow>
      m2 x = (if PGROUNDDOWN x = ?f \<and> i \<le> unat (OFFSET x) \<and> unat (OFFSET x) < i + Suc n
              then mem s x XOR 0xFF else mem s x)" for x
    using b1 [of x, unfolded here] b2 [of x] by (cases "PGROUNDDOWN x = ?f") auto
  with run t show ?case by (intro exI [of _ m2]) simp
qed

lemma flip_page:
  assumes "aligned va" and "writable_page (mem s) pd va" and "cr3 s = V2P pd"
  obtains m' where "flip_bytes 4096 va s = Inr (s\<lparr>mem := m'\<rparr>)" and "touched 0x60 pd va (mem s) m'"
    and "\<And>x. PGROUNDDOWN x \<notin> table_frames (mem s) pd \<Longrightarrow>
         m' x = (if PGROUNDDOWN x = uframe (mem s) pd va then mem s x XOR 0xFF else mem s x)"
proof -
  have le: "0 + 4096 \<le> (4096 :: nat)" by simp
  obtain m' where "flip_bytes 4096 (va + of_nat 0) s = Inr (s\<lparr>mem := m'\<rparr>)"
    "touched (if (4096 :: nat) = 0 then 0 else 0x60) pd va (mem s) m'"
    "\<forall>x. PGROUNDDOWN x \<notin> table_frames (mem s) pd \<longrightarrow>
       m' x = (if PGROUNDDOWN x = uframe (mem s) pd va \<and> 0 \<le> unat (OFFSET x) \<and> unat (OFFSET x) < 0 + 4096
               then mem s x XOR 0xFF else mem s x)"
    using flip_bytes_run [OF assms(1) le assms(2,3)] by blast
  then show ?thesis by (intro that [of m']) simp_all
qed

end
