(* ===== verification/Crypt_Enc.thy ===== *)
theory Crypt_Enc
  imports Crypt_Pages
begin

text \<open>
  Encrypting a run of pages. The \<^emph>\<open>plaintext\<close> of a user byte is what it would read
  once its page is decrypted; \<open>mencrypt\<close> leaves it alone while it makes the pages
  inaccessible.
\<close>

section \<open>Plaintext\<close>

definition plain :: "memory \<Rightarrow> u32 \<Rightarrow> u32 \<Rightarrow> u8" where
  "plain m pd va =
    (let b = m (uframe m pd va + OFFSET va) in if has (pte_at m pd va) PTE_E then b XOR 0xFF else b)"

text \<open>The part of a well-formed address space that concerns memory only.\<close>

definition aspace :: "memory \<Rightarrow> u32 \<Rightarrow> bool" where
  "aspace m pd \<longleftrightarrow> pd_wf m pd \<and>
     (\<forall>va<KERNBASE. mapped m pd va \<longrightarrow> uframe m pd va \<notin> table_frames m pd \<and> uframe m pd va \<noteq> 0) \<and>
     (\<forall>va<KERNBASE. \<forall>vb<KERNBASE. mapped m pd va \<longrightarrow> mapped m pd vb \<longrightarrow>
        uframe m pd va = uframe m pd vb \<longrightarrow> PGROUNDDOWN va = PGROUNDDOWN vb)"

lemma user_wf_aspace: "user_wf s pd xs \<Longrightarrow> aspace (mem s) pd"
  unfolding aspace_def using user_wf_pd user_wf_frame(1,2) user_wf_inj valid_frame_nonzero by metis

lemma aspace_pd: "aspace m pd \<Longrightarrow> pd_wf m pd"
  by (simp add: aspace_def)

lemma aspace_frame:
  "aspace m pd \<Longrightarrow> va < KERNBASE \<Longrightarrow> mapped m pd va \<Longrightarrow>
   uframe m pd va \<notin> table_frames m pd \<and> uframe m pd va \<noteq> 0"
  unfolding aspace_def by blast

lemma aspace_inj:
  "aspace m pd \<Longrightarrow> va < KERNBASE \<Longrightarrow> vb < KERNBASE \<Longrightarrow> mapped m pd va \<Longrightarrow> mapped m pd vb \<Longrightarrow>
   uframe m pd va = uframe m pd vb \<Longrightarrow> PGROUNDDOWN va = PGROUNDDOWN vb"
  unfolding aspace_def by blast

text \<open>An update of one entry that keeps its address and its being mapped keeps the
  address space well-formed.\<close>

lemma tab_upd_aspace:
  assumes as: "aspace m pd" and t: "tab_upd g pd va m m'"
    and g: "PTE_ADDR (g (pte_at m pd va)) = PTE_ADDR (pte_at m pd va)"
      "has (g (pte_at m pd va)) (PTE_P OR PTE_E) = has (pte_at m pd va) (PTE_P OR PTE_E)"
  shows "aspace m' pd" "uframe m' pd vb = uframe m pd vb" "mapped m' pd vb = mapped m pd vb"
proof -
  have cong: "PGROUNDDOWN vb = PGROUNDDOWN va \<Longrightarrow> pte_at m pd vb = pte_at m pd va" for vb
    by (rule view_cong_page)
  have pte: "pte_at m' pd vb = (if PGROUNDDOWN vb = PGROUNDDOWN va then g (pte_at m pd va) else pte_at m pd vb)" for vb
  proof (cases "PGROUNDDOWN vb = PGROUNDDOWN va")
    case True
    then show ?thesis using t cong [OF True] by (simp add: tab_upd_def)
  next
    case False
    then show ?thesis using t by (simp add: tab_upd_def)
  qed
  show u: "uframe m' pd vb = uframe m pd vb" for vb
    using cong [of vb] g(1) by (cases "PGROUNDDOWN vb = PGROUNDDOWN va") (simp_all add: uframe_def pte)
  show mp: "mapped m' pd vb = mapped m pd vb" for vb
    using cong [of vb] g(2) by (cases "PGROUNDDOWN vb = PGROUNDDOWN va") (simp_all add: mapped_def pte)
  have wf: "pd_wf m' pd" and tf: "table_frames m' pd = table_frames m pd"
    using t unfolding tab_upd_def by blast+
  show "aspace m' pd" using as wf unfolding aspace_def u mp tf by blast
qed

section \<open>Encrypting one page\<close>

lemma store32_twice: "store32 (store32 m a v) a w = store32 m a w"
  by (auto simp: store32_def fun_upd_twist)

definition enc_entry :: "u32 \<Rightarrow> u32" where
  "enc_entry e = (((e OR 0x60) AND NOT PTE_A) OR PTE_E) AND NOT PTE_P"

lemma bit_1024: "bit (1024 :: u32) n \<longleftrightarrow> n = 10" and bit_96: "bit (96 :: u32) n \<longleftrightarrow> n = 5 \<or> n = 6"
proof -
  have "(1024 :: u32) = 2 ^ 10" by simp
  then show "bit (1024 :: u32) n \<longleftrightarrow> n = 10" by (simp only: bit_exp_iff) auto
  have "(96 :: u32) = 2 ^ 5 OR 2 ^ 6" by simp
  then show "bit (96 :: u32) n \<longleftrightarrow> n = 5 \<or> n = 6" by (simp only: bit_exp_iff bit_or_iff) auto
qed

lemma bit_1: "bit (1 :: u32) n \<longleftrightarrow> n = 0"
  by (simp add: bit_1_iff)

lemmas entry_bits = has_P bit_or_iff bit_and_iff bit_not_iff bit_32 bit_1024 bit_96 bit_1

lemma has_PE: "has e (1 OR 1024) \<longleftrightarrow> bit e 0 \<or> bit e 10" "has e 1025 \<longleftrightarrow> bit e 0 \<or> bit e 10"
  using has_or [of e 1 1024] by (simp_all add: has_P)

lemma bit_enc_entry: "n < 32 \<Longrightarrow> bit (enc_entry e) n \<longleftrightarrow> n \<noteq> 0 \<and> n \<noteq> 5 \<and> (bit e n \<or> n = 6 \<or> n = 10)"
  by (auto simp only: enc_entry_def PTE_A_def PTE_E_def PTE_P_def entry_bits possible_bit_word len_of_numeral_defs)

lemma enc_entry_facts:
  "PTE_ADDR (enc_entry e) = PTE_ADDR e" "has (enc_entry e) PTE_E" "\<not> has (enc_entry e) PTE_P"
  "has (enc_entry e) (PTE_P OR PTE_E)" "has (enc_entry e) PTE_U = has e PTE_U" "has (enc_entry e) PTE_W = has e PTE_W"
  "\<not> has (enc_entry e) PTE_A"
  by (auto intro!: bit_word_eqI simp: bit_PTE_ADDR bit_enc_entry has_P has_PE)

text \<open>The pages the encrypting pass may meet: mapped, and present and writable unless
  already encrypted or not for user code.\<close>

definition enc_ready :: "memory \<Rightarrow> u32 \<Rightarrow> u32 \<Rightarrow> bool" where
  "enc_ready m pd va \<longleftrightarrow> mapped m pd va \<and> has (pde_at m pd va) PTE_W \<and>
     (has (pte_at m pd va) PTE_U \<and> \<not> has (pte_at m pd va) PTE_E \<longrightarrow>
        has (pte_at m pd va) PTE_P \<and> has (pte_at m pd va) PTE_W)"

definition to_enc :: "memory \<Rightarrow> u32 \<Rightarrow> u32 \<Rightarrow> bool" where
  "to_enc m pd va \<longleftrightarrow> has (pte_at m pd va) PTE_U \<and> \<not> has (pte_at m pd va) PTE_E"

lemma has_and_0: "(e AND f = 0) = (\<not> has e f)"
  by (simp add: has_def)

lemma store_pte_upd:
  assumes "pd_wf m pd" and "has_table m pd va"
  shows "tab_upd (\<lambda>_. v) pd va m (store32 m (pte_slot m pd va) v)"
  unfolding tab_upd_def store_pte_view [OF assms]
  by (intro conjI allI refl store_pte_view [OF assms])

lemma tab_upd_const:
  assumes "tab_upd (\<lambda>_. g (pte_at m pd va)) pd va m m'"
  shows "tab_upd g pd va m m'"
proof -
  have "(if PGROUNDDOWN vb = PGROUNDDOWN va then g (pte_at m pd va) else pte_at m pd vb) =
      (if PGROUNDDOWN vb = PGROUNDDOWN va then g (pte_at m pd vb) else pte_at m pd vb)" for vb
    using view_cong_page(5) [of va vb m pd] by (cases "PGROUNDDOWN vb = PGROUNDDOWN va") simp_all
  then show ?thesis using assms unfolding tab_upd_def by simp
qed

lemma translate_and_set_ok:
  assumes "pd_wf (mem s) pd" and "has_table (mem s) pd va" and "has (pte_at (mem s) pd va) PTE_P"
    and "\<not> has (pte_at (mem s) pd va) PTE_E" and "has (pte_at (mem s) pd va) PTE_U"
  shows "translate_and_set pd va s = Inr (P2V (PTE_ADDR ((pte_at (mem s) pd va OR PTE_E) AND NOT PTE_P)),
    s\<lparr>mem := store32 (mem s) (pte_slot (mem s) pd va) ((pte_at (mem s) pd va OR PTE_E) AND NOT PTE_P)\<rparr>)"
  using assms pte_slot_nonzero [OF assms(1,2)]
  by (simp add: translate_and_set_def walkpgdir_lookup pte_at_def store32_twice has_and_0 Let_def)

lemma mencrypt_page:
  assumes as: "aspace (mem s) pd" and a: "aligned a" "a < KERNBASE" and c: "cr3 s = V2P pd"
    and rdy: "enc_ready (mem s) pd a" and enc: "to_enc (mem s) pd a"
  obtains m' where "\<And>n. mencrypt_pages (Suc n) pd a s = mencrypt_pages n pd (a + 4096) (s\<lparr>mem := m'\<rparr>)"
    and "tab_upd enc_entry pd a (mem s) m'"
    and "\<And>x. PGROUNDDOWN x \<notin> table_frames (mem s) pd \<Longrightarrow>
         m' x = (if PGROUNDDOWN x = uframe (mem s) pd a then mem s x XOR 0xFF else mem s x)"
proof -
  let ?m = "mem s" and ?f = "uframe (mem s) pd a" and ?e = "pte_at (mem s) pd a"
  have wf: "pd_wf ?m pd" by (rule aspace_pd [OF as])
  have map: "mapped ?m pd a" using rdy by (simp add: enc_ready_def)
  have tab: "has_table ?m pd a" by (rule mapped_table [OF map])
  have fr: "?f \<notin> table_frames ?m pd" "?f \<noteq> 0" using aspace_frame [OF as a(2) map] by simp_all
  have w: "writable_page ?m pd a"
    using rdy enc wf tab fr by (simp add: writable_page_def enc_ready_def to_enc_def)
  obtain m1 where f: "flip_bytes 4096 a s = Inr (s\<lparr>mem := m1\<rparr>)" and t1: "touched 0x60 pd a ?m m1"
    and b1: "\<And>x. PGROUNDDOWN x \<notin> table_frames ?m pd \<Longrightarrow>
         m1 x = (if PGROUNDDOWN x = ?f then ?m x XOR 0xFF else ?m x)"
    using flip_page [OF a(1) w c] by blast
  have slot1: "pte_slot m1 pd a = pte_slot ?m pd a" using t1 by (simp add: tab_upd_def pte_slot_def)
  have wf1: "pd_wf m1 pd" and tab1: "has_table m1 pd a" and e1: "pte_at m1 pd a = ?e OR 0x60"
    and tf1: "table_frames m1 pd = table_frames ?m pd"
    using t1 tab by (simp_all add: tab_upd_def)
  let ?e2 = "(?e OR 0x60) AND NOT PTE_A"
  define m2 where "m2 = store32 m1 (pte_slot ?m pd a) ?e2"
  define m4 where "m4 = store32 m2 (pte_slot ?m pd a) (enc_entry ?e)"
  have l1: "load32 m1 (pte_slot ?m pd a) = ?e OR 0x60"
    using e1 tab1 by (simp add: pte_at_def slot1)
  have m4: "m4 = store32 m1 (pte_slot m1 pd a) (enc_entry ?e)"
    unfolding m4_def m2_def slot1 store32_twice ..
  note v4 = store_pte_view [OF wf1 tab1, of "enc_entry ?e", folded m4]
  note v2 = store_pte_view [OF wf1 tab1, of ?e2, unfolded slot1, folded m2_def]
  have bits: "has ?e PTE_U" "\<not> has ?e PTE_E" "has ?e PTE_P"
    using enc rdy by (simp_all add: to_enc_def enc_ready_def)
  have e2: "pte_at m2 pd a = ?e2" using v2(1) by simp
  have "translate_and_set pd a (s\<lparr>mem := m2\<rparr>) = Inr (P2V (PTE_ADDR (enc_entry ?e)), s\<lparr>mem := m4\<rparr>)"
    using translate_and_set_ok [of "s\<lparr>mem := m2\<rparr>" pd a] v2(3,5,6) tab1 slot1 bits e2
    by (simp add: m4_def enc_entry_def entry_bits)
  then have tr: "translate_and_set pd a (s\<lparr>mem := m2\<rparr>) = Inr (?f, s\<lparr>mem := m4\<rparr>)"
    by (simp add: enc_entry_facts uframe_def)
  have lm: "load32 ?m (pte_slot ?m pd a) = ?e" using tab by (simp add: pte_at_def)
  have run: "mencrypt_pages (Suc n) pd a s = mencrypt_pages n pd (a + 4096) (s\<lparr>mem := m4\<rparr>)" for n
    using f tr bits fr(2) pte_slot_nonzero [OF wf tab]
    by (simp add: walkpgdir_lookup tab lm l1 m2_def has_and_0)
  have t4: "tab_upd enc_entry pd a ?m m4"
    using tab_upd_trans [OF t1 store_pte_upd [OF wf1 tab1, of "enc_entry ?e", folded m4]]
    by (rule tab_upd_const)
  have "changes {pgtab_at m1 pd a} m1 m4" unfolding m4 by (rule store_pte_changes)
  then have b4: "PGROUNDDOWN x \<notin> table_frames ?m pd \<Longrightarrow>
         m4 x = (if PGROUNDDOWN x = ?f then ?m x XOR 0xFF else ?m x)" for x
    using changesD [of "{pgtab_at m1 pd a}" m1 m4 x] pgtab_in_table_frames [OF tab1] tf1 b1 [of x] by force
  show ?thesis by (rule that [OF run t4 b4])
qed

section \<open>Encrypting a run of pages\<close>

definition page_in :: "u32 \<Rightarrow> nat \<Rightarrow> u32 \<Rightarrow> bool" where
  "page_in a n vb \<longleftrightarrow> unat a \<le> unat (PGROUNDDOWN vb) \<and> unat (PGROUNDDOWN vb) < unat a + 4096 * n"

text \<open>The specification: the pages of the run that are to be encrypted get their new entry
  and have their bytes flipped; nothing else changes.\<close>

definition encrypts :: "(u32 \<Rightarrow> bool) \<Rightarrow> u32 \<Rightarrow> memory \<Rightarrow> memory \<Rightarrow> bool" where
  "encrypts P pd m m' \<longleftrightarrow> aspace m' pd \<and> table_frames m' pd = table_frames m pd \<and>
     (\<forall>vb. has_table m' pd vb = has_table m pd vb \<and> has (pde_at m' pd vb) PTE_W = has (pde_at m pd vb) PTE_W \<and>
        pte_at m' pd vb = (if P vb then enc_entry (pte_at m pd vb) else pte_at m pd vb)) \<and>
     (\<forall>x. PGROUNDDOWN x \<notin> table_frames m pd \<longrightarrow>
        m' x = (if \<exists>vb. P vb \<and> PGROUNDDOWN x = uframe m pd vb then m x XOR 0xFF else m x))"

lemma page_in_0 [simp]: "\<not> page_in a 0 vb"
  by (simp add: page_in_def)

lemma page_in_Suc:
  assumes "aligned a" and "unat a + 4096 * Suc n \<le> 0x80000000"
  shows "page_in a (Suc n) vb \<longleftrightarrow> PGROUNDDOWN vb = a \<or> page_in (a + 4096) n vb"
proof -
  have ua: "unat (a + 4096) = unat a + 4096" using assms(2) by (simp add: unat_add_small)
  have "unat (PGROUNDDOWN vb) \<ge> unat a + 4096"
    if "unat a \<le> unat (PGROUNDDOWN vb)" "PGROUNDDOWN vb \<noteq> a"
  proof -
    have "aligned (PGROUNDDOWN vb - a)" using assms(1) by (intro aligned_diff) simp_all
    then have "4096 \<le> unat (PGROUNDDOWN vb - a)" using that(2) by (intro aligned_ge_page) auto
    then show ?thesis using that(1) by (simp add: unat_sub_le word_le_nat_alt)
  qed
  then show ?thesis using assms(2) by (auto simp: page_in_def ua)
qed

lemma page_in_below: "unat a + 4096 * n \<le> 0x80000000 \<Longrightarrow> page_in a n vb \<Longrightarrow> vb < KERNBASE"
  using below_page [of "0x80000000" vb] by (auto simp: page_in_def word_less_nat_alt)

lemma enc_entry_keeps:
  "has e (PTE_P OR PTE_E) \<Longrightarrow> PTE_ADDR (enc_entry e) = PTE_ADDR e \<and>
   has (enc_entry e) (PTE_P OR PTE_E) = has e (PTE_P OR PTE_E)"
  by (simp only: enc_entry_facts simp_thms)

lemma to_enc_cong: "pte_at m' pd vb = pte_at m pd vb \<Longrightarrow> to_enc m' pd vb = to_enc m pd vb"
  by (simp add: to_enc_def)

lemma mencrypt_skip:
  assumes "pd_wf (mem s) pd" and "has_table (mem s) pd a" and "\<not> to_enc (mem s) pd a"
  shows "mencrypt_pages (Suc n) pd a s = mencrypt_pages n pd (a + 4096) s"
proof -
  have "load32 (mem s) (pte_slot (mem s) pd a) = pte_at (mem s) pd a"
    using assms(2) by (simp add: pte_at_def)
  then show ?thesis
    using assms pte_slot_nonzero [OF assms(1,2)]
    by (simp add: walkpgdir_lookup to_enc_def has_and_0)
qed

lemma encryptsD:
  assumes "encrypts P pd m m'"
  shows "aspace m' pd" "table_frames m' pd = table_frames m pd" "has_table m' pd vb = has_table m pd vb"
    "has (pde_at m' pd vb) PTE_W = has (pde_at m pd vb) PTE_W"
    "pte_at m' pd vb = (if P vb then enc_entry (pte_at m pd vb) else pte_at m pd vb)"
    "PGROUNDDOWN x \<notin> table_frames m pd \<Longrightarrow>
      m' x = (if \<exists>vb. P vb \<and> PGROUNDDOWN x = uframe m pd vb then m x XOR 0xFF else m x)"
    "uframe m' pd vb = uframe m pd vb"
proof -
  show pte: "pte_at m' pd vb = (if P vb then enc_entry (pte_at m pd vb) else pte_at m pd vb)"
    using assms unfolding encrypts_def by blast
  then show "uframe m' pd vb = uframe m pd vb" by (simp add: uframe_def enc_entry_facts)
qed (use assms in \<open>unfold encrypts_def, blast+\<close>)

lemma encrypts_comp:
  assumes e1: "encrypts P pd m m1" and e2: "encrypts Q pd m1 m2"
    and disj: "\<And>vb vc. P vb \<Longrightarrow> Q vc \<Longrightarrow> uframe m pd vb \<noteq> uframe m pd vc"
  shows "encrypts (\<lambda>vb. P vb \<or> Q vb) pd m m2"
  unfolding encrypts_def encryptsD [OF e2] encryptsD [OF e1]
proof (intro conjI allI impI refl)
  show "aspace m2 pd" by (rule encryptsD [OF e2])
  fix vb
  show "(if Q vb then enc_entry (if P vb then enc_entry (pte_at m pd vb) else pte_at m pd vb)
         else if P vb then enc_entry (pte_at m pd vb) else pte_at m pd vb) =
        (if P vb \<or> Q vb then enc_entry (pte_at m pd vb) else pte_at m pd vb)"
    using disj [of vb vb] by auto
next
  fix x assume x: "PGROUNDDOWN x \<notin> table_frames m pd"
  have 1: "m1 x = (if \<exists>vb. P vb \<and> PGROUNDDOWN x = uframe m pd vb then m x XOR 0xFF else m x)"
    by (rule encryptsD(6) [OF e1 x])
  have 2: "m2 x = (if \<exists>vb. Q vb \<and> PGROUNDDOWN x = uframe m pd vb then m1 x XOR 0xFF else m1 x)"
    using encryptsD(6) [OF e2, of x] x encryptsD(2,7) [OF e1] by simp
  show "m2 x = (if \<exists>vb. (P vb \<or> Q vb) \<and> PGROUNDDOWN x = uframe m pd vb then m x XOR 0xFF else m x)"
  proof (cases "\<exists>vb. P vb \<and> PGROUNDDOWN x = uframe m pd vb")
    case True
    then have "\<not> (\<exists>vb. Q vb \<and> PGROUNDDOWN x = uframe m pd vb)" using disj by metis
    with True 1 2 show ?thesis by auto
  next
    case False
    with 1 2 show ?thesis by auto
  qed
qed

lemma encrypts_cong:
  assumes "encrypts P pd m m'" and "\<And>vb. P vb = Q vb"
  shows "encrypts Q pd m m'"
proof -
  have "P = Q" using assms(2) by (rule ext)
  with assms(1) show ?thesis by simp
qed

lemma mencrypt_pages_run:
  assumes "aspace (mem s) pd" and "aligned a" and "unat a + 4096 * n \<le> 0x80000000" and "cr3 s = V2P pd"
    and "\<And>vb. page_in a n vb \<Longrightarrow> enc_ready (mem s) pd vb"
  shows "\<exists>m'. mencrypt_pages n pd a s = Inr (True, s\<lparr>mem := m'\<rparr>)
    \<and> encrypts (\<lambda>vb. page_in a n vb \<and> to_enc (mem s) pd vb) pd (mem s) m'"
  using assms
proof (induction n arbitrary: a s)
  case 0
  then show ?case by (intro exI [of _ "mem s"]) (simp add: encrypts_def)
next
  case (Suc n)
  let ?m = "mem s"
  note pin = page_in_Suc [OF Suc.prems(2,3)]
  have pa: "PGROUNDDOWN a = a" using Suc.prems(2) by simp
  have ak: "a < KERNBASE" using Suc.prems(3) by (simp add: word_less_nat_alt)
  have ua: "unat (a + 4096) = unat a + 4096" using Suc.prems(3) by (simp add: unat_add_small)
  have nin: "\<not> page_in (a + 4096) n vb" if "PGROUNDDOWN vb = a" for vb using that by (simp add: page_in_def ua)
  have al: "aligned (a + 4096)" and le: "unat (a + 4096) + 4096 * n \<le> 0x80000000"
    using Suc.prems(2,3) ua by auto
  have rdy: "enc_ready ?m pd a" using Suc.prems(5) [of a] pin [of a] pa by simp
  have wf: "pd_wf ?m pd" by (rule aspace_pd [OF Suc.prems(1)])
  have map: "mapped ?m pd a" using rdy by (simp add: enc_ready_def)
  show ?case
  proof (cases "to_enc ?m pd a")
    case False
    then have step: "mencrypt_pages (Suc n) pd a s = mencrypt_pages n pd (a + 4096) s"
      by (rule mencrypt_skip [OF wf mapped_table [OF map]])
    have "to_enc ?m pd vb = to_enc ?m pd a" if "PGROUNDDOWN vb = a" for vb
      using view_cong_page(5) [of vb a] that pa by (simp add: to_enc_def)
    then have "(\<lambda>vb. page_in a (Suc n) vb \<and> to_enc ?m pd vb) = (\<lambda>vb. page_in (a + 4096) n vb \<and> to_enc ?m pd vb)"
      using False pin by auto
    then show ?thesis
      using Suc.IH [OF Suc.prems(1) al le Suc.prems(4)] Suc.prems(5) pin step by simp
  next
    case True
    obtain m1 where r1: "\<And>n. mencrypt_pages (Suc n) pd a s = mencrypt_pages n pd (a + 4096) (s\<lparr>mem := m1\<rparr>)"
      and t1: "tab_upd enc_entry pd a ?m m1"
      and b1: "\<And>x. PGROUNDDOWN x \<notin> table_frames ?m pd \<Longrightarrow>
         m1 x = (if PGROUNDDOWN x = uframe ?m pd a then ?m x XOR 0xFF else ?m x)"
      using mencrypt_page [OF Suc.prems(1,2) ak Suc.prems(4) rdy True] by blast
    have g: "PTE_ADDR (enc_entry (pte_at ?m pd a)) = PTE_ADDR (pte_at ?m pd a)"
      "has (enc_entry (pte_at ?m pd a)) (PTE_P OR PTE_E) = has (pte_at ?m pd a) (PTE_P OR PTE_E)"
      using enc_entry_keeps map unfolding mapped_def by blast+
    note as1 = tab_upd_aspace [OF Suc.prems(1) t1 g]
    have pte1: "pte_at m1 pd vb = (if PGROUNDDOWN vb = a then enc_entry (pte_at ?m pd vb) else pte_at ?m pd vb)"
      and tab1: "has_table m1 pd vb = has_table ?m pd vb"
      and pw1: "has (pde_at m1 pd vb) PTE_W = has (pde_at ?m pd vb) PTE_W"
      and tf1: "table_frames m1 pd = table_frames ?m pd" for vb
      using t1 pa unfolding tab_upd_def by auto
    have rest: "page_in (a + 4096) n vb \<Longrightarrow> pte_at m1 pd vb = pte_at ?m pd vb" for vb
      using nin [of vb] pte1 [of vb] by auto
    have "enc_ready m1 pd vb" if "page_in (a + 4096) n vb" for vb
      using Suc.prems(5) [of vb] pin [of vb] that rest [OF that] pw1 [of vb] as1(3) [of vb]
      by (simp add: enc_ready_def)
    then obtain m2 where r2: "mencrypt_pages n pd (a + 4096) (s\<lparr>mem := m1\<rparr>) = Inr (True, s\<lparr>mem := m2\<rparr>)"
      and e2: "encrypts (\<lambda>vb. page_in (a + 4096) n vb \<and> to_enc m1 pd vb) pd m1 m2"
      using Suc.IH [of "s\<lparr>mem := m1\<rparr>" "a + 4096"] as1(1) al le Suc.prems(4) by auto
    have Q: "(page_in (a + 4096) n vb \<and> to_enc m1 pd vb) = (page_in (a + 4096) n vb \<and> to_enc ?m pd vb)" for vb
      using rest [of vb] to_enc_cong by blast
    have e1: "encrypts (\<lambda>vb. PGROUNDDOWN vb = a) pd ?m m1"
    proof -
      have "(\<exists>vb. PGROUNDDOWN vb = a \<and> f = uframe ?m pd vb) \<longleftrightarrow> f = uframe ?m pd a" for f
        using uframe_PGROUNDDOWN [of ?m pd] pa by metis
      then show ?thesis
        using as1(1) tab1 pw1 tf1 pte1 b1 unfolding encrypts_def by simp
    qed
    have disj: "uframe ?m pd vb \<noteq> uframe ?m pd vc"
      if "PGROUNDDOWN vb = a" "page_in (a + 4096) n vc \<and> to_enc m1 pd vc" for vb vc
    proof
      assume eq: "uframe ?m pd vb = uframe ?m pd vc"
      have "vc < KERNBASE" by (rule page_in_below [OF le]) (use that(2) in simp)
      moreover have "mapped ?m pd vc" using Suc.prems(5) [of vc] pin [of vc] that(2) by (simp add: enc_ready_def)
      moreover have "uframe ?m pd a = uframe ?m pd vc" using eq that(1) uframe_PGROUNDDOWN [of ?m pd vb] by simp
      ultimately have "PGROUNDDOWN a = PGROUNDDOWN vc" using aspace_inj [OF Suc.prems(1) ak _ map] by blast
      then show False using nin [of vc] that(2) pa by simp
    qed
    have "encrypts (\<lambda>vb. page_in a (Suc n) vb \<and> to_enc ?m pd vb) pd ?m m2"
    proof (rule encrypts_cong [OF encrypts_comp [OF e1 e2 disj]])
      fix vb
      have "PGROUNDDOWN vb = a \<Longrightarrow> to_enc ?m pd vb"
        using True view_cong_page(5) [of vb a ?m pd] pa by (simp add: to_enc_def)
      then show "(PGROUNDDOWN vb = a \<or> page_in (a + 4096) n vb \<and> to_enc m1 pd vb) =
          (page_in a (Suc n) vb \<and> to_enc ?m pd vb)"
        using Q [of vb] pin [of vb] by blast
    qed
    with r1 r2 show ?thesis by auto
  qed
qed

lemma uva2ka_mapped:
  assumes "pd_wf (mem s) pd" and "mapped (mem s) pd va" and "has (pte_at (mem s) pd va) PTE_U"
  shows "uva2ka pd va s = Inr (uframe (mem s) pd va)"
proof -
  have tab: "has_table (mem s) pd va" by (rule mapped_table [OF assms(2)])
  have l: "load32 (mem s) (pte_slot (mem s) pd va) = pte_at (mem s) pd va" using tab by (simp add: pte_at_def)
  have "(e AND 1) OR (e AND 1024) = e AND (1 OR 1024)" for e :: u32
    by (rule bit_word_eqI) (auto simp only: bit_or_iff bit_and_iff)
  then have "(pte_at (mem s) pd va AND 1) OR (pte_at (mem s) pd va AND 1024) \<noteq> 0"
    using assms(2) by (simp add: mapped_def has_def)
  then show ?thesis
    using assms(3) pte_slot_nonzero [OF assms(1) tab]
    by (simp add: uva2ka_def walkpgdir_lookup tab l has_and_0 uframe_def Let_def)
qed

lemma mencrypt_check_ok:
  assumes "aspace (mem s) pd" and "aligned a" and "unat a + 4096 * n \<le> 0x80000000"
    and "\<And>vb. page_in a n vb \<Longrightarrow> mapped (mem s) pd vb"
  shows "mencrypt_check n pd a s = Inr True"
  using assms(2-4)
proof (induction n arbitrary: a)
  case (Suc n)
  note pin = page_in_Suc [OF Suc.prems(1,2)]
  have map: "mapped (mem s) pd a" using Suc.prems(3) [of a] pin [of a] Suc.prems(1) by simp
  have ak: "a < KERNBASE" using Suc.prems(2) by (simp add: word_less_nat_alt)
  have wf: "pd_wf (mem s) pd" by (rule aspace_pd [OF assms(1)])
  have tab: "has_table (mem s) pd a" by (rule mapped_table [OF map])
  have l: "load32 (mem s) (pte_slot (mem s) pd a) = pte_at (mem s) pd a" using tab by (simp add: pte_at_def)
  have "aligned (a + 4096)" "unat (a + 4096) + 4096 * n \<le> 0x80000000"
    using Suc.prems(1,2) by (auto simp: unat_add_small)
  then have rest: "mencrypt_check n pd (a + 4096) s = Inr True"
    using Suc.prems(3) pin by (intro Suc.IH) auto
  show ?case
    using uva2ka_mapped [OF wf map] aspace_frame [OF assms(1) ak map] pte_slot_nonzero [OF wf tab] rest
    by (simp add: walkpgdir_lookup tab has_and_0 l)
qed simp

section \<open>mencrypt\<close>

text \<open>The running process and its address space.\<close>

definition running :: "nat \<Rightarrow> 'a kst_scheme \<Rightarrow> bool" where
  "running p s \<longleftrightarrow> cpu_proc s = Some p \<and> p < length (ptable s) \<and> kstack (proc_at p s) \<noteq> 0 \<and>
     pgdir (proc_at p s) \<noteq> 0 \<and> cr3 s = V2P (pgdir (proc_at p s)) \<and> aspace (mem s) (pgdir (proc_at p s))"

lemma proc_at_mem [simp]: "proc_at p (s\<lparr>mem := m\<rparr>) = proc_at p s" "proc_at p (s\<lparr>cr3 := c\<rparr>) = proc_at p s"
  by (simp_all add: proc_at_def)

lemma switchuvm_running:
  assumes "cpu_proc s = Some p" and "kstack (proc_at p s) \<noteq> 0" and "pgdir (proc_at p s) \<noteq> 0"
    and "cr3 s = V2P (pgdir (proc_at p s))"
  shows "\<exists>s'. switchuvm (cpu_proc s) s = Inr s' \<and> mem s' = mem s \<and> ptable s' = ptable s
    \<and> cpu_proc s' = cpu_proc s \<and> cr3 s' = cr3 s \<and> freelist s' = freelist s \<and> kend s' = kend s"
  using assms by (simp add: switchuvm_def)

lemma mencrypt_run:
  assumes r: "running p s" and range: "unat (PGROUNDDOWN va) + 4096 * nat len \<le> 0x80000000"
    and rdy: "\<And>vb. page_in (PGROUNDDOWN va) (nat len) vb \<Longrightarrow> enc_ready (mem s) (pgdir (proc_at p s)) vb"
  shows "\<exists>s'. mencrypt va len s = Inr (0, s') \<and> running p s' \<and> ptable s' = ptable s
    \<and> freelist s' = freelist s \<and> kend s' = kend s
    \<and> encrypts (\<lambda>vb. page_in (PGROUNDDOWN va) (nat len) vb \<and> to_enc (mem s) (pgdir (proc_at p s)) vb)
        (pgdir (proc_at p s)) (mem s) (mem s')"
proof -
  let ?pd = "pgdir (proc_at p s)"
  have as: "aspace (mem s) ?pd" and cp: "cpu_proc s = Some p" and c3: "cr3 s = V2P ?pd"
    using r by (simp_all add: running_def)
  have chk: "mencrypt_check (nat len) ?pd (PGROUNDDOWN va) s = Inr True"
    using rdy by (intro mencrypt_check_ok as range) (auto simp: enc_ready_def)
  obtain m' where m': "mencrypt_pages (nat len) ?pd (PGROUNDDOWN va) s = Inr (True, s\<lparr>mem := m'\<rparr>)"
    and e: "encrypts (\<lambda>vb. page_in (PGROUNDDOWN va) (nat len) vb \<and> to_enc (mem s) ?pd vb) ?pd (mem s) m'"
    using mencrypt_pages_run [OF as _ range c3 rdy] by auto
  obtain s' where s': "switchuvm (cpu_proc (s\<lparr>mem := m'\<rparr>)) (s\<lparr>mem := m'\<rparr>) = Inr s'" "mem s' = m'"
    "ptable s' = ptable s" "cpu_proc s' = Some p" "cr3 s' = cr3 s" "freelist s' = freelist s" "kend s' = kend s"
    using switchuvm_running [of "s\<lparr>mem := m'\<rparr>" p] r by (auto simp: running_def)
  have "mencrypt va len s = Inr (0, s')"
    using s'(1) by (simp add: mencrypt_def myproc_def cp chk m' Let_def)
  moreover have "running p s'"
    using r s' encryptsD(1) [OF e] by (simp add: running_def proc_at_def)
  ultimately show ?thesis using s' e by auto
qed

lemma plain_encrypts:
  assumes "aspace m pd" and "encrypts P pd m m'" and "vb < KERNBASE" and "mapped m pd vb"
    and P: "\<And>vc. P vc \<Longrightarrow> vc < KERNBASE \<and> mapped m pd vc \<and> \<not> has (pte_at m pd vc) PTE_E"
    and pages: "\<And>vc vd. PGROUNDDOWN vc = PGROUNDDOWN vd \<Longrightarrow> P vc = P vd"
  shows "plain m' pd vb = plain m pd vb"
proof -
  let ?x = "uframe m pd vb + OFFSET vb"
  have fr: "uframe m pd vb \<notin> table_frames m pd" using aspace_frame [OF assms(1,3,4)] by simp
  have px: "PGROUNDDOWN ?x = uframe m pd vb" by simp
  have ex: "(\<exists>vc. P vc \<and> uframe m pd vb = uframe m pd vc) \<longleftrightarrow> P vb"
  proof
    assume "\<exists>vc. P vc \<and> uframe m pd vb = uframe m pd vc"
    then obtain vc where vc: "P vc" "uframe m pd vb = uframe m pd vc" by blast
    then have "PGROUNDDOWN vb = PGROUNDDOWN vc" using P [of vc] by (intro aspace_inj [OF assms(1,3)] assms(4)) auto
    with vc(1) pages show "P vb" by blast
  qed blast
  have b: "m' ?x = (if P vb then m ?x XOR 0xFF else m ?x)"
    using encryptsD(6) [OF assms(2), of ?x] fr by (simp add: px ex)
  show ?thesis
    using P [of vb] by (cases "P vb")
      (simp_all add: plain_def encryptsD(5,7) [OF assms(2)] b enc_entry_facts [simplified] xor.assoc)
qed

lemma range_pages: "PGROUNDDOWN vc = PGROUNDDOWN vd \<Longrightarrow>
    (page_in a n vc \<and> to_enc m pd vc) = (page_in a n vd \<and> to_enc m pd vd)"
  using view_cong_page(5) [of vc vd m pd] by (simp add: page_in_def to_enc_def)

text \<open>C4. Encrypting a run of user pages succeeds, makes every page of the run that was
  accessible inaccessible (encrypted bit set, present bit clear) and changes no entry
  outside the run; and no user byte is lost: each byte of the address space still has the
  same plaintext.\<close>

theorem mencrypt_protects:
  assumes "running p s" and "unat (PGROUNDDOWN va) + 4096 * nat len \<le> 0x80000000"
    and "\<And>vb. page_in (PGROUNDDOWN va) (nat len) vb \<Longrightarrow> enc_ready (mem s) (pgdir (proc_at p s)) vb"
  defines "pd \<equiv> pgdir (proc_at p s)"
  shows "\<exists>s'. mencrypt va len s = Inr (0, s') \<and> running p s'
    \<and> (\<forall>vb. page_in (PGROUNDDOWN va) (nat len) vb \<and> to_enc (mem s) pd vb \<longrightarrow>
         has (pte_at (mem s') pd vb) PTE_E \<and> \<not> has (pte_at (mem s') pd vb) PTE_P)
    \<and> (\<forall>vb. \<not> page_in (PGROUNDDOWN va) (nat len) vb \<longrightarrow> pte_at (mem s') pd vb = pte_at (mem s) pd vb)
    \<and> (\<forall>vb<KERNBASE. mapped (mem s) pd vb \<longrightarrow> plain (mem s') pd vb = plain (mem s) pd vb)"
proof -
  let ?P = "\<lambda>vb. page_in (PGROUNDDOWN va) (nat len) vb \<and> to_enc (mem s) pd vb"
  obtain s' where s': "mencrypt va len s = Inr (0, s')" "running p s'" "encrypts ?P pd (mem s) (mem s')"
    using mencrypt_run [OF assms(1-3)] unfolding pd_def by blast
  have as: "aspace (mem s) pd" using assms(1) by (simp add: running_def pd_def)
  have P: "?P vc \<Longrightarrow> vc < KERNBASE \<and> mapped (mem s) pd vc \<and> \<not> has (pte_at (mem s) pd vc) PTE_E" for vc
    using page_in_below [OF assms(2), of vc] assms(3) [of vc] by (auto simp: enc_ready_def to_enc_def pd_def)
  have "plain (mem s') pd vb = plain (mem s) pd vb" if "vb < KERNBASE" "mapped (mem s) pd vb" for vb
    by (rule plain_encrypts [OF as s'(3) that P range_pages])
  moreover have "has (pte_at (mem s') pd vb) PTE_E \<and> \<not> has (pte_at (mem s') pd vb) PTE_P" if "?P vb" for vb
    using that by (simp only: encryptsD(5) [OF s'(3)] enc_entry_facts if_True simp_thms)
  moreover have "\<not> page_in (PGROUNDDOWN va) (nat len) vb \<Longrightarrow> pte_at (mem s') pd vb = pte_at (mem s) pd vb" for vb
    by (simp only: encryptsD(5) [OF s'(3)] simp_thms if_False)
  ultimately show ?thesis using s'(1,2) by blast
qed

section \<open>A running process\<close>

definition proc0 :: proc where
  "proc0 = \<lparr>sz = 4096, pgdir = 0x80300000, kstack = 0x80600000, pstate = RUNNING, pid = 1, parent = None,
     tf = 0x80600FB4, pcontext = 0, pchan = None, killed = False, ofile = replicate 16 None, cwd = None,
     pname = [], nodes = replicate 8 0, inClock = 0, currInd = 0\<rparr>"

definition kst0 :: "u32 \<Rightarrow> kst" where
  "kst0 e = \<lparr>mem = one_page e, freelist = 0, use_lock = True, cr3 = 0x300000, kend = 0x80119f48, kdata = 0x8010b000,
     ptable = [proc0], cpu_proc = Some 0, nextpid = 2, initproc = Some 0, ticks = 0, gdt = [], ts_ss0 = 0, ts_esp0 = 0,
     ts_iomb = 0, cpu_ts = 0, kpgdir = 0, ktrapret = 0, kforkret = 0\<rparr>"

lemma kst0_simps [simp]:
  "mem (kst0 e) = one_page e" "proc_at 0 (kst0 e) = proc0" "cpu_proc (kst0 e) = Some 0"
  "ptable (kst0 e) = [proc0]" "cr3 (kst0 e) = 0x300000"
  by (simp_all add: kst0_def proc_at_def)

lemma proc0_simps [simp]: "pgdir proc0 = 0x80300000" "kstack proc0 = 0x80600000" "inClock proc0 = 0"
  "nodes proc0 = replicate 8 0" "currInd proc0 = 0" "sz proc0 = 4096"
  by (simp_all add: proc0_def)

lemma one_page_aspace:
  assumes "P2V (PTE_ADDR e) \<notin> {0, 0x80300000, 0x80400000}"
  shows "aspace (one_page e) 0x80300000"
proof -
  have m: "mapped (one_page e) 0x80300000 va \<Longrightarrow> PGROUNDDOWN va = 0" for va
    by (auto simp: mapped_def one_page_view has_def split: if_splits)
  have u: "PGROUNDDOWN va = 0 \<Longrightarrow> uframe (one_page e) 0x80300000 va = P2V (PTE_ADDR e)" for va
    by (simp add: uframe_def one_page_view)
  show ?thesis
    unfolding aspace_def one_page_view using m u assms by (auto simp: one_page_view)
qed

lemma kst0_running: "P2V (PTE_ADDR e) \<notin> {0, 0x80300000, 0x80400000} \<Longrightarrow> running 0 (kst0 e)"
  by (simp add: running_def one_page_aspace V2P_def)

lemma one_page_pde: "PGROUNDDOWN va = 0 \<Longrightarrow> pde_at (one_page e) 0x80300000 va = 0x400007"
proof -
  let ?m = "install (\<lambda>_. 0) 0x80300000 0 0x80400000"
  assume "PGROUNDDOWN va = 0"
  then have p: "PDX va = 0" using page_eq_iff [of va 0] by (simp add: PDX_def PTX_def PGROUNDDOWN_def)
  have a: "aligned 0x80300000" "aligned 0x80400000" by (simp_all add: aligned_def)
  have z: "PDX 0 = 0" by (simp add: PDX_def)
  have iv: "pd_wf ?m 0x80300000" "has_table ?m 0x80300000 0"
    using install_view(1,4) [OF zero_mem_view(5) [OF a(1)] zero_mem_view(2) a(2), of 0, unfolded zero_mem_view(4)]
    by simp_all
  have "pde_at (one_page e) 0x80300000 va = pde_at ?m 0x80300000 va"
    unfolding one_page_def Let_def by (rule store_pte_view(2) [OF iv])
  then show ?thesis
    by (simp add: pde_at_def install_def p z V2P_def)
qed

theorem mencrypt_protects_witness:
  "\<exists>s'. mencrypt 0x123 1 (kst0 0x500007) = Inr (0, s')
    \<and> \<not> has (pte_at (mem s') 0x80300000 0x123) PTE_P \<and> plain (mem s') 0x80300000 0x123 = plain (one_page 0x500007) 0x80300000 0x123"
proof -
  have r: "PGROUNDDOWN 0x123 = (0 :: u32)" by (simp add: PGROUNDDOWN_def)
  have pin: "page_in 0 (Suc 0) vb \<longleftrightarrow> PGROUNDDOWN vb = 0" for vb
  proof -
    have "unat (PGROUNDDOWN vb) < 4096 \<Longrightarrow> PGROUNDDOWN vb = 0"
      using aligned_ge_page [of "PGROUNDDOWN vb"] by (cases "PGROUNDDOWN vb = 0") auto
    then show ?thesis by (auto simp: page_in_def)
  qed
  have run: "running 0 (kst0 0x500007)" by (rule kst0_running) (simp add: PTE_ADDR_def P2V_def)
  have rdy: "enc_ready (one_page 0x500007) 0x80300000 vb" if "PGROUNDDOWN vb = 0" for vb
    using that by (simp add: enc_ready_def mapped_def one_page_view one_page_pde has_def)
  have hyp: "page_in (PGROUNDDOWN 0x123) (nat 1) vb \<Longrightarrow>
      enc_ready (mem (kst0 0x500007)) (pgdir (proc_at 0 (kst0 0x500007))) vb" for vb
    using rdy [of vb] by (simp add: r pin)
  have le: "unat (PGROUNDDOWN (0x123 :: u32)) + 4096 * nat 1 \<le> 0x80000000" by (simp add: r)
  have t: "to_enc (one_page 0x500007) 0x80300000 0x123" "mapped (one_page 0x500007) 0x80300000 0x123"
    by (simp_all add: to_enc_def mapped_def one_page_view r has_def)
  obtain s' where s': "mencrypt 0x123 1 (kst0 0x500007) = Inr (0, s')"
    "\<forall>vb. page_in 0 (Suc 0) vb \<and> to_enc (one_page 0x500007) 0x80300000 vb \<longrightarrow>
       has (pte_at (mem s') 0x80300000 vb) PTE_E \<and> \<not> has (pte_at (mem s') 0x80300000 vb) PTE_P"
    "\<forall>vb<KERNBASE. mapped (one_page 0x500007) 0x80300000 vb \<longrightarrow>
       plain (mem s') 0x80300000 vb = plain (one_page 0x500007) 0x80300000 vb"
    using mencrypt_protects [OF run le hyp] unfolding r kst0_simps proc0_simps by auto
  have "(0x123 :: u32) < KERNBASE" by simp
  with s' t pin [of "0x123"] r show ?thesis by blast
qed

end
