(* ===== verification/Crypt_Dec.thy ===== *)
theory Crypt_Dec
  imports Crypt_Enc
begin

text \<open>
  Decrypting a page, up to the clock: what \<open>mdecrypt\<close> does to the entry and the bytes of the page
  that faulted, and the case in which it gives up half way.
\<close>

definition dec_entry :: "u32 \<Rightarrow> u32" where
  "dec_entry e = (e AND NOT PTE_E) OR PTE_P"

lemma bit_dec_entry: "n < 32 \<Longrightarrow> bit (dec_entry e) n \<longleftrightarrow> n = 0 \<or> bit e n \<and> n \<noteq> 10"
  by (auto simp only: dec_entry_def PTE_E_def PTE_P_def entry_bits possible_bit_word len_of_numeral_defs)

lemma dec_entry_facts:
  "PTE_ADDR (dec_entry e) = PTE_ADDR e" "\<not> has (dec_entry e) PTE_E" "has (dec_entry e) PTE_P"
  "has (dec_entry e) (PTE_P OR PTE_E)" "has (dec_entry e) PTE_U = has e PTE_U" "has (dec_entry e) PTE_W = has e PTE_W"
  by (auto intro!: bit_word_eqI simp: bit_PTE_ADDR bit_dec_entry has_P has_PE)

lemma or_60_facts:
  "PTE_ADDR (e OR 0x60) = PTE_ADDR e" "has (e OR 0x60) PTE_E = has e PTE_E" "has (e OR 0x60) PTE_P = has e PTE_P"
  "has (e OR 0x60) (PTE_P OR PTE_E) = has e (PTE_P OR PTE_E)" "has (e OR 0x60) PTE_U = has e PTE_U"
  "has (e OR 0x60) PTE_W = has e PTE_W"
  by (simp_all add: PTE_ADDR_or_low has_PE entry_bits)

text \<open>A page that \<open>mdecrypt\<close> can open.\<close>

definition dec_ready :: "memory \<Rightarrow> u32 \<Rightarrow> u32 \<Rightarrow> bool" where
  "dec_ready m pd va \<longleftrightarrow> has (pte_at m pd va) PTE_E \<and> has (pte_at m pd va) PTE_U \<and>
     has (pte_at m pd va) PTE_W \<and> has (pde_at m pd va) PTE_W"

lemma dec_ready_mapped: "dec_ready m pd va \<Longrightarrow> mapped m pd va"
  by (simp add: dec_ready_def mapped_def has_PE)

text \<open>The entry after the flags are flipped, before the bytes are.\<close>

lemma mdecrypt_flags:
  assumes r: "running p s" and va: "va < KERNBASE" and rdy: "dec_ready (mem s) (pgdir (proc_at p s)) va"
  defines "pd \<equiv> pgdir (proc_at p s)"
  obtains m1 where "tab_upd dec_entry pd va (mem s) m1" "changes (table_frames (mem s) pd) (mem s) m1"
    "uframe m1 pd va = uframe (mem s) pd va"
    "mdecrypt va s =
      (if m1 (uframe (mem s) pd va) = 0 then Inr (-1, s\<lparr>mem := m1\<rparr>)
       else bindE (flip_bytes 4096 (PGROUNDDOWN va) (s\<lparr>mem := m1\<rparr>)) (\<lambda>s.
         bindE (clock_add p pd (PGROUNDDOWN va) s) (\<lambda>s.
         bindE (switchuvm (cpu_proc s) s) (\<lambda>s. Inr (0, s)))))"
proof -
  let ?m = "mem s" and ?e = "pte_at (mem s) pd va"
  have as: "aspace ?m pd" and cp: "cpu_proc s = Some p" using r by (simp_all add: running_def pd_def)
  have wf: "pd_wf ?m pd" by (rule aspace_pd [OF as])
  have map: "mapped ?m pd va" using dec_ready_mapped [OF rdy] by (simp add: pd_def)
  have tab: "has_table ?m pd va" by (rule mapped_table [OF map])
  have l: "load32 ?m (pte_slot ?m pd va) = ?e" using tab by (simp add: pte_at_def)
  define m1 where "m1 = store32 ?m (pte_slot ?m pd va) (dec_entry ?e)"
  have t1: "tab_upd dec_entry pd va ?m m1"
    unfolding m1_def by (rule tab_upd_const [OF store_pte_upd [OF wf tab]])
  have ch: "changes (table_frames ?m pd) ?m m1"
    unfolding m1_def by (rule changes_mono [OF store_pte_changes]) (simp add: pgtab_in_table_frames [OF tab])
  have g: "PTE_ADDR (dec_entry ?e) = PTE_ADDR ?e" "has (dec_entry ?e) (PTE_P OR PTE_E) = has ?e (PTE_P OR PTE_E)"
    using map unfolding mapped_def by (simp_all only: dec_entry_facts simp_thms)
  note as1 = tab_upd_aspace [OF as t1 g]
  have e1: "pte_at m1 pd va = dec_entry ?e" using t1 by (simp add: tab_upd_def)
  have U1: "has (pte_at m1 pd va) PTE_U" unfolding e1 dec_entry_facts using rdy by (simp only: dec_ready_def pd_def)
  have ka: "uva2ka pd vb (s\<lparr>mem := m1\<rparr>) = Inr (uframe ?m pd va)" if "PGROUNDDOWN vb = PGROUNDDOWN va" for vb
  proof -
    have "pte_at m1 pd vb = pte_at m1 pd va" "uframe ?m pd vb = uframe ?m pd va"
      using view_cong_page(5) [OF that] by (simp_all add: uframe_def)
    moreover have "mapped ?m pd vb = mapped ?m pd va" using view_cong_page(5) [OF that, of ?m pd] by (simp add: mapped_def)
    ultimately show ?thesis
      using uva2ka_mapped [of "s\<lparr>mem := m1\<rparr>" pd vb] U1 as1(2,3) [of vb] map aspace_pd [OF as1(1)] by simp
  qed
  have nz: "uframe ?m pd va \<noteq> 0" using aspace_frame [OF as va map] by simp
  have E: "has ?e PTE_E" "has ?e PTE_U" using rdy by (simp_all only: dec_ready_def pd_def)
  then have "?e \<noteq> 0" by (auto simp: has_def)
  then have "mdecrypt va s =
      (if m1 (uframe ?m pd va) = 0 then Inr (-1, s\<lparr>mem := m1\<rparr>)
       else bindE (flip_bytes 4096 (PGROUNDDOWN va) (s\<lparr>mem := m1\<rparr>)) (\<lambda>s.
         bindE (clock_add p pd (PGROUNDDOWN va) s) (\<lambda>s.
         bindE (switchuvm (cpu_proc s) s) (\<lambda>s. Inr (0, s)))))"
    using E ka [of va] ka [of "PGROUNDDOWN va"] pte_slot_nonzero [OF wf tab] nz
    unfolding mdecrypt_def myproc_def cp
    by (simp add: pd_def [symmetric] Let_def walkpgdir_lookup tab l store32_twice has_and_0 m1_def [unfolded dec_entry_def, simplified, symmetric])
  then show ?thesis by (rule that [OF t1 ch as1(2)])
qed

text \<open>Opening a page: the entry becomes present, the bytes become the plaintext.\<close>

definition open_entry :: "u32 \<Rightarrow> u32" where
  "open_entry e = dec_entry e OR 0x60"

lemma open_entry_facts:
  "PTE_ADDR (open_entry e) = PTE_ADDR e" "\<not> has (open_entry e) PTE_E" "has (open_entry e) PTE_P"
  "has (open_entry e) (PTE_P OR PTE_E)" "has (open_entry e) PTE_U = has e PTE_U" "has (open_entry e) PTE_W = has e PTE_W"
  unfolding open_entry_def by (simp_all only: or_60_facts dec_entry_facts simp_thms)

lemma mdecrypt_open:
  assumes r: "running p s" and va: "va < KERNBASE" and rdy: "dec_ready (mem s) (pgdir (proc_at p s)) va"
    and first: "mem s (uframe (mem s) (pgdir (proc_at p s)) va) \<noteq> 0"
  defines "pd \<equiv> pgdir (proc_at p s)"
  obtains m' where "tab_upd open_entry pd va (mem s) m'"
    "\<And>x. PGROUNDDOWN x \<notin> table_frames (mem s) pd \<Longrightarrow>
       m' x = (if PGROUNDDOWN x = uframe (mem s) pd va then mem s x XOR 0xFF else mem s x)"
    "mdecrypt va s = bindE (clock_add p pd (PGROUNDDOWN va) (s\<lparr>mem := m'\<rparr>)) (\<lambda>s.
         bindE (switchuvm (cpu_proc s) s) (\<lambda>s. Inr (0, s)))"
proof -
  let ?m = "mem s" and ?f = "uframe (mem s) pd va"
  have as: "aspace ?m pd" and c3: "cr3 s = V2P pd" using r by (simp_all add: running_def pd_def)
  have map: "mapped ?m pd va" using dec_ready_mapped [OF rdy] by (simp add: pd_def)
  have fr: "?f \<notin> table_frames ?m pd" using aspace_frame [OF as va map] by simp
  obtain m1 where m1: "tab_upd dec_entry pd va ?m m1" "changes (table_frames ?m pd) ?m m1" "uframe m1 pd va = ?f"
    "mdecrypt va s =
      (if m1 ?f = 0 then Inr (-1, s\<lparr>mem := m1\<rparr>)
       else bindE (flip_bytes 4096 (PGROUNDDOWN va) (s\<lparr>mem := m1\<rparr>)) (\<lambda>s.
         bindE (clock_add p pd (PGROUNDDOWN va) s) (\<lambda>s.
         bindE (switchuvm (cpu_proc s) s) (\<lambda>s. Inr (0, s)))))"
    using mdecrypt_flags [OF r va rdy] unfolding pd_def by blast
  have b1: "m1 x = ?m x" if "PGROUNDDOWN x \<notin> table_frames ?m pd" for x using changesD [OF m1(2) that] .
  have e1: "pte_at m1 pd va = dec_entry (pte_at ?m pd va)" and tf: "table_frames m1 pd = table_frames ?m pd"
    and wf1: "pd_wf m1 pd" and tab1: "has_table m1 pd va" and pw: "has (pde_at m1 pd va) PTE_W"
    using m1(1) mapped_table [OF map] rdy unfolding tab_upd_def dec_ready_def pd_def by auto
  have "has (pte_at m1 pd va) PTE_P" "has (pte_at m1 pd va) PTE_W"
    unfolding e1 using rdy by (simp_all only: dec_entry_facts dec_ready_def pd_def)
  then have "writable_page m1 pd va"
    using wf1 tab1 pw fr tf m1(3) by (simp only: writable_page_def simp_thms)
  then have w: "writable_page (mem (s\<lparr>mem := m1\<rparr>)) pd (PGROUNDDOWN va)"
    using writable_page_cong [of "PGROUNDDOWN va" va] by simp
  have c3': "cr3 (s\<lparr>mem := m1\<rparr>) = V2P pd" using c3 by simp
  let ?s1 = "s\<lparr>mem := m1\<rparr>"
  obtain m2 where m2: "flip_bytes 4096 (PGROUNDDOWN va) ?s1 = Inr (?s1\<lparr>mem := m2\<rparr>)"
    and m2t: "touched 0x60 pd (PGROUNDDOWN va) (mem ?s1) m2"
    and m2b: "\<And>x. PGROUNDDOWN x \<notin> table_frames (mem ?s1) pd \<Longrightarrow>
       m2 x = (if PGROUNDDOWN x = uframe (mem ?s1) pd (PGROUNDDOWN va) then mem ?s1 x XOR 0xFF else mem ?s1 x)"
    using flip_page [OF aligned_PGROUNDDOWN w c3'] by blast
  have "touched 0x60 pd va m1 m2" using m2t unfolding tab_upd_def by simp
  from tab_upd_trans [OF m1(1) this] have t: "tab_upd open_entry pd va ?m m2"
    unfolding open_entry_def .
  have b: "m2 x = (if PGROUNDDOWN x = ?f then ?m x XOR 0xFF else ?m x)" if "PGROUNDDOWN x \<notin> table_frames ?m pd" for x
    using m2b [of x] b1 [OF that] that tf m1(3) by simp
  have "m1 ?f \<noteq> 0" using first b1 [of ?f] fr by (simp add: pd_def)
  then have fin: "mdecrypt va s = bindE (clock_add p pd (PGROUNDDOWN va) (s\<lparr>mem := m2\<rparr>)) (\<lambda>s.
         bindE (switchuvm (cpu_proc s) s) (\<lambda>s. Inr (0, s)))"
    using m1(4) m2 by simp
  show ?thesis by (rule that [of m2], rule t, erule b, rule fin)
qed

section \<open>A page whose first byte is 0xFF\<close>

lemma flip_255: "b XOR 0xFF = (0xFF :: u8) \<Longrightarrow> b = 0"
proof -
  assume a: "b XOR 0xFF = (0xFF :: u8)"
  have "b = (b XOR 0xFF) XOR 0xFF" by (simp add: xor.assoc)
  also have "\<dots> = 0" unfolding a by simp
  finally show ?thesis .
qed

text \<open>C11. A user page whose first plaintext byte is 0xFF is stored with a first byte of 0.
  When it faults, \<open>mdecrypt\<close> returns -1, and it has already made the page present and cleared
  the encrypted bit without decrypting it: every byte of the page now reads as its
  complement.\<close>

theorem mdecrypt_gives_up_half_way:
  assumes r: "running p s" and va: "va < KERNBASE" and rdy: "dec_ready (mem s) (pgdir (proc_at p s)) va"
    and first: "plain (mem s) (pgdir (proc_at p s)) (PGROUNDDOWN va) = 0xFF"
  shows "\<exists>s'. mdecrypt va s = Inr (-1, s')
    \<and> has (pte_at (mem s') (pgdir (proc_at p s)) va) PTE_P \<and> \<not> has (pte_at (mem s') (pgdir (proc_at p s)) va) PTE_E
    \<and> plain (mem s') (pgdir (proc_at p s)) va = plain (mem s) (pgdir (proc_at p s)) va XOR 0xFF"
proof -
  define pd where "pd = pgdir (proc_at p s)"
  let ?f = "uframe (mem s) pd va"
  have as: "aspace (mem s) pd" using r by (simp_all add: running_def pd_def)
  have map: "mapped (mem s) pd va" using dec_ready_mapped [OF rdy] by (simp add: pd_def)
  have fr: "?f \<notin> table_frames (mem s) pd" using aspace_frame [OF as va map] by simp
  obtain m1 where m1: "tab_upd dec_entry pd va (mem s) m1" "changes (table_frames (mem s) pd) (mem s) m1"
    "uframe m1 pd va = ?f"
    and dm: "mdecrypt va s =
      (if m1 ?f = 0 then Inr (-1, s\<lparr>mem := m1\<rparr>)
       else bindE (flip_bytes 4096 (PGROUNDDOWN va) (s\<lparr>mem := m1\<rparr>)) (\<lambda>s.
         bindE (clock_add p pd (PGROUNDDOWN va) s) (\<lambda>s.
         bindE (switchuvm (cpu_proc s) s) (\<lambda>s. Inr (0, s)))))"
    using mdecrypt_flags [OF r va rdy] unfolding pd_def by blast
  have E: "has (pte_at (mem s) pd va) PTE_E" using rdy by (simp only: dec_ready_def pd_def)
  have e1: "pte_at m1 pd va = dec_entry (pte_at (mem s) pd va)" using m1(1) by (simp add: tab_upd_def)
  have b1: "m1 x = mem s x" if "PGROUNDDOWN x = ?f" for x
    by (rule changesD [OF m1(2)]) (use fr that in simp)
  have "mem s ?f XOR 0xFF = 0xFF"
    using first E by (simp add: plain_def pd_def)
  then have "mem s ?f = 0" by (rule flip_255)
  then have d: "mdecrypt va s = Inr (-1, s\<lparr>mem := m1\<rparr>)" using dm b1 [of ?f] by simp
  have "plain m1 pd va = plain (mem s) pd va XOR 0xFF"
    using E b1 [of "?f + OFFSET va"] dec_entry_facts(2) [of "pte_at (mem s) pd va"]
    by (simp add: plain_def e1 m1(3) xor.assoc)
  moreover have "has (pte_at m1 pd va) PTE_P" "\<not> has (pte_at m1 pd va) PTE_E"
    unfolding e1 by (simp_all only: dec_entry_facts simp_thms)
  ultimately show ?thesis
    unfolding pd_def [symmetric] by (intro exI [of _ "s\<lparr>mem := m1\<rparr>"]) (simp add: d)
qed

text \<open>A page of zeroes under the encrypted bit is a page of 0xFF.\<close>

theorem mdecrypt_gives_up_half_way_witness:
  "\<exists>s'. mdecrypt 0x123 (kst0 0x500406) = Inr (-1, s') \<and> has (pte_at (mem s') 0x80300000 0x123) PTE_P"
proof -
  have r: "PGROUNDDOWN 0x123 = (0 :: u32)" "PGROUNDDOWN 0 = (0 :: u32)" by (simp_all add: PGROUNDDOWN_def)
  have run: "running 0 (kst0 0x500406)" by (rule kst0_running) (simp add: PTE_ADDR_def P2V_def)
  have rdy: "dec_ready (one_page 0x500406) 0x80300000 0x123"
    by (simp add: dec_ready_def one_page_view one_page_pde r has_def)
  have u: "uframe (one_page 0x500406) 0x80300000 0 = 0x80500000"
    by (simp add: uframe_def one_page_view r PTE_ADDR_def P2V_def)
  have "one_page e 0x80500000 = 0" for e
  proof -
    let ?m = "install (\<lambda>_. 0) 0x80300000 0 0x80400000"
    have a: "aligned 0x80300000" "aligned 0x80400000" by (simp_all add: aligned_def)
    have z: "PDX 0 = 0" "PGROUNDDOWN 0x80500000 = (0x80500000 :: u32)" by (simp_all add: PDX_def PGROUNDDOWN_def)
    have "pgtab_at ?m 0x80300000 0 = 0x80400000"
      using install_view(2) [OF zero_mem_view(5) [OF a(1)] zero_mem_view(2) a(2), of 0 0, unfolded zero_mem_view(4)]
      by simp
    then have "one_page e 0x80500000 = ?m 0x80500000"
      using changesD [OF store_pte_changes [of ?m "0x80300000" 0 e], of "0x80500000"]
      by (simp add: one_page_def Let_def z)
    also have "\<dots> = 0"
      using changesD [OF install_changes [OF a(2,1), of "\<lambda>_. 0" 0], of "0x80500000"] by (simp add: z)
    finally show ?thesis .
  qed
  then have first: "plain (one_page 0x500406) 0x80300000 0 = 0xFF"
    by (simp add: plain_def u one_page_view r has_def OFFSET_def)
  have "(0x123 :: u32) < KERNBASE" by simp
  then show ?thesis
    using mdecrypt_gives_up_half_way [OF run, of "0x123"] rdy first by (auto simp: r)
qed

end
