(* ===== verification/Crypt_Clock.thy ===== *)
theory Crypt_Clock
  imports Crypt_Dec
begin

text \<open>
  The clock of decrypted pages. \<open>clock_inv\<close> says that the first \<open>inClock\<close> nodes of a
  process are exactly its decrypted user pages; \<open>mdecrypt\<close> keeps it, so that a process
  never has more than \<open>CLOCKSIZE\<close> decrypted pages.
\<close>

section \<open>The invariant\<close>

definition decrypted :: "memory \<Rightarrow> u32 \<Rightarrow> u32 \<Rightarrow> bool" where
  "decrypted m pd va \<longleftrightarrow> va < KERNBASE \<and> mapped m pd va \<and> has (pte_at m pd va) PTE_U \<and> \<not> has (pte_at m pd va) PTE_E"

text \<open>Every user page is writable, under a writable directory entry, and either present or encrypted.\<close>

definition user_ready :: "memory \<Rightarrow> u32 \<Rightarrow> bool" where
  "user_ready m pd \<longleftrightarrow> (\<forall>va<KERNBASE. mapped m pd va \<longrightarrow> has (pde_at m pd va) PTE_W \<and> has (pte_at m pd va) PTE_W \<and>
     (has (pte_at m pd va) PTE_E \<longleftrightarrow> \<not> has (pte_at m pd va) PTE_P))"

definition live_nodes :: "proc \<Rightarrow> u32 list" where
  "live_nodes q = take (nat (inClock q)) (nodes q)"

definition clock_wf :: "proc \<Rightarrow> bool" where
  "clock_wf q \<longleftrightarrow> length (nodes q) = 8 \<and> 0 \<le> inClock q \<and> inClock q \<le> 8 \<and> 0 \<le> currInd q \<and> currInd q \<le> 8 \<and>
     (inClock q < 8 \<longrightarrow> 0 < inClock q \<longrightarrow> currInd q = inClock q) \<and> distinct (live_nodes q)"

definition clock_inv :: "nat \<Rightarrow> 'a kst_scheme \<Rightarrow> bool" where
  "clock_inv p s \<longleftrightarrow> running p s \<and> user_ready (mem s) (pgdir (proc_at p s)) \<and> clock_wf (proc_at p s) \<and>
     (\<forall>va. va \<in> set (live_nodes (proc_at p s)) \<longleftrightarrow> aligned va \<and> decrypted (mem s) (pgdir (proc_at p s)) va)"

lemma clock_bound:
  assumes "clock_inv p s"
  shows "card {va. aligned va \<and> decrypted (mem s) (pgdir (proc_at p s)) va} \<le> CLOCKSIZE"
proof -
  have "{va. aligned va \<and> decrypted (mem s) (pgdir (proc_at p s)) va} = set (live_nodes (proc_at p s))"
    using assms by (auto simp: clock_inv_def)
  moreover have "length (live_nodes (proc_at p s)) \<le> 8"
    using assms by (simp add: clock_inv_def clock_wf_def live_nodes_def)
  ultimately show ?thesis
    using card_length [of "live_nodes (proc_at p s)"] by (simp add: le_trans)
qed

section \<open>Changes of accessed bits\<close>

text \<open>Two memories that differ in accessed bits of entries only.\<close>

definition same_user :: "u32 \<Rightarrow> memory \<Rightarrow> memory \<Rightarrow> bool" where
  "same_user pd m m' \<longleftrightarrow> aspace m' pd \<and> table_frames m' pd = table_frames m pd \<and>
     (\<forall>vb. has_table m' pd vb = has_table m pd vb \<and> has (pde_at m' pd vb) PTE_W = has (pde_at m pd vb) PTE_W \<and>
        (pte_at m' pd vb = pte_at m pd vb \<or> pte_at m' pd vb = pte_at m pd vb AND NOT PTE_A)) \<and>
     (\<forall>x. PGROUNDDOWN x \<notin> table_frames m pd \<longrightarrow> m' x = m x)"

lemma andn_A_facts:
  "PTE_ADDR (e AND NOT PTE_A) = PTE_ADDR e" "has (e AND NOT PTE_A) PTE_E = has e PTE_E"
  "has (e AND NOT PTE_A) PTE_P = has e PTE_P" "has (e AND NOT PTE_A) (PTE_P OR PTE_E) = has e (PTE_P OR PTE_E)"
  "has (e AND NOT PTE_A) PTE_U = has e PTE_U" "has (e AND NOT PTE_A) PTE_W = has e PTE_W" "\<not> has (e AND NOT PTE_A) PTE_A"
proof -
  have b: "n < 32 \<Longrightarrow> bit (e AND NOT PTE_A) n \<longleftrightarrow> bit e n \<and> n \<noteq> 5" for n
    by (auto simp only: PTE_A_def entry_bits possible_bit_word len_of_numeral_defs)
  show "PTE_ADDR (e AND NOT PTE_A) = PTE_ADDR e"
    by (rule bit_word_eqI) (auto simp only: bit_PTE_ADDR b len_of_numeral_defs)
  show "has (e AND NOT PTE_A) PTE_E = has e PTE_E" "has (e AND NOT PTE_A) PTE_P = has e PTE_P"
    "has (e AND NOT PTE_A) (PTE_P OR PTE_E) = has e (PTE_P OR PTE_E)" "has (e AND NOT PTE_A) PTE_U = has e PTE_U"
    "has (e AND NOT PTE_A) PTE_W = has e PTE_W" "\<not> has (e AND NOT PTE_A) PTE_A"
    using b [of 10] b [of 0] b [of 2] b [of 1] b [of 5]
    unfolding PTE_E_def PTE_P_def PTE_U_def PTE_W_def has_bits has_P has_PE by simp_all
qed

lemma same_userD:
  assumes "same_user pd m m'"
  shows "aspace m' pd" "table_frames m' pd = table_frames m pd" "has_table m' pd vb = has_table m pd vb"
    "has (pde_at m' pd vb) PTE_W = has (pde_at m pd vb) PTE_W"
    "uframe m' pd vb = uframe m pd vb" "mapped m' pd vb = mapped m pd vb"
    "has (pte_at m' pd vb) PTE_E = has (pte_at m pd vb) PTE_E" "has (pte_at m' pd vb) PTE_P = has (pte_at m pd vb) PTE_P"
    "has (pte_at m' pd vb) PTE_U = has (pte_at m pd vb) PTE_U" "has (pte_at m' pd vb) PTE_W = has (pte_at m pd vb) PTE_W"
    "PGROUNDDOWN x \<notin> table_frames m pd \<Longrightarrow> m' x = m x"
    "\<not> has (pte_at m pd vb) PTE_A \<Longrightarrow> \<not> has (pte_at m' pd vb) PTE_A"
proof -
  have "pte_at m' pd vb = pte_at m pd vb \<or> pte_at m' pd vb = pte_at m pd vb AND NOT PTE_A"
    using assms unfolding same_user_def by blast
  then show "uframe m' pd vb = uframe m pd vb" "mapped m' pd vb = mapped m pd vb"
    "has (pte_at m' pd vb) PTE_E = has (pte_at m pd vb) PTE_E" "has (pte_at m' pd vb) PTE_P = has (pte_at m pd vb) PTE_P"
    "has (pte_at m' pd vb) PTE_U = has (pte_at m pd vb) PTE_U" "has (pte_at m' pd vb) PTE_W = has (pte_at m pd vb) PTE_W"
    "\<not> has (pte_at m pd vb) PTE_A \<Longrightarrow> \<not> has (pte_at m' pd vb) PTE_A"
    unfolding uframe_def mapped_def using andn_A_facts by metis+
qed (use assms in \<open>unfold same_user_def, blast+\<close>)

lemma same_user_refl: "aspace m pd \<Longrightarrow> same_user pd m m"
  by (simp add: same_user_def)

lemma andn_A_twice: "(e AND NOT PTE_A) AND NOT PTE_A = e AND NOT PTE_A"
  by (simp add: and.assoc)

lemma same_user_trans:
  assumes "same_user pd m m1" and "same_user pd m1 m2"
  shows "same_user pd m m2"
proof -
  have "pte_at m2 pd vb = pte_at m pd vb \<or> pte_at m2 pd vb = pte_at m pd vb AND NOT PTE_A" for vb
  proof -
    have "pte_at m1 pd vb = pte_at m pd vb \<or> pte_at m1 pd vb = pte_at m pd vb AND NOT PTE_A"
      "pte_at m2 pd vb = pte_at m1 pd vb \<or> pte_at m2 pd vb = pte_at m1 pd vb AND NOT PTE_A"
      using assms unfolding same_user_def by blast+
    then show ?thesis using andn_A_twice by metis
  qed
  then show ?thesis
    unfolding same_user_def same_userD(2-4) [OF assms(2)] same_userD(2-4) [OF assms(1)]
    using same_userD(1,11) [OF assms(2)] same_userD(2,11) [OF assms(1)] by simp
qed

lemma clear_A_same_user:
  assumes as: "aspace m pd" and map: "mapped m pd va"
  defines "m' \<equiv> store32 m (pte_slot m pd va) (pte_at m pd va AND NOT PTE_A)"
  shows "same_user pd m m'" and "\<not> has (pte_at m' pd va) PTE_A"
proof -
  have wf: "pd_wf m pd" by (rule aspace_pd [OF as])
  have tab: "has_table m pd va" by (rule mapped_table [OF map])
  have t: "tab_upd (\<lambda>e. e AND NOT PTE_A) pd va m m'"
    unfolding m'_def by (rule tab_upd_const [OF store_pte_upd [OF wf tab]])
  have ch: "changes (table_frames m pd) m m'"
    unfolding m'_def by (rule changes_mono [OF store_pte_changes]) (simp add: pgtab_in_table_frames [OF tab])
  note as' = tab_upd_aspace(1) [OF as t andn_A_facts(1,4)]
  show "same_user pd m m'"
    using t as' changesD [OF ch] unfolding same_user_def tab_upd_def by simp
  have "pte_at m' pd va = pte_at m pd va AND NOT PTE_A" using t unfolding tab_upd_def by simp
  then show "\<not> has (pte_at m' pd va) PTE_A" by (simp only: andn_A_facts simp_thms)
qed

section \<open>One pass over a full clock\<close>

lemma smod8: "0 \<le> x \<Longrightarrow> x smod 8 = x mod (8 :: int)"
  by (cases "x = 0") (simp_all add: signed_modulo_int_def signed_divide_int_def minus_div_mult_eq_mod)

text \<open>A full clock whose nodes are decrypted pages.\<close>

definition full_clock :: "nat \<Rightarrow> 'a kst_scheme \<Rightarrow> bool" where
  "full_clock p s \<longleftrightarrow> running p s \<and> length (nodes (proc_at p s)) = 8 \<and>
     0 \<le> currInd (proc_at p s) \<and> currInd (proc_at p s) \<le> 8 \<and>
     (\<forall>a\<in>set (nodes (proc_at p s)). aligned a \<and> a < KERNBASE \<and> enc_ready (mem s) (pgdir (proc_at p s)) a \<and>
        to_enc (mem s) (pgdir (proc_at p s)) a)"

definition hand :: "proc \<Rightarrow> nat \<Rightarrow> nat" where
  "hand q i = (i + nat (currInd q)) mod 8"

definition evicts :: "nat \<Rightarrow> u32 \<Rightarrow> nat \<Rightarrow> 'a kst_scheme \<Rightarrow> 'a kst_scheme \<Rightarrow> bool" where
  "evicts p addr k s s' \<longleftrightarrow> (let q = proc_at p s; pd = pgdir q in
     \<exists>m1. same_user pd (mem s) m1 \<and> encrypts (\<lambda>vb. PGROUNDDOWN vb = nodes q ! k) pd m1 (mem s') \<and>
     running p s' \<and> freelist s' = freelist s \<and> kend s' = kend s \<and>
     ptable s' = (ptable s)[p := q\<lparr>nodes := (nodes q)[k := addr], currInd := (int k + 1) mod 8\<rparr>])"

lemma same_user_ready:
  assumes "same_user pd m m'"
  shows "enc_ready m' pd a = enc_ready m pd a" "to_enc m' pd a = to_enc m pd a"
  unfolding enc_ready_def to_enc_def same_userD [OF assms] by (rule refl)+

lemma full_clock_same_user:
  assumes "full_clock p s" and "same_user (pgdir (proc_at p s)) (mem s) m1"
  shows "full_clock p (s\<lparr>mem := m1\<rparr>)"
  using assms same_user_ready [OF assms(2)] same_userD(1) [OF assms(2)]
  by (simp add: full_clock_def running_def)

lemma hand_less [simp]: "hand q i < 8"
  by (simp add: hand_def)

lemma mencrypt_one:
  assumes r: "running p s" and a: "aligned a" "a < KERNBASE"
    and rdy: "enc_ready (mem s) (pgdir (proc_at p s)) a" and enc: "to_enc (mem s) (pgdir (proc_at p s)) a"
  shows "\<exists>s'. mencrypt a 1 s = Inr (0, s') \<and> running p s' \<and> ptable s' = ptable s
    \<and> freelist s' = freelist s \<and> kend s' = kend s
    \<and> encrypts (\<lambda>vb. PGROUNDDOWN vb = a) (pgdir (proc_at p s)) (mem s) (mem s')"
proof -
  let ?pd = "pgdir (proc_at p s)"
  have "unat a < 0x80000000" using a(2) by (simp add: word_less_nat_alt)
  moreover obtain k where k: "unat a = 4096 * k" using a(1) by (auto simp: aligned_dvd)
  ultimately have "k < 524288" by simp
  with k have le: "unat a + 4096 * Suc 0 \<le> 0x80000000" by simp
  have pin: "page_in a (Suc 0) vb \<longleftrightarrow> PGROUNDDOWN vb = a" for vb
    using page_in_Suc [OF a(1) le, of vb] by simp
  have cong: "PGROUNDDOWN vb = a \<Longrightarrow> enc_ready (mem s) ?pd vb \<and> to_enc (mem s) ?pd vb" for vb
    using rdy enc view_cong_page(1,5) [of vb a "mem s" ?pd] a(1)
    by (simp add: enc_ready_def to_enc_def mapped_def)
  have pa: "PGROUNDDOWN a = a" "nat 1 = Suc 0" using a(1) by simp_all
  have le': "unat (PGROUNDDOWN a) + 4096 * nat 1 \<le> 0x80000000" unfolding pa by (rule le)
  have rdy': "enc_ready (mem s) ?pd vb" if "page_in (PGROUNDDOWN a) (nat 1) vb" for vb
    using that unfolding pa pin by (simp add: cong)
  have eq: "(\<lambda>vb. page_in (PGROUNDDOWN a) (nat 1) vb \<and> to_enc (mem s) ?pd vb) = (\<lambda>vb. PGROUNDDOWN vb = a)"
    unfolding pa pin using cong by blast
  show ?thesis using mencrypt_run [OF r le' rdy'] unfolding eq by blast
qed

text \<open>The entry the hand points at when \<open>Suc n\<close> entries of the pass are left.\<close>

lemma clock_pass_step:
  assumes fc: "full_clock p s" and n: "n < 8"
  defines "q \<equiv> proc_at p s"
  defines "pd \<equiv> pgdir q" and "k \<equiv> hand q (7 - n)"
  defines "a \<equiv> nodes q ! k"
  shows "has (pte_at (mem s) pd a) PTE_A \<Longrightarrow> \<exists>m1. same_user pd (mem s) m1 \<and> \<not> has (pte_at m1 pd a) PTE_A
      \<and> clock_pass (Suc n) p pd addr s = clock_pass n p pd addr (s\<lparr>mem := m1\<rparr>)"
    and "\<not> has (pte_at (mem s) pd a) PTE_A \<Longrightarrow> \<exists>s'. clock_pass (Suc n) p pd addr s = Inr (True, s') \<and> evicts p addr k s s'"
proof -
  have fc': "running p s" "length (nodes q) = 8" "0 \<le> currInd q"
    using fc by (simp_all add: full_clock_def q_def)
  have "a \<in> set (nodes q)" unfolding a_def using fc'(2) by (intro nth_mem) (simp add: k_def)
  then have a: "aligned a" "a < KERNBASE" "enc_ready (mem s) pd a" "to_enc (mem s) pd a"
    using fc unfolding full_clock_def q_def pd_def by blast+
  have as: "aspace (mem s) pd" using fc'(1) by (simp add: running_def q_def pd_def)
  have map: "mapped (mem s) pd a" using a(3) by (simp add: enc_ready_def)
  have tab: "has_table (mem s) pd a" by (rule mapped_table [OF map])
  have nz: "pte_slot (mem s) pd a \<noteq> 0" by (rule pte_slot_nonzero [OF aspace_pd [OF as] tab])
  have l: "load32 (mem s) (pte_slot (mem s) pd a) = pte_at (mem s) pd a" using tab by (simp add: pte_at_def)
  have ri: "(int CLOCKSIZE - int (Suc n) + currInd q) smod int CLOCKSIZE = int k"
  proof -
    have "int CLOCKSIZE - int (Suc n) + currInd q = int (7 - n + nat (currInd q))"
      using n fc'(3) by simp
    then show ?thesis by (simp add: smod8 hand_def zmod_int k_def)
  qed
  have get: "node_get q (int k) = Inr a" by (simp add: node_get_def a_def k_def)
  note run = clock_pass.simps(2) [of n p pd addr s, folded q_def, unfolded ri get Let_def bindE_simps walkpgdir_lookup prod.case l]
  {
    assume A: "has (pte_at (mem s) pd a) PTE_A"
    show "\<exists>m1. same_user pd (mem s) m1 \<and> \<not> has (pte_at m1 pd a) PTE_A
      \<and> clock_pass (Suc n) p pd addr s = clock_pass n p pd addr (s\<lparr>mem := m1\<rparr>)"
    proof (intro exI conjI)
      show "same_user pd (mem s) (store32 (mem s) (pte_slot (mem s) pd a) (pte_at (mem s) pd a AND NOT PTE_A))"
        and "\<not> has (pte_at (store32 (mem s) (pte_slot (mem s) pd a) (pte_at (mem s) pd a AND NOT PTE_A)) pd a) PTE_A"
        by (rule clear_A_same_user [OF as map])+
      show "clock_pass (Suc n) p pd addr s = clock_pass n p pd addr
          (s\<lparr>mem := store32 (mem s) (pte_slot (mem s) pd a) (pte_at (mem s) pd a AND NOT PTE_A)\<rparr>)"
        unfolding run using A nz by (simp only: tab if_True prod.case l if_False simp_thms)
    qed
  }
  assume A: "\<not> has (pte_at (mem s) pd a) PTE_A"
  obtain s1 where s1: "mencrypt a 1 s = Inr (0, s1)" "running p s1" "ptable s1 = ptable s"
    "freelist s1 = freelist s" "kend s1 = kend s" "encrypts (\<lambda>vb. PGROUNDDOWN vb = a) pd (mem s) (mem s1)"
    using mencrypt_one [OF fc'(1) a [unfolded pd_def q_def]] unfolding pd_def q_def by blast
  have pl: "p < length (ptable s)" using fc'(1) by (simp add: running_def)
  let ?s' = "upd_proc p (\<lambda>q. q\<lparr>currInd := (int k + 1) smod int CLOCKSIZE\<rparr>)
    (upd_proc p (\<lambda>q. q\<lparr>nodes := (nodes q)[k := addr]\<rparr>) s1)"
  have k8: "k < 8" by (simp add: k_def)
  have "node_set p (int k) addr s1 = Inr (upd_proc p (\<lambda>q. q\<lparr>nodes := (nodes q)[k := addr]\<rparr>) s1)"
    using k8 by (simp add: node_set_def)
  then have "clock_pass (Suc n) p pd addr s = Inr (True, ?s')"
    unfolding run using A nz s1(1) by (simp only: tab if_True prod.case l if_False simp_thms bindE_simps)
  moreover have "evicts p addr k s ?s'"
    using s1 same_user_refl [OF as] pl
    unfolding evicts_def Let_def a_def pd_def q_def
    by (intro exI [of _ "mem s"]) (simp add: upd_proc_def proc_at_def smod8 running_def)
  ultimately show "\<exists>s'. clock_pass (Suc n) p pd addr s = Inr (True, s') \<and> evicts p addr k s s'" by blast
qed

lemma evicts_same_user:
  assumes "same_user (pgdir (proc_at p s)) (mem s) m1" and "evicts p addr k (s\<lparr>mem := m1\<rparr>) s'"
  shows "evicts p addr k s s'"
  using assms(2) same_user_trans [OF assms(1)] unfolding evicts_def Let_def by auto

lemma clock_pass_run:
  assumes "full_clock p s" and "n \<le> 8"
  shows "(\<exists>k<8. \<exists>s'. clock_pass n p (pgdir (proc_at p s)) addr s = Inr (True, s') \<and> evicts p addr k s s')
    \<or> (\<exists>m1. clock_pass n p (pgdir (proc_at p s)) addr s = Inr (False, s\<lparr>mem := m1\<rparr>)
        \<and> same_user (pgdir (proc_at p s)) (mem s) m1
        \<and> (\<forall>i. 8 - n \<le> i \<and> i < 8 \<longrightarrow>
             \<not> has (pte_at m1 (pgdir (proc_at p s)) (nodes (proc_at p s) ! hand (proc_at p s) i)) PTE_A))"
  using assms
proof (induction n arbitrary: s)
  case 0
  then have "same_user (pgdir (proc_at p s)) (mem s) (mem s)"
    by (intro same_user_refl) (simp add: full_clock_def running_def)
  then show ?case by (intro disjI2 exI [of _ "mem s"]) auto
next
  case (Suc n)
  let ?q = "proc_at p s"
  let ?pd = "pgdir ?q" and ?a = "nodes ?q ! hand ?q (7 - n)"
  have n: "n < 8" using Suc.prems(2) by simp
  show ?case
  proof (cases "has (pte_at (mem s) ?pd ?a) PTE_A")
    case True
    then obtain m1 where su: "same_user ?pd (mem s) m1" and cl: "\<not> has (pte_at m1 ?pd ?a) PTE_A"
      and step: "clock_pass (Suc n) p ?pd addr s = clock_pass n p ?pd addr (s\<lparr>mem := m1\<rparr>)"
      using clock_pass_step(1) [OF Suc.prems(1) n] by blast
    have fc1: "full_clock p (s\<lparr>mem := m1\<rparr>)" by (rule full_clock_same_user [OF Suc.prems(1) su])
    from Suc.IH [OF fc1] Suc.prems(2) consider
      (ev) k s' where "k < 8" "clock_pass n p ?pd addr (s\<lparr>mem := m1\<rparr>) = Inr (True, s')" "evicts p addr k (s\<lparr>mem := m1\<rparr>) s'"
      | (no) m2 where "clock_pass n p ?pd addr (s\<lparr>mem := m1\<rparr>) = Inr (False, s\<lparr>mem := m2\<rparr>)"
        "same_user ?pd m1 m2" "\<forall>i. 8 - n \<le> i \<and> i < 8 \<longrightarrow> \<not> has (pte_at m2 ?pd (nodes ?q ! hand ?q i)) PTE_A"
      by auto
    then show ?thesis
    proof cases
      case ev
      with step evicts_same_user [OF su ev(3)] show ?thesis by auto
    next
      case no
      have "\<not> has (pte_at m2 ?pd (nodes ?q ! hand ?q i)) PTE_A" if "8 - Suc n \<le> i" "i < 8" for i
      proof (cases "i = 7 - n")
        case True
        then show ?thesis using same_userD(12) [OF no(2) cl] by simp
      next
        case False
        then show ?thesis using no(3) that by auto
      qed
      with no(1) step same_user_trans [OF su no(2)] show ?thesis by auto
    qed
  next
    case False
    then show ?thesis using clock_pass_step(2) [OF Suc.prems(1) n False] hand_less by blast
  qed
qed

text \<open>The second chance: when a first pass finds every node accessed, it clears all the
  bits, and the second pass evicts the node under the hand.\<close>

lemma clock_add_full:
  assumes fc: "full_clock p s" and full: "inClock (proc_at p s) = 8"
  shows "\<exists>k<8. \<exists>s'. clock_add p (pgdir (proc_at p s)) addr s = Inr s' \<and> evicts p addr k s s'"
proof -
  let ?pd = "pgdir (proc_at p s)"
  have add: "clock_add p ?pd addr s = bindE (clock_pass 8 p ?pd addr s) (\<lambda>(evicted, s).
       if evicted then Inr s else bindE (clock_pass 8 p ?pd addr s) (\<lambda>(evicted, s). Inr s))"
    unfolding clock_add_def CLOCKSIZE_def using full by simp
  consider (ev) k s' where "k < 8" "clock_pass 8 p ?pd addr s = Inr (True, s')" "evicts p addr k s s'"
    | (no) m1 where "clock_pass 8 p ?pd addr s = Inr (False, s\<lparr>mem := m1\<rparr>)" "same_user ?pd (mem s) m1"
      "\<forall>i<8. \<not> has (pte_at m1 ?pd (nodes (proc_at p s) ! hand (proc_at p s) i)) PTE_A"
    using clock_pass_run [OF fc, of 8 addr] by auto
  then show ?thesis
  proof cases
    case ev
    then show ?thesis by (auto simp: add)
  next
    case no
    have fc1: "full_clock p (s\<lparr>mem := m1\<rparr>)" by (rule full_clock_same_user [OF fc no(2)])
    have "\<not> has (pte_at m1 ?pd (nodes (proc_at p s) ! hand (proc_at p s) (7 - 7))) PTE_A"
      using no(3) by simp
    then obtain s' where "clock_pass (Suc 7) p ?pd addr (s\<lparr>mem := m1\<rparr>) = Inr (True, s')"
      "evicts p addr (hand (proc_at p s) (7 - 7)) (s\<lparr>mem := m1\<rparr>) s'"
      using clock_pass_step(2) [OF fc1, of 7 addr] by auto
    then show ?thesis
      using no(1) evicts_same_user [OF no(2)] hand_less
      by (intro exI [of _ "hand (proc_at p s) (7 - 7)"]) (auto simp: add simp del: clock_pass.simps)
  qed
qed

end
