(* ===== verification/Crypt_Main.thy ===== *)
theory Crypt_Main
  imports Crypt_Clock
begin

text \<open>
  The main property of page encryption: a successful \<open>mdecrypt\<close> makes the faulting page
  accessible, keeps the plaintext of the whole address space, and keeps the clock exact,
  so that the number of decrypted pages stays within \<open>CLOCKSIZE\<close>.
\<close>

section \<open>Effect of the three kinds of change\<close>

lemma open_effect:
  assumes as: "aspace m pd" and va: "va < KERNBASE" and rdy: "dec_ready m pd va" and t: "tab_upd open_entry pd va m m'"
    and b: "\<forall>x. PGROUNDDOWN x \<notin> table_frames m pd \<longrightarrow>
       m' x = (if PGROUNDDOWN x = uframe m pd va then m x XOR 0xFF else m x)"
  shows "aspace m' pd" "mapped m' pd vb = mapped m pd vb"
    "decrypted m' pd vb \<longleftrightarrow> decrypted m pd vb \<or> PGROUNDDOWN vb = PGROUNDDOWN va"
    "user_ready m pd \<Longrightarrow> user_ready m' pd"
    "vb < KERNBASE \<Longrightarrow> mapped m pd vb \<Longrightarrow> plain m' pd vb = plain m pd vb"
    "has (pte_at m' pd vb) PTE_U = has (pte_at m pd vb) PTE_U"
proof -
  have map: "mapped m pd va" by (rule dec_ready_mapped [OF rdy])
  have g: "PTE_ADDR (open_entry (pte_at m pd va)) = PTE_ADDR (pte_at m pd va)"
    "has (open_entry (pte_at m pd va)) (PTE_P OR PTE_E) = has (pte_at m pd va) (PTE_P OR PTE_E)"
    using map unfolding mapped_def by (simp_all only: open_entry_facts simp_thms)
  note u = tab_upd_aspace [OF as t g]
  show "aspace m' pd" "mapped m' pd vb = mapped m pd vb" by (rule u)+
  have pte: "pte_at m' pd vb = (if PGROUNDDOWN vb = PGROUNDDOWN va then open_entry (pte_at m pd vb) else pte_at m pd vb)"
    and pw: "has (pde_at m' pd vb) PTE_W = has (pde_at m pd vb) PTE_W" for vb
    using t unfolding tab_upd_def by blast+
  show "has (pte_at m' pd vb) PTE_U = has (pte_at m pd vb) PTE_U"
    unfolding pte by (cases "PGROUNDDOWN vb = PGROUNDDOWN va") (simp_all only: if_True if_False open_entry_facts simp_thms)
  have same: "dec_ready m pd vb" "mapped m pd vb" "vb < KERNBASE" "uframe m pd vb = uframe m pd va"
    if "PGROUNDDOWN vb = PGROUNDDOWN va" for vb
  proof -
    note c = view_cong_page(1,5) [OF that, of m pd]
    show "dec_ready m pd vb" "mapped m pd vb" "uframe m pd vb = uframe m pd va"
      using rdy map c by (simp_all only: dec_ready_def mapped_def uframe_def)
    show "vb < KERNBASE" using same_page_below [OF _ that, of "0x80000000"] va by simp
  qed
  show "decrypted m' pd vb \<longleftrightarrow> decrypted m pd vb \<or> PGROUNDDOWN vb = PGROUNDDOWN va"
  proof (cases "PGROUNDDOWN vb = PGROUNDDOWN va")
    case True
    have "decrypted m' pd vb"
      using same [OF True] open_entry_facts(2)
      unfolding decrypted_def u(3) pte dec_ready_def if_P [OF True] open_entry_facts(5) by blast
    with True show ?thesis by blast
  next
    case False
    then show ?thesis unfolding decrypted_def u(3) pte by simp
  qed
  show "user_ready m' pd" if ur: "user_ready m pd"
    unfolding user_ready_def u(3) pw
  proof (intro allI impI)
    fix vb assume vb: "vb < KERNBASE" "mapped m pd vb"
    then have *: "has (pde_at m pd vb) PTE_W \<and> has (pte_at m pd vb) PTE_W \<and>
       (has (pte_at m pd vb) PTE_E \<longleftrightarrow> \<not> has (pte_at m pd vb) PTE_P)"
      using ur unfolding user_ready_def by blast
    show "has (pde_at m pd vb) PTE_W \<and> has (pte_at m' pd vb) PTE_W \<and>
       (has (pte_at m' pd vb) PTE_E \<longleftrightarrow> \<not> has (pte_at m' pd vb) PTE_P)"
      using * unfolding pte by (cases "PGROUNDDOWN vb = PGROUNDDOWN va")
        (simp_all only: if_True if_False open_entry_facts simp_thms)
  qed
  show "plain m' pd vb = plain m pd vb" if vb: "vb < KERNBASE" "mapped m pd vb"
  proof -
    let ?x = "uframe m pd vb + OFFSET vb"
    have "PGROUNDDOWN ?x \<notin> table_frames m pd" using aspace_frame [OF as vb] by simp
    then have bx: "m' ?x = (if uframe m pd vb = uframe m pd va then m ?x XOR 0xFF else m ?x)"
      using b [rule_format, of ?x] by simp
    show ?thesis
    proof (cases "PGROUNDDOWN vb = PGROUNDDOWN va")
      case True
      have "has (pte_at m pd vb) PTE_E" using same(1) [OF True] by (simp only: dec_ready_def)
      then show ?thesis
        using bx same(4) [OF True] unfolding plain_def Let_def u(2) pte
        by (simp only: True if_True open_entry_facts simp_thms if_False)
    next
      case False
      then have "uframe m pd vb \<noteq> uframe m pd va" using aspace_inj [OF as vb(1) va vb(2) map] by blast
      with False bx show ?thesis unfolding plain_def Let_def u(2) pte by simp
    qed
  qed
qed

lemma same_user_effect:
  assumes as: "aspace m pd" and su: "same_user pd m m'"
  shows "decrypted m' pd vb = decrypted m pd vb" "user_ready m pd \<Longrightarrow> user_ready m' pd"
    "vb < KERNBASE \<Longrightarrow> mapped m pd vb \<Longrightarrow> plain m' pd vb = plain m pd vb"
    "has (pte_at m' pd vb) PTE_U = has (pte_at m pd vb) PTE_U"
proof -
  show "has (pte_at m' pd vb) PTE_U = has (pte_at m pd vb) PTE_U"
    unfolding same_userD [OF su] by (rule refl)
  show "decrypted m' pd vb = decrypted m pd vb"
    unfolding decrypted_def same_userD [OF su] by (rule refl)
  show "user_ready m pd \<Longrightarrow> user_ready m' pd"
    unfolding user_ready_def same_userD [OF su] .
  assume vb: "vb < KERNBASE" "mapped m pd vb"
  have "PGROUNDDOWN (uframe m pd vb + OFFSET vb) \<notin> table_frames m pd" using aspace_frame [OF as vb] by simp
  then have "m' (uframe m pd vb + OFFSET vb) = m (uframe m pd vb + OFFSET vb)" by (rule same_userD(11) [OF su])
  then show "plain m' pd vb = plain m pd vb"
    unfolding plain_def same_userD(5,7) [OF su] by (simp only: Let_def)
qed

lemma encrypts_effect:
  assumes as: "aspace m pd" and e: "encrypts (\<lambda>vb. PGROUNDDOWN vb = a) pd m m'"
    and a: "aligned a" "decrypted m pd a"
  shows "decrypted m' pd vb \<longleftrightarrow> decrypted m pd vb \<and> PGROUNDDOWN vb \<noteq> a" "user_ready m pd \<Longrightarrow> user_ready m' pd"
    "vb < KERNBASE \<Longrightarrow> mapped m pd vb \<Longrightarrow> plain m' pd vb = plain m pd vb"
    "mapped m' pd vb = mapped m pd vb" "has (pte_at m' pd vb) PTE_U = has (pte_at m pd vb) PTE_U"
proof -
  note d = encryptsD [OF e]
  have dec: "decrypted m pd vc" if "PGROUNDDOWN vc = a" for vc
    using a view_cong_page(5) [of vc a m pd] that same_page_below [of "0x80000000" vc a]
    by (simp add: decrypted_def mapped_def)
  show "has (pte_at m' pd vb) PTE_U = has (pte_at m pd vb) PTE_U"
    unfolding d(5) by (cases "PGROUNDDOWN vb = a") (simp_all only: if_True if_False enc_entry_facts simp_thms)
  show mp: "mapped m' pd vb = mapped m pd vb" for vb
    using dec [of vb] unfolding mapped_def decrypted_def d(5)
    by (cases "PGROUNDDOWN vb = a") (simp_all only: if_True if_False enc_entry_facts simp_thms)
  show "decrypted m' pd vb \<longleftrightarrow> decrypted m pd vb \<and> PGROUNDDOWN vb \<noteq> a"
    unfolding decrypted_def mp d(5) by (cases "PGROUNDDOWN vb = a") (simp_all only: if_True if_False enc_entry_facts simp_thms)
  show "user_ready m' pd" if ur: "user_ready m pd"
    unfolding user_ready_def mp d(4)
  proof (intro allI impI)
    fix vb assume vb: "vb < KERNBASE" "mapped m pd vb"
    then have *: "has (pde_at m pd vb) PTE_W \<and> has (pte_at m pd vb) PTE_W \<and>
       (has (pte_at m pd vb) PTE_E \<longleftrightarrow> \<not> has (pte_at m pd vb) PTE_P)"
      using ur unfolding user_ready_def by blast
    then show "has (pde_at m pd vb) PTE_W \<and> has (pte_at m' pd vb) PTE_W \<and>
       (has (pte_at m' pd vb) PTE_E \<longleftrightarrow> \<not> has (pte_at m' pd vb) PTE_P)"
      unfolding d(5) by (cases "PGROUNDDOWN vb = a") (simp_all only: if_True if_False enc_entry_facts simp_thms)
  qed
  show "plain m' pd vb = plain m pd vb" if vb: "vb < KERNBASE" "mapped m pd vb"
    by (rule plain_encrypts [OF as e vb]) (use dec in \<open>auto simp only: decrypted_def\<close>)
qed

section \<open>mdecrypt\<close>

text \<open>What no handling of a fault changes: which pages are mapped, which are for user code, and their plaintext.\<close>

definition user_kept :: "u32 \<Rightarrow> memory \<Rightarrow> memory \<Rightarrow> bool" where
  "user_kept pd m m' \<longleftrightarrow> (\<forall>vb<KERNBASE. mapped m pd vb \<longrightarrow>
     mapped m' pd vb \<and> has (pte_at m' pd vb) PTE_U = has (pte_at m pd vb) PTE_U \<and> plain m' pd vb = plain m pd vb)"

text \<open>A process that differs in its clock only.\<close>

definition same_proc :: "proc \<Rightarrow> proc \<Rightarrow> bool" where
  "same_proc q q' \<longleftrightarrow> q' = q\<lparr>nodes := nodes q', inClock := inClock q', currInd := currInd q'\<rparr>"

lemma same_procD:
  assumes "same_proc q q'"
  shows "pgdir q' = pgdir q" "sz q' = sz q" "tf q' = tf q" "killed q' = killed q" "pstate q' = pstate q"
  using arg_cong [OF assms [unfolded same_proc_def], of pgdir] arg_cong [OF assms [unfolded same_proc_def], of sz]
    arg_cong [OF assms [unfolded same_proc_def], of tf] arg_cong [OF assms [unfolded same_proc_def], of killed]
    arg_cong [OF assms [unfolded same_proc_def], of pstate] by simp_all

lemma same_proc_refl: "same_proc q q"
  by (simp add: same_proc_def)

lemma same_proc_trans: "same_proc q q1 \<Longrightarrow> same_proc q1 q2 \<Longrightarrow> same_proc q q2"
  unfolding same_proc_def by (cases q, cases q1, cases q2) simp

lemma live_nodes_full: "clock_wf q \<Longrightarrow> inClock q = 8 \<Longrightarrow> live_nodes q = nodes q"
  by (simp add: clock_wf_def live_nodes_def)

lemma live_nodes_push:
  fixes a :: u32
  assumes "clock_wf q" and "inClock q < 8"
  defines "q' \<equiv> q\<lparr>nodes := (nodes q)[nat (inClock q) := a], inClock := inClock q + 1, currInd := inClock q + 1\<rparr>"
  shows "live_nodes q' = live_nodes q @ [a]" and "a \<notin> set (live_nodes q) \<Longrightarrow> clock_wf q'"
proof -
  let ?n = "nat (inClock q)"
  have n: "?n < length (nodes q)" "nat (inClock q + 1) = Suc ?n" using assms(1,2) by (auto simp: clock_wf_def)
  show l: "live_nodes q' = live_nodes q @ [a]"
    using n by (simp add: live_nodes_def q'_def take_Suc_conv_app_nth)
  show "clock_wf q'" if "a \<notin> set (live_nodes q)"
    using assms(1,2) that l unfolding clock_wf_def by (simp add: q'_def)
qed

lemma currInd_inClock: "q\<lparr>currInd := c, inClock := i\<rparr> = q\<lparr>inClock := i, currInd := c\<rparr>" for q :: proc
  by simp

lemma clock_add_push:
  assumes "clock_wf (proc_at p s)" and "inClock (proc_at p s) < 8" and "p < length (ptable s)"
  shows "clock_add p pd a s = Inr (s\<lparr>ptable := (ptable s)[p := (proc_at p s)\<lparr>
    nodes := (nodes (proc_at p s))[nat (inClock (proc_at p s)) := a],
    inClock := inClock (proc_at p s) + 1, currInd := inClock (proc_at p s) + 1\<rparr>]\<rparr>)"
proof (cases "inClock (proc_at p s) = 0")
  case True
  then show ?thesis
    using assms(3) by (simp add: clock_add_def node_set_def upd_proc_def proc_at_def)
next
  case False
  then have i: "0 \<le> inClock (proc_at p s)" "currInd (proc_at p s) = inClock (proc_at p s)"
    using assms(1,2) by (simp_all add: clock_wf_def)
  then have "node_set p (currInd (proc_at p s)) a s =
      Inr (s\<lparr>ptable := (ptable s)[p := (proc_at p s)\<lparr>nodes := (nodes (proc_at p s))[nat (inClock (proc_at p s)) := a]\<rparr>]\<rparr>)"
    using assms(2) by (simp add: node_set_def upd_proc_def proc_at_def)
  then show ?thesis
    using False assms(2,3) i by (simp add: clock_add_def upd_proc_def proc_at_def currInd_inClock)
qed

lemma switchuvm_clock_inv:
  assumes "clock_inv p s"
  shows "\<exists>s'. switchuvm (cpu_proc s) s = Inr s' \<and> clock_inv p s' \<and> mem s' = mem s \<and> ptable s' = ptable s"
proof -
  have r: "running p s" using assms by (simp add: clock_inv_def)
  obtain s' where s': "switchuvm (cpu_proc s) s = Inr s'" "mem s' = mem s" "ptable s' = ptable s"
    "cpu_proc s' = cpu_proc s" "cr3 s' = cr3 s"
    using switchuvm_running [of s p] r by (auto simp: running_def)
  have "proc_at p s' = proc_at p s" by (simp add: proc_at_def s')
  then have "clock_inv p s'"
    using assms unfolding clock_inv_def running_def s'(2-5) by simp
  with s' show ?thesis by blast
qed

lemma mdecrypt_clock:
  assumes inv: "clock_inv p s" and va: "va < KERNBASE" and rdy: "dec_ready (mem s) (pgdir (proc_at p s)) va"
    and first: "mem s (uframe (mem s) (pgdir (proc_at p s)) va) \<noteq> 0"
  defines "pd \<equiv> pgdir (proc_at p s)"
  shows "\<exists>s'. mdecrypt va s = Inr (0, s') \<and> clock_inv p s' \<and> same_proc (proc_at p s) (proc_at p s')
    \<and> decrypted (mem s') pd va
    \<and> user_kept pd (mem s) (mem s')"
proof -
  let ?q = "proc_at p s" and ?a = "PGROUNDDOWN va"
  have r: "running p s" and ur: "user_ready (mem s) pd" and cw: "clock_wf ?q"
    and live: "\<And>vb. vb \<in> set (live_nodes ?q) \<longleftrightarrow> aligned vb \<and> decrypted (mem s) pd vb"
    using inv by (simp_all add: clock_inv_def pd_def)
  have as: "aspace (mem s) pd" and pl: "p < length (ptable s)" using r by (simp_all add: running_def pd_def)
  obtain m1 where t: "tab_upd open_entry pd va (mem s) m1"
    and b: "\<forall>x. PGROUNDDOWN x \<notin> table_frames (mem s) pd \<longrightarrow>
       m1 x = (if PGROUNDDOWN x = uframe (mem s) pd va then mem s x XOR 0xFF else mem s x)"
    and md: "mdecrypt va s = bindE (clock_add p pd ?a (s\<lparr>mem := m1\<rparr>)) (\<lambda>s.
         bindE (switchuvm (cpu_proc s) s) (\<lambda>s. Inr (0, s)))"
    using mdecrypt_open [OF r va rdy first] unfolding pd_def by blast
  note eff = open_effect [OF as va rdy [folded pd_def] t b]
  have new: "?a \<notin> set (live_nodes ?q)"
    using live [of ?a] rdy by (simp add: decrypted_def dec_ready_def pd_def)
  have live1: "aligned vb \<and> decrypted m1 pd vb \<longleftrightarrow> vb \<in> insert ?a (set (live_nodes ?q))" for vb
    using eff(3) [of vb] live [of vb] by auto
  have "\<exists>s2. clock_add p pd ?a (s\<lparr>mem := m1\<rparr>) = Inr s2 \<and> clock_inv p s2 \<and> same_proc ?q (proc_at p s2)
      \<and> decrypted (mem s2) pd va
      \<and> user_kept pd (mem s) (mem s2)"
  proof (cases "inClock ?q < 8")
    case True
    let ?q' = "?q\<lparr>nodes := (nodes ?q)[nat (inClock ?q) := ?a], inClock := inClock ?q + 1, currInd := inClock ?q + 1\<rparr>"
    let ?s2 = "s\<lparr>mem := m1, ptable := (ptable s)[p := ?q']\<rparr>"
    have add: "clock_add p pd ?a (s\<lparr>mem := m1\<rparr>) = Inr ?s2"
      using clock_add_push [of p "s\<lparr>mem := m1\<rparr>" pd ?a] cw True pl by simp
    have q': "proc_at p ?s2 = ?q'" using pl by (simp add: proc_at_def)
    have live2: "vb \<in> set (live_nodes ?q') \<longleftrightarrow> aligned vb \<and> decrypted m1 pd vb" for vb
      using live1 [of vb] live_nodes_push(1) [OF cw True, of ?a] by auto
    have "running p ?s2" using r pl eff(1) by (simp add: running_def q' pd_def)
    then have "clock_inv p ?s2"
      using eff(4) [OF ur] live_nodes_push(2) [OF cw True new] live2 by (simp add: clock_inv_def q' pd_def)
    moreover have "decrypted m1 pd va" using eff(3) [of va] by simp
    ultimately show ?thesis
      using add eff(2,5,6) by (intro exI [of _ ?s2]) (simp add: q' pd_def user_kept_def same_proc_def)
  next
    case False
    then have full: "inClock ?q = 8" using cw by (simp add: clock_wf_def)
    have ln: "live_nodes ?q = nodes ?q" by (rule live_nodes_full [OF cw full])
    have len: "length (nodes ?q) = 8" and dist: "distinct (nodes ?q)" using cw ln by (simp_all add: clock_wf_def)
    let ?s1 = "s\<lparr>mem := m1\<rparr>"
    have ur1: "user_ready m1 pd" by (rule eff(4) [OF ur])
    have nd: "aligned c \<and> decrypted m1 pd c" if "c \<in> set (nodes ?q)" for c
      using live1 [of c] that ln by auto
    have ready: "c < KERNBASE \<and> enc_ready m1 pd c \<and> to_enc m1 pd c" if "c \<in> set (nodes ?q)" for c
    proof -
      have "c < KERNBASE" "mapped m1 pd c" "has (pte_at m1 pd c) PTE_U" "\<not> has (pte_at m1 pd c) PTE_E"
        using nd [OF that] unfolding decrypted_def by blast+
      then show ?thesis using ur1 unfolding user_ready_def enc_ready_def to_enc_def by blast
    qed
    have "running p ?s1" using r eff(1) by (simp add: running_def pd_def)
    then have "full_clock p ?s1"
      using cw len nd ready by (simp add: full_clock_def clock_wf_def pd_def)
    then obtain k s2 where k: "k < 8" and add: "clock_add p pd ?a ?s1 = Inr s2" and ev: "evicts p ?a k ?s1 s2"
      using clock_add_full [of p ?s1 ?a] full by (auto simp: pd_def)
    let ?c = "nodes ?q ! k"
    obtain m2 where su: "same_user pd m1 m2" and en: "encrypts (\<lambda>vb. PGROUNDDOWN vb = ?c) pd m2 (mem s2)"
      and r2: "running p s2"
      and pt: "ptable s2 = (ptable s)[p := ?q\<lparr>nodes := (nodes ?q)[k := ?a], currInd := (int k + 1) mod 8\<rparr>]"
      using ev unfolding evicts_def Let_def by (auto simp: pd_def)
    have q2: "proc_at p s2 = ?q\<lparr>nodes := (nodes ?q)[k := ?a], currInd := (int k + 1) mod 8\<rparr>"
      using pl by (simp add: proc_at_def pt)
    have ck: "?c \<in> set (nodes ?q)" using k len by simp
    note se = same_user_effect [OF eff(1) su]
    have as2: "aspace m2 pd" by (rule same_userD(1) [OF su])
    have cd: "aligned ?c" "decrypted m2 pd ?c" using nd [OF ck] se(1) by simp_all
    note ee = encrypts_effect [OF as2 en cd]
    have ac: "?a \<noteq> ?c" using new ck ln by auto
    have live2: "vb \<in> set ((nodes ?q)[k := ?a]) \<longleftrightarrow> aligned vb \<and> decrypted (mem s2) pd vb" for vb
    proof -
      have eq: "set ((nodes ?q)[k := ?a]) = insert ?a (set (nodes ?q) - {?c})"
        using k len by (intro set_update_distinct dist) simp
      have "aligned vb \<and> decrypted m1 pd vb \<and> PGROUNDDOWN vb \<noteq> ?c \<longleftrightarrow> (aligned vb \<and> decrypted m1 pd vb) \<and> vb \<noteq> ?c"
        by (cases "aligned vb") simp_all
      then show ?thesis
        unfolding eq ee(1) se(1) live1 ln using ac by auto
    qed
    have "distinct ((nodes ?q)[k := ?a])"
      using dist new ln by (simp add: distinct_list_update)
    then have "clock_wf (proc_at p s2)"
      using cw full by (simp add: q2 clock_wf_def live_nodes_def)
    then have "clock_inv p s2"
      using r2 live2 ee(2) [OF se(2) [OF ur1]] full len by (simp add: clock_inv_def q2 live_nodes_def pd_def)
    moreover have "decrypted (mem s2) pd va"
      using ee(1) [of va] se(1) [of va] eff(3) [of va] ac by simp
    moreover have "user_kept pd (mem s) (mem s2)"
      unfolding user_kept_def using eff(2,5,6) se(3,4) ee(3,4,5) same_userD(6) [OF su] by simp
    ultimately show ?thesis
      using add by (intro exI [of _ s2]) (simp add: q2 pd_def same_proc_def)
  qed
  then obtain s2 where s2: "clock_add p pd ?a (s\<lparr>mem := m1\<rparr>) = Inr s2" "clock_inv p s2" "same_proc ?q (proc_at p s2)"
    "decrypted (mem s2) pd va"
    "user_kept pd (mem s) (mem s2)"
    by blast
  obtain s3 where s3: "switchuvm (cpu_proc s2) s2 = Inr s3" "clock_inv p s3" "mem s3 = mem s2" "ptable s3 = ptable s2"
    using switchuvm_clock_inv [OF s2(2)] by blast
  have "mdecrypt va s = Inr (0, s3)" using md s2(1) s3(1) by simp
  moreover have "proc_at p s3 = proc_at p s2" by (simp add: proc_at_def s3(4))
  ultimately show ?thesis using s2 s3 by auto
qed

text \<open>C1. When the clock of a process holds exactly its decrypted pages, a fault on an
  encrypted user page (one whose first byte is not 0xFF) is resolved: \<open>mdecrypt\<close> returns 0, the page is
  accessible and decrypted, every user byte keeps its plaintext, the clock again holds
  exactly the decrypted pages, and there are at most \<open>CLOCKSIZE\<close> of them, since a full
  clock always evicts a page within its two passes.\<close>

theorem mdecrypt_keeps_clock:
  assumes inv: "clock_inv p s" and va: "va < KERNBASE" and rdy: "dec_ready (mem s) (pgdir (proc_at p s)) va"
    and first: "plain (mem s) (pgdir (proc_at p s)) (PGROUNDDOWN va) \<noteq> 0xFF"
  defines "pd \<equiv> pgdir (proc_at p s)"
  shows "\<exists>s'. mdecrypt va s = Inr (0, s') \<and> clock_inv p s' \<and> decrypted (mem s') pd va
    \<and> card {vb. aligned vb \<and> decrypted (mem s') pd vb} \<le> CLOCKSIZE
    \<and> (\<forall>vb<KERNBASE. mapped (mem s) pd vb \<longrightarrow> plain (mem s') pd vb = plain (mem s) pd vb)"
proof -
  have "mem s (uframe (mem s) (pgdir (proc_at p s)) va) \<noteq> 0"
    using first rdy by (auto simp: plain_def dec_ready_def)
  then obtain s' where s': "mdecrypt va s = Inr (0, s')" "clock_inv p s'" "same_proc (proc_at p s) (proc_at p s')"
    "decrypted (mem s') pd va"
    "user_kept pd (mem s) (mem s')"
    using mdecrypt_clock [OF inv va rdy] unfolding pd_def by blast
  moreover have "pgdir (proc_at p s') = pd" using same_procD(1) [OF s'(3)] by (simp add: pd_def)
  moreover from this have "card {vb. aligned vb \<and> decrypted (mem s') pd vb} \<le> CLOCKSIZE"
    using clock_bound [OF s'(2)] by simp
  ultimately show ?thesis unfolding user_kept_def by blast
qed

section \<open>An example\<close>

text \<open>A process with one encrypted page at address 0, whatever the page and the kernel stack hold.\<close>

lemma enc_page_inv:
  assumes ch: "changes {0x80500000, 0x80600000} (one_page 0x500406) m'"
  shows "clock_inv 0 ((kst0 0x500406)\<lparr>mem := m'\<rparr>)" "PGROUNDDOWN vb = 0 \<Longrightarrow> dec_ready m' 0x80300000 vb"
    "PGROUNDDOWN vb = 0 \<Longrightarrow> plain m' 0x80300000 vb = m' (0x80500000 + OFFSET vb) XOR 0xFF"
proof -
  let ?m = "one_page 0x500406" and ?pd = "0x80300000 :: u32"
  have fr: "P2V (PTE_ADDR 0x500406) = 0x80500000" by (simp add: PTE_ADDR_def P2V_def)
  have as: "aspace ?m ?pd" by (rule one_page_aspace) (simp add: fr)
  have t: "touched 0 ?pd 0 ?m m'" by (rule frame_touched [OF _ ch]) (simp_all add: one_page_view)
  have as': "aspace m' ?pd" by (rule tab_upd_aspace [OF as t]) simp_all
  have pte: "pte_at m' ?pd vb = (if PGROUNDDOWN vb = 0 then 0x500406 else 0)"
    and pw: "has (pde_at m' ?pd vb) PTE_W = has (pde_at ?m ?pd vb) PTE_W" for vb
    using t one_page_view(2) [of "0x500406" vb] unfolding tab_upd_def by simp_all
  have mp: "mapped m' ?pd vb \<longleftrightarrow> PGROUNDDOWN vb = 0" for vb
    by (simp add: mapped_def pte has_def)
  have "running 0 ((kst0 0x500406)\<lparr>mem := m'\<rparr>)" using as' by (simp add: running_def V2P_def)
  moreover have "user_ready m' ?pd"
    unfolding user_ready_def pw mp using one_page_pde by (simp add: pte has_def)
  moreover have "\<not> decrypted m' ?pd vb" for vb
    by (simp add: decrypted_def pte has_def mp)
  ultimately show "clock_inv 0 ((kst0 0x500406)\<lparr>mem := m'\<rparr>)"
    by (simp add: clock_inv_def clock_wf_def live_nodes_def)
  assume vb: "PGROUNDDOWN vb = 0"
  have "has (pde_at m' ?pd vb) PTE_W" unfolding pw using one_page_pde [OF vb, of "0x500406"] by (simp add: has_def)
  then show "dec_ready m' 0x80300000 vb" by (simp add: dec_ready_def pte vb has_def)
  show "plain m' 0x80300000 vb = m' (0x80500000 + OFFSET vb) XOR 0xFF"
    by (simp add: plain_def pte vb has_def uframe_def fr)
qed

text \<open>One whose first stored byte is \<open>b\<close>.\<close>

definition kst1 :: "u8 \<Rightarrow> kst" where
  "kst1 b = (kst0 0x500406)\<lparr>mem := (one_page 0x500406)(0x80500000 := b)\<rparr>"

lemma kst1_inv: "clock_inv 0 (kst1 b)" "dec_ready (mem (kst1 b)) 0x80300000 0x123"
  "plain (mem (kst1 b)) 0x80300000 0 = b XOR 0xFF"
proof -
  let ?m' = "(one_page 0x500406)(0x80500000 := b)"
  have r: "PGROUNDDOWN 0x123 = (0 :: u32)" "PGROUNDDOWN 0 = (0 :: u32)" "PGROUNDDOWN 0x80500000 = (0x80500000 :: u32)"
    by (simp_all add: PGROUNDDOWN_def)
  have ch: "changes {0x80500000, 0x80600000} (one_page 0x500406) ?m'" using r(3) by (auto simp: changes_def)
  note i = enc_page_inv [OF ch]
  show "clock_inv 0 (kst1 b)" using i(1) by (simp add: kst1_def)
  show "dec_ready (mem (kst1 b)) 0x80300000 0x123" using i(2) [OF r(1)] by (simp add: kst1_def)
  show "plain (mem (kst1 b)) 0x80300000 0 = b XOR 0xFF" using i(3) [OF r(2)] by (simp add: kst1_def OFFSET_def)
qed

theorem mdecrypt_keeps_clock_witness:
  "\<exists>s'. mdecrypt 0x123 (kst1 7) = Inr (0, s') \<and> clock_inv 0 s' \<and> decrypted (mem s') 0x80300000 0x123
    \<and> plain (mem s') 0x80300000 0 = 0xF8"
proof -
  have pd: "pgdir (proc_at 0 (kst1 7)) = 0x80300000" by (simp add: kst1_def)
  have r: "PGROUNDDOWN 0x123 = (0 :: u32)" by (simp add: PGROUNDDOWN_def)
  have m0: "mapped (mem (kst1 7)) 0x80300000 0"
    using dec_ready_mapped [OF kst1_inv(2)] mapped_PGROUNDDOWN [of "mem (kst1 7)" "0x80300000" "0x123"] by (simp add: r)
  have lt: "(0x123 :: u32) < KERNBASE" "(0 :: u32) < KERNBASE" by simp_all
  have rdy: "dec_ready (mem (kst1 7)) (pgdir (proc_at 0 (kst1 7))) 0x123" unfolding pd by (rule kst1_inv)
  have first: "plain (mem (kst1 7)) (pgdir (proc_at 0 (kst1 7))) (PGROUNDDOWN 0x123) \<noteq> 0xFF"
    unfolding pd r kst1_inv(3) by simp
  have p0: "plain (mem (kst1 7)) 0x80300000 0 = 0xF8" unfolding kst1_inv(3) by simp
  obtain s' where s': "mdecrypt 0x123 (kst1 7) = Inr (0, s')" "clock_inv 0 s'" "decrypted (mem s') 0x80300000 0x123"
    and pl: "\<forall>vb<KERNBASE. mapped (mem (kst1 7)) 0x80300000 vb \<longrightarrow>
      plain (mem s') 0x80300000 vb = plain (mem (kst1 7)) 0x80300000 vb"
    using mdecrypt_keeps_clock [OF kst1_inv(1) lt(1) rdy first, unfolded pd] by blast
  have "plain (mem s') 0x80300000 0 = 0xF8" using pl [rule_format, OF lt(2) m0] p0 by simp
  with s' show ?thesis by blast
qed

end
