(* ===== verification/Crypt_Fork.thy ===== *)
theory Crypt_Fork
  imports Crypt_Main
begin

text \<open>
  The clock when a process is copied or shrinks: the position \<open>fork\<close> gives the child's
  clock, and the compaction of the clock by \<open>growproc\<close>.
\<close>

section \<open>fork\<close>

definition clock_vars :: "proc \<Rightarrow> int \<times> int" where
  "clock_vars q = (inClock q, currInd q)"

lemma proc_at_upd:
  "p < length (ptable s) \<Longrightarrow> proc_at p (upd_proc q f s) = (if p = q then f (proc_at p s) else proc_at p s)"
  by (simp add: proc_at_def upd_proc_def)

lemma ptable_upd_len [simp]: "length (ptable (upd_proc q f s)) = length (ptable s)"
  by (simp add: upd_proc_def)

lemma walkpgdir_False_snd: "snd (walkpgdir pd va False s) = s"
  by (simp add: walkpgdir_lookup)

lemma fork_nodes_keeps:
  assumes "fork_nodes n i cur np s = Inr s'" and "q < length (ptable s)"
  shows "clock_vars (proc_at q s') = clock_vars (proc_at q s) \<and> length (ptable s') = length (ptable s)"
  using assms
proof (induction n arbitrary: i s)
  case (Suc n)
  have set: "clock_vars (proc_at q t) = clock_vars (proc_at q s) \<and> length (ptable t) = length (ptable s)"
    if "node_set np (int i) a s = Inr t" for a t
    using that Suc.prems(2) by (auto simp: node_set_def proc_at_upd clock_vars_def split: if_splits)
  from Suc.prems(1) show ?case
    by (auto simp: Let_def walkpgdir_lookup bindE_Inr_iff split: if_splits
        dest!: set dest!: Suc.IH simp: Suc.prems(2))
qed simp

text \<open>C12. After \<open>fork\<close> the child's clock hand is three places past the parent's. When the
  parent's clock holds 5, 6 or 7 pages, the next page the child decrypts is recorded outside the
  array \<open>nodes\<close>: the store goes to the fields that follow it in \<open>struct proc\<close>.\<close>

theorem fork_clock_overruns:
  assumes "clock_wf (proc_at cur s)" and "inClock (proc_at cur s) \<in> {5, 6, 7}"
    and "cur \<noteq> np" and "cur < length (ptable s)" and "np < length (ptable s)"
    and "fork_clock cur np s = Inr s'"
  shows "currInd (proc_at np s') = currInd (proc_at cur s) + 3 \<and> clock_add np pd a s' = Inl OutOfBounds"
proof -
  define s1 where "s1 = upd_proc np (\<lambda>q. q\<lparr>currInd := currInd (proc_at cur s) + 3\<rparr>) s"
  define s2 where "s2 = upd_proc np (\<lambda>q. q\<lparr>inClock := inClock (proc_at cur s1)\<rparr>) s1"
  have "fork_nodes (nat (inClock (proc_at cur s2))) 0 cur np s2 = Inr s'"
    using assms(6) by (simp add: fork_clock_def Let_def s1_def s2_def)
  moreover have "np < length (ptable s2)" using assms(5) by (simp add: s1_def s2_def)
  ultimately have "clock_vars (proc_at np s') = clock_vars (proc_at np s2)"
    using fork_nodes_keeps by blast
  moreover have "clock_vars (proc_at np s2) = (inClock (proc_at cur s), currInd (proc_at cur s) + 3)"
    using assms(3-5) by (simp add: clock_vars_def s1_def s2_def proc_at_upd)
  ultimately have v: "inClock (proc_at np s') = inClock (proc_at cur s)"
    "currInd (proc_at np s') = currInd (proc_at cur s) + 3"
    by (simp_all add: clock_vars_def)
  have "currInd (proc_at cur s) = inClock (proc_at cur s)"
    using assms(1,2) by (auto simp: clock_wf_def)
  then have "clock_add np pd a s' = Inl OutOfBounds"
    using assms(2) v by (auto simp: clock_add_def node_set_def)
  with v(2) show ?thesis by blast
qed

text \<open>A parent with five pages in its clock and a child that shares its page table.\<close>

definition kst5 :: kst where
  "kst5 = (kst0 0x500007)\<lparr>ptable :=
     [proc0\<lparr>nodes := [0, 0x1000, 0x2000, 0x3000, 0x4000, 0, 0, 0], inClock := 5, currInd := 5\<rparr>, proc0]\<rparr>"

lemma fork_nodes_shared:
  assumes "mem s = one_page 0x500007" and "pgdir (proc_at 0 s) = 0x80300000" and "pgdir (proc_at 1 s) = 0x80300000"
    and "length (ptable s) = 2" and "\<forall>j<8. PDX (nodes (proc_at 0 s) ! j) = 0" and "i + n \<le> 8"
  shows "\<exists>s'. fork_nodes n i 0 1 s = Inr s'"
  using assms
proof (induction n arbitrary: i s)
  case (Suc n)
  let ?a = "nodes (proc_at 0 s) ! i" and ?m = "one_page 0x500007"
  have i: "i < 8" using Suc.prems(6) by simp
  have tab: "has_table ?m 0x80300000 ?a" using Suc.prems(5) i by (simp add: one_page_view)
  have nz: "pte_slot ?m 0x80300000 ?a \<noteq> 0" by (rule pte_slot_nonzero [OF one_page_view(3) tab])
  define t where "t = upd_proc 1 (\<lambda>q. q\<lparr>nodes := (nodes q)[i := ?a]\<rparr>) s"
  have t: "node_set 1 (int i) ?a s = Inr t" using i by (simp add: node_set_def t_def)
  have p: "proc_at 0 t = proc_at 0 s" "pgdir (proc_at 1 t) = 0x80300000" "mem t = ?m" "length (ptable t) = 2"
    using Suc.prems(1-4) by (simp_all add: t_def proc_at_upd) (simp_all add: upd_proc_def)
  have "\<exists>s'. fork_nodes n (Suc i) 0 1 t = Inr s'"
    using Suc.prems p by (intro Suc.IH) simp_all
  moreover have "node_get (proc_at 0 s) (int i) = Inr ?a" using i by (simp add: node_get_def)
  ultimately show ?case
    using t p tab nz Suc.prems(1,2) by (simp add: walkpgdir_lookup Let_def has_def)
qed simp

theorem fork_clock_overruns_witness:
  "\<exists>s'. fork_clock 0 1 kst5 = Inr s' \<and> currInd (proc_at 1 s') = 8
     \<and> clock_add 1 0x80300000 0x5000 s' = Inl OutOfBounds"
proof -
  have q: "proc_at 0 kst5 = proc0\<lparr>nodes := [0, 0x1000, 0x2000, 0x3000, 0x4000, 0, 0, 0], inClock := 5, currInd := 5\<rparr>"
    "proc_at 1 kst5 = proc0" "length (ptable kst5) = 2" "mem kst5 = one_page 0x500007"
    by (simp_all add: kst5_def proc_at_def)
  have wf: "clock_wf (proc_at 0 kst5)"
    by (simp add: clock_wf_def q live_nodes_def)
  define s1 where "s1 = upd_proc 1 (\<lambda>q. q\<lparr>currInd := currInd (proc_at 0 kst5) + 3\<rparr>) kst5"
  define s2 where "s2 = upd_proc 1 (\<lambda>q. q\<lparr>inClock := inClock (proc_at 0 s1)\<rparr>) s1"
  have p1: "proc_at 0 s1 = proc_at 0 kst5" "length (ptable s1) = 2" "mem s1 = one_page 0x500007"
    "pgdir (proc_at 1 s1) = 0x80300000"
    using q by (simp_all add: s1_def proc_at_upd) (simp_all add: upd_proc_def)
  have p2: "proc_at 0 s2 = proc_at 0 kst5" "length (ptable s2) = 2" "mem s2 = one_page 0x500007"
    "pgdir (proc_at 1 s2) = 0x80300000"
    using p1 by (simp_all add: s2_def proc_at_upd) (simp_all add: upd_proc_def)
  have "PDX ([0, 0x1000, 0x2000, 0x3000, 0x4000, 0, 0, 0] ! j) = 0" if "j < 8" for j :: nat
  proof -
    have "j = 0 \<or> j = 1 \<or> j = 2 \<or> j = 3 \<or> j = 4 \<or> j = 5 \<or> j = 6 \<or> j = 7" using that by linarith
    then show ?thesis by (auto simp: PDX_def)
  qed
  then have "\<exists>s'. fork_nodes 5 0 0 1 s2 = Inr s'"
    using p2 q by (intro fork_nodes_shared) simp_all
  moreover have "fork_clock 0 1 kst5 = fork_nodes (nat (inClock (proc_at 0 s2))) 0 0 1 s2"
    unfolding fork_clock_def Let_def s1_def s2_def ..
  then have "fork_clock 0 1 kst5 = fork_nodes 5 0 0 1 s2" by (simp add: p2 q)
  ultimately obtain s' where s': "fork_clock 0 1 kst5 = Inr s'" by auto
  show ?thesis
    using fork_clock_overruns [OF wf, of 1 s' "0x80300000" "0x5000"] s' by (simp add: q)
qed

end
