(* ===== verification/Spinlock.thy ===== *)
theory Spinlock
  imports Proc
begin

text \<open>
  Spin locks and the nesting of interrupt disabling, \<^verbatim>\<open>src/src/spinlock.c\<close>, for several processors;
  \<open>sched\<close> of \<^verbatim>\<open>src/src/proc.c\<close>, which checks their state; and sleep locks, \<^verbatim>\<open>src/src/sleeplock.c\<close>. The executing
  processor is an argument. \<open>acquire\<close> is one atomic step, from disabling the interrupts to recording the holder. An \<open>acquire\<close> that
  finds the lock taken spins; that attempt is the outcome \<open>WouldBlock\<close> and leaves the state as it was: a processor that spins is not
  seen with its raised \<open>ncli\<close>, which only it reads. The recorded call stack of a lock is not modelled.
\<close>

section \<open>State and operations\<close>

record cpu =
  ncli :: int
  intena :: bool
  iflag :: bool

record spinlock =
  locked :: bool
  lcpu :: "nat option"

record lockst =
  cpus :: "cpu list"
  locks :: "spinlock list"

definition initlock :: "nat \<Rightarrow> lockst \<Rightarrow> lockst" where
  "initlock l s = s\<lparr>locks := (locks s)[l := \<lparr>locked = False, lcpu = None\<rparr>]\<rparr>"

definition pushcli :: "nat \<Rightarrow> lockst \<Rightarrow> lockst" where
  "pushcli c s =
    (let k = cpus s ! c; eflags = iflag k; k = k\<lparr>iflag := False\<rparr>;
         k = (if ncli k = 0 then k\<lparr>intena := eflags\<rparr> else k);
         k = k\<lparr>ncli := ncli k + 1\<rparr>
     in s\<lparr>cpus := (cpus s)[c := k]\<rparr>)"

definition popcli :: "nat \<Rightarrow> lockst \<Rightarrow> err + lockst" where
  "popcli c s =
    (let k = cpus s ! c in
     if iflag k then Inl (Panic ''popcli - interruptible'')
     else
       let k = k\<lparr>ncli := ncli k - 1\<rparr> in
       if ncli k < 0 then Inl (Panic ''popcli'')
       else
         let k = (if ncli k = 0 \<and> intena k then k\<lparr>iflag := True\<rparr> else k)
         in Inr (s\<lparr>cpus := (cpus s)[c := k]\<rparr>))"

definition holding :: "nat \<Rightarrow> nat \<Rightarrow> lockst \<Rightarrow> err + (bool \<times> lockst)" where
  "holding c l s =
    (let s = pushcli c s;
         r = (locked (locks s ! l) \<and> lcpu (locks s ! l) = Some c)
     in bindE (popcli c s) (\<lambda>s. Inr (r, s)))"

definition acquire :: "nat \<Rightarrow> nat \<Rightarrow> lockst \<Rightarrow> err + lockst" where
  "acquire c l s =
    (let s = pushcli c s in
     bindE (holding c l s) (\<lambda>(h, s).
     if h then Inl (Panic ''acquire'')
     else if locked (locks s ! l) then Inl WouldBlock
     else Inr (s\<lparr>locks := (locks s)[l := \<lparr>locked = True, lcpu = Some c\<rparr>]\<rparr>)))"

definition release :: "nat \<Rightarrow> nat \<Rightarrow> lockst \<Rightarrow> err + lockst" where
  "release c l s =
    bindE (holding c l s) (\<lambda>(h, s).
    if \<not> h then Inl (Panic ''release'')
    else popcli c (s\<lparr>locks := (locks s)[l := \<lparr>locked = False, lcpu = None\<rparr>]\<rparr>))"

text \<open>\<open>sched\<close>: the checks, then the switch to the scheduler and back, after which the
  saved \<open>intena\<close> is restored. \<open>away\<close> is what happens in between.\<close>

definition sched :: "nat \<Rightarrow> nat \<Rightarrow> procstate \<Rightarrow> (lockst \<Rightarrow> lockst) \<Rightarrow> lockst \<Rightarrow> err + lockst" where
  "sched c plock st away s =
    bindE (holding c plock s) (\<lambda>(h, s).
    if \<not> h then Inl (Panic ''sched ptable.lock'')
    else if ncli (cpus s ! c) \<noteq> 1 then Inl (Panic ''sched locks'')
    else if st = RUNNING then Inl (Panic ''sched running'')
    else if iflag (cpus s ! c) then Inl (Panic ''sched interruptible'')
    else
      let ie = intena (cpus s ! c); s = away s
      in Inr (s\<lparr>cpus := (cpus s)[c := (cpus s ! c)\<lparr>intena := ie\<rparr>]\<rparr>))"

section \<open>The discipline\<close>

definition held :: "nat \<Rightarrow> lockst \<Rightarrow> nat" where
  "held c s = length (filter (\<lambda>k. locked k \<and> lcpu k = Some c) (locks s))"

definition lock_inv :: "lockst \<Rightarrow> bool" where
  "lock_inv s \<longleftrightarrow>
     (\<forall>c<length (cpus s). ncli (cpus s ! c) = int (held c s) \<and> (iflag (cpus s ! c) \<longrightarrow> held c s = 0)) \<and>
     (\<forall>k\<in>set (locks s). locked k = (lcpu k \<noteq> None))"

text \<open>A processor takes or gives back a lock, or enables interrupts when it holds none
  (as the scheduler does).\<close>

inductive lock_step :: "lockst \<Rightarrow> lockst \<Rightarrow> bool" where
  acq: "c < length (cpus s) \<Longrightarrow> l < length (locks s) \<Longrightarrow> acquire c l s = Inr s' \<Longrightarrow> lock_step s s'"
| rel: "c < length (cpus s) \<Longrightarrow> l < length (locks s) \<Longrightarrow> release c l s = Inr s' \<Longrightarrow> lock_step s s'"
| sti: "c < length (cpus s) \<Longrightarrow> ncli (cpus s ! c) = 0 \<Longrightarrow>
    lock_step s (s\<lparr>cpus := (cpus s)[c := (cpus s ! c)\<lparr>iflag := True\<rparr>]\<rparr>)"

lemma holding_eq:
  assumes "0 \<le> ncli (cpus s ! c)" and "iflag (cpus s ! c) \<longrightarrow> ncli (cpus s ! c) = 0"
    and "c < length (cpus s)"
  shows "\<exists>s'. holding c l s = Inr (locked (locks s ! l) \<and> lcpu (locks s ! l) = Some c, s') \<and> locks s' = locks s
    \<and> length (cpus s') = length (cpus s)
    \<and> (\<forall>d. ncli (cpus s' ! d) = ncli (cpus s ! d) \<and> iflag (cpus s' ! d) = iflag (cpus s ! d))
    \<and> (\<forall>d. 0 < ncli (cpus s ! d) \<or> d \<noteq> c \<longrightarrow> intena (cpus s' ! d) = intena (cpus s ! d))"
  using assms
  by (auto simp: holding_def pushcli_def popcli_def Let_def nth_list_update)

lemma filter_update_count:
  "l < length xs \<Longrightarrow> length (filter P (xs[l := x])) + (if P (xs ! l) then 1 else 0) =
     length (filter P xs) + (if P x then 1 else 0)"
proof (induction xs arbitrary: l)
  case (Cons y ys)
  then show ?case by (cases l) auto
qed simp

lemma lock_inv_acquire:
  assumes inv: "lock_inv s" and c: "c < length (cpus s)" and l: "l < length (locks s)" and a: "acquire c l s = Inr s'"
  shows "lock_inv s'" and "lcpu (locks s' ! l) = Some c" and "\<not> iflag (cpus s' ! c)" and "\<not> locked (locks s ! l)"
proof -
  let ?s1 = "pushcli c s"
  have n: "ncli (cpus s ! c) = int (held c s)" "iflag (cpus s ! c) \<longrightarrow> held c s = 0"
    using inv c by (auto simp: lock_inv_def)
  have s1: "ncli (cpus ?s1 ! d) = (if d = c then int (held c s) + 1 else ncli (cpus s ! d))"
    "iflag (cpus ?s1 ! d) = (if d = c then False else iflag (cpus s ! d))"
    "locks ?s1 = locks s" "length (cpus ?s1) = length (cpus s)" for d
    using c n by (auto simp: pushcli_def Let_def nth_list_update)
  obtain s2 where h: "holding c l ?s1 = Inr (locked (locks s ! l) \<and> lcpu (locks s ! l) = Some c, s2)"
    and s2: "locks s2 = locks s" "length (cpus s2) = length (cpus s)"
      "\<forall>d. ncli (cpus s2 ! d) = ncli (cpus ?s1 ! d) \<and> iflag (cpus s2 ! d) = iflag (cpus ?s1 ! d)"
    using holding_eq [of ?s1 c l] s1 c by auto
  have nl: "\<not> locked (locks s ! l)" and s': "s' = s2\<lparr>locks := (locks s)[l := \<lparr>locked = True, lcpu = Some c\<rparr>]\<rparr>"
    using a h s2(1) by (auto simp: acquire_def Let_def split: if_splits)
  show "\<not> locked (locks s ! l)" by (rule nl)
  have hd: "held d s' = (if d = c then held d s + 1 else held d s)" for d
    using filter_update_count [OF l, of "\<lambda>k. locked k \<and> lcpu k = Some d" "\<lparr>locked = True, lcpu = Some c\<rparr>"] nl
    by (auto simp: held_def s')
  show "lcpu (locks s' ! l) = Some c" using l by (simp add: s')
  show "\<not> iflag (cpus s' ! c)" using s2(3) s1(2) by (simp add: s')
  have "\<forall>k\<in>set ((locks s)[l := \<lparr>locked = True, lcpu = Some c\<rparr>]). locked k = (lcpu k \<noteq> None)"
    using inv set_update_subset_insert [of "locks s" l "\<lparr>locked = True, lcpu = Some c\<rparr>"] by (auto simp: lock_inv_def)
  then show "lock_inv s'"
    using inv s2(2,3) s1(1,2) hd by (auto simp: lock_inv_def s')
qed

lemma popcli_Inr:
  assumes "popcli c t = Inr s'" and "c < length (cpus t)"
  shows "locks s' = locks t" "length (cpus s') = length (cpus t)"
    "ncli (cpus s' ! d) = (if d = c then ncli (cpus t ! c) - 1 else ncli (cpus t ! d))"
    "iflag (cpus s' ! d) = (if d = c then ncli (cpus t ! c) = 1 \<and> intena (cpus t ! c) else iflag (cpus t ! d))"
  using assms by (auto simp: popcli_def Let_def nth_list_update split: if_splits)

lemma lock_inv_release:
  assumes inv: "lock_inv s" and c: "c < length (cpus s)" and l: "l < length (locks s)" and r: "release c l s = Inr s'"
  shows "lock_inv s'"
proof -
  have n: "ncli (cpus s ! c) = int (held c s)" "iflag (cpus s ! c) \<longrightarrow> held c s = 0"
    using inv c by (auto simp: lock_inv_def)
  obtain s1 where h: "holding c l s = Inr (locked (locks s ! l) \<and> lcpu (locks s ! l) = Some c, s1)"
    and s1: "locks s1 = locks s" "length (cpus s1) = length (cpus s)"
      "\<forall>d. ncli (cpus s1 ! d) = ncli (cpus s ! d) \<and> iflag (cpus s1 ! d) = iflag (cpus s ! d)"
    using holding_eq [of s c l] n c by auto
  let ?s2 = "s1\<lparr>locks := (locks s)[l := \<lparr>locked = False, lcpu = None\<rparr>]\<rparr>"
  have mine: "locked (locks s ! l) \<and> lcpu (locks s ! l) = Some c" and p: "popcli c ?s2 = Inr s'"
    using r h s1(1) by (auto simp: release_def split: if_splits)
  have hd: "held d ?s2 + (if d = c then 1 else 0) = held d s" for d
    using filter_update_count [OF l, of "\<lambda>k. locked k \<and> lcpu k = Some d" "\<lparr>locked = False, lcpu = None\<rparr>"] mine
    by (auto simp: held_def)
  have s': "locks s' = locks ?s2" "length (cpus s') = length (cpus s)"
    "ncli (cpus s' ! d) = (if d = c then ncli (cpus s ! c) - 1 else ncli (cpus s ! d))"
    "iflag (cpus s' ! d) \<Longrightarrow> (if d = c then ncli (cpus s' ! c) = 0 else iflag (cpus s ! d))" for d
    using popcli_Inr(1,2) [OF p] popcli_Inr(3,4) [OF p, of d] popcli_Inr(3) [OF p, of c] s1 c
    by (simp_all split: if_splits)
  have "held d s' = held d ?s2" for d by (simp add: held_def s')
  moreover have "\<forall>k\<in>set ((locks s)[l := \<lparr>locked = False, lcpu = None\<rparr>]). locked k = (lcpu k \<noteq> None)"
    using inv set_update_subset_insert [of "locks s" l "\<lparr>locked = False, lcpu = None\<rparr>"] by (auto simp: lock_inv_def)
  moreover have "ncli (cpus s' ! d) = int (held d ?s2) \<and> (iflag (cpus s' ! d) \<longrightarrow> held d ?s2 = 0)"
    if "d < length (cpus s)" for d
  proof -
    have "ncli (cpus s ! d) = int (held d s)" "iflag (cpus s ! d) \<longrightarrow> held d s = 0"
      using inv that by (auto simp: lock_inv_def)
    then show ?thesis using s'(3,4) [of d] hd [of d] by (auto split: if_splits)
  qed
  ultimately show ?thesis using s'(1,2) by (simp add: lock_inv_def)
qed

lemma lock_inv_step: "lock_step s s' \<Longrightarrow> lock_inv s \<Longrightarrow> lock_inv s'"
proof (induction rule: lock_step.induct)
  case (acq c s l s')
  then show ?case by (blast intro: lock_inv_acquire)
next
  case (rel c s l s')
  then show ?case by (blast intro: lock_inv_release)
next
  case (sti c s)
  have h: "held d (s\<lparr>cpus := x\<rparr>) = held d s" for d x by (simp add: held_def)
  show ?case using sti by (auto simp: lock_inv_def h nth_list_update)
qed

lemma lock_inv_reachable: "lock_step\<^sup>*\<^sup>* s s' \<Longrightarrow> lock_inv s \<Longrightarrow> lock_inv s'"
  by (induction rule: rtranclp_induct) (auto intro: lock_inv_step)

lemma acquire_taken:
  assumes inv: "lock_inv s" and d: "d < length (cpus s)" and l: "l < length (locks s)" and t: "lcpu (locks s ! l) = Some c"
  shows "acquire d l s = (if d = c then Inl (Panic ''acquire'') else Inl WouldBlock)"
proof -
  let ?s1 = "pushcli d s"
  have n: "ncli (cpus s ! d) = int (held d s)" "iflag (cpus s ! d) \<longrightarrow> held d s = 0"
    using inv d by (auto simp: lock_inv_def)
  have lk: "locked (locks s ! l)" using inv l t nth_mem [OF l] by (auto simp: lock_inv_def)
  have s1: "ncli (cpus ?s1 ! d) = int (held d s) + 1" "\<not> iflag (cpus ?s1 ! d)" "locks ?s1 = locks s"
    "length (cpus ?s1) = length (cpus s)"
    using d n by (auto simp: pushcli_def Let_def)
  obtain s2 where "holding d l ?s1 = Inr (locked (locks s ! l) \<and> lcpu (locks s ! l) = Some d, s2)" "locks s2 = locks s"
    using holding_eq [of ?s1 d l] s1 d by auto
  then show ?thesis using lk t by (auto simp: acquire_def Let_def)
qed

text \<open>C13. Mutual exclusion with interrupts off. Whatever the processors have acquired and released before,
  a processor that gets the lock runs with interrupts disabled, no other processor can
  acquire it (they spin), and acquiring it twice is a panic; the nesting counts stay equal to the
  number of locks each processor holds.\<close>

theorem acquire_excludes:
  assumes "lock_inv s0" and "lock_step\<^sup>*\<^sup>* s0 s"
    and "c < length (cpus s)" and "d < length (cpus s)" and "l < length (locks s)" and "acquire c l s = Inr s'"
  shows "lock_inv s' \<and> \<not> iflag (cpus s' ! c) \<and>
    acquire d l s' = (if d = c then Inl (Panic ''acquire'') else Inl WouldBlock)"
proof -
  have inv: "lock_inv s" using assms(1,2) by (blast intro: lock_inv_reachable)
  note a = lock_inv_acquire [OF inv assms(3,5,6)]
  have len: "length (cpus s') = length (cpus s)" "length (locks s') = length (locks s)"
    using assms(6) by (auto simp: acquire_def holding_def pushcli_def popcli_def Let_def split: if_splits)
  show ?thesis using a acquire_taken [OF a(1) _ _ a(2)] assms(4,5) len by simp
qed

definition lockst0 :: lockst where
  "lockst0 = \<lparr>cpus = replicate 2 \<lparr>ncli = 0, intena = False, iflag = True\<rparr>,
     locks = replicate 3 \<lparr>locked = False, lcpu = None\<rparr>\<rparr>"

theorem acquire_excludes_witness:
  "\<exists>s'. acquire 0 2 lockst0 = Inr s' \<and> acquire 1 2 s' = Inl WouldBlock"
proof -
  have inv: "lock_inv lockst0" by (auto simp: lock_inv_def lockst0_def held_def nth_Cons')
  obtain s' where "acquire 0 2 lockst0 = Inr s'"
    by (simp add: acquire_def holding_def pushcli_def popcli_def lockst0_def Let_def numeral_eq_Suc)
  then show ?thesis
    using acquire_excludes [OF inv rtranclp.rtrancl_refl, of 0 1 2 s'] by (auto simp: lockst0_def)
qed

section \<open>Sleep locks\<close>

record sleeplock =
  slocked :: bool
  slpid :: int

record slst = kst +
  sleeplocks :: "nat \<Rightarrow> sleeplock"

definition initsleeplock :: "nat \<Rightarrow> 'a slst_scheme \<Rightarrow> 'a slst_scheme" where
  "initsleeplock l s = s\<lparr>sleeplocks := (sleeplocks s)(l := \<lparr>slocked = False, slpid = 0\<rparr>)\<rparr>"

text \<open>One turn of \<open>acquiresleep\<close>: the lock is taken (\<open>True\<close>), or the process goes to sleep
  on it and will try again when it wakes up.\<close>

definition acquiresleep :: "nat \<Rightarrow> 'a slst_scheme \<Rightarrow> err + (bool \<times> 'a slst_scheme)" where
  "acquiresleep l s =
    (if slocked (sleeplocks s l) then bindE (sleep_enter (ChanSleeplock l) True s) (\<lambda>s. Inr (False, s))
     else bindE (myproc s) (\<lambda>p.
       Inr (True, s\<lparr>sleeplocks := (sleeplocks s)(l := \<lparr>slocked = True, slpid = pid (proc_at p s)\<rparr>)\<rparr>)))"

definition releasesleep :: "nat \<Rightarrow> 'a slst_scheme \<Rightarrow> 'a slst_scheme" where
  "releasesleep l s =
    wakeup (ChanSleeplock l) (s\<lparr>sleeplocks := (sleeplocks s)(l := \<lparr>slocked = False, slpid = 0\<rparr>)\<rparr>)"

definition holdingsleep :: "nat \<Rightarrow> 'a slst_scheme \<Rightarrow> err + bool" where
  "holdingsleep l s = bindE (myproc s) (\<lambda>p.
     Inr (slocked (sleeplocks s l) \<and> slpid (sleeplocks s l) = pid (proc_at p s)))"

section \<open>The life of a sleep lock\<close>

text \<open>What a kernel thread and the scheduler can do while sleep locks are taken and released, in any order: the running process
  takes a lock it does not hold or goes to sleep on it, releases a lock it holds, clears its channel after \<open>sched\<close> has returned in
  \<open>sleep\<close>, sleeps on something else, yields, wakes a channel or kills a process; an idle processor visits a table entry.\<close>

inductive sleep_step :: "'a slst_scheme \<Rightarrow> 'a slst_scheme \<Rightarrow> bool" where
  take: "cpu_proc s = Some p \<Longrightarrow> \<not> (slocked (sleeplocks s l) \<and> slpid (sleeplocks s l) = pid (proc_at p s)) \<Longrightarrow>
     acquiresleep l s = Inr (got, s') \<Longrightarrow> sleep_step s s'"
| give: "holdingsleep l s = Inr True \<Longrightarrow> sleep_step s (releasesleep l s)"
| leave: "cpu_proc s = Some p \<Longrightarrow> sleep_step s (sleep_leave p s)"
| rest: "(\<And>l. c \<noteq> ChanSleeplock l) \<Longrightarrow> sleep_enter c True s = Inr s' \<Longrightarrow> sleep_step s s'"
| yields: "yield s = Inr s' \<Longrightarrow> sleep_step s s'"
| wakes: "sleep_step s (wakeup c s)"
| kills: "sleep_step s (snd (kill n s))"
| visits: "cpu_proc s = None \<Longrightarrow> p < length (ptable s) \<Longrightarrow> scheduler_visit p s = Inr s' \<Longrightarrow> sleep_step s s'"

abbreviation asleep_on :: "nat \<Rightarrow> nat \<Rightarrow> 'a slst_scheme \<Rightarrow> bool" where
  "asleep_on l q s \<equiv> pstate (proc_at q s) = SLEEPING \<and> pchan (proc_at q s) = Some (ChanSleeplock l)"

text \<open>The running process is in the table, nobody sleeps on a free lock, and a lock that is taken has a holder which does not itself wait for it.\<close>

definition sleep_inv :: "'a slst_scheme \<Rightarrow> bool" where
  "sleep_inv s \<longleftrightarrow> (\<forall>p. cpu_proc s = Some p \<longrightarrow> p < length (ptable s) \<and> pstate (proc_at p s) = RUNNING) \<and>
    (\<forall>l q. q < length (ptable s) \<longrightarrow> asleep_on l q s \<longrightarrow> slocked (sleeplocks s l)) \<and>
    (\<forall>l. slocked (sleeplocks s l) \<longrightarrow>
       (\<exists>h < length (ptable s). pid (proc_at h s) = slpid (sleeplocks s l) \<and> \<not> asleep_on l h s))"

lemma sleep_invD:
  assumes "sleep_inv s"
  shows "cpu_proc s = Some p \<Longrightarrow> p < length (ptable s) \<and> pstate (proc_at p s) = RUNNING"
    "q < length (ptable s) \<Longrightarrow> asleep_on l q s \<Longrightarrow> slocked (sleeplocks s l)"
    "slocked (sleeplocks s l) \<Longrightarrow> \<exists>h < length (ptable s). pid (proc_at h s) = slpid (sleeplocks s l) \<and> \<not> asleep_on l h s"
  using assms unfolding sleep_inv_def by blast+

text \<open>A step that changes no lock and puts no process to sleep on one keeps the invariant.\<close>

lemma sleep_inv_mono:
  assumes inv: "sleep_inv s" and len: "length (ptable t) = length (ptable s)" and sl: "sleeplocks t = sleeplocks s"
    and cpu: "\<And>p. cpu_proc t = Some p \<Longrightarrow> p < length (ptable s) \<and> pstate (proc_at p t) = RUNNING"
    and keep: "\<And>q l. q < length (ptable s) \<Longrightarrow> pid (proc_at q t) = pid (proc_at q s) \<and> (asleep_on l q t \<longrightarrow> asleep_on l q s)"
  shows "sleep_inv t"
  unfolding sleep_inv_def len sl
proof (intro conjI allI impI)
  fix l assume "slocked (sleeplocks s l)"
  then obtain h where "h < length (ptable s)" "pid (proc_at h s) = slpid (sleeplocks s l)" "\<not> asleep_on l h s"
    using sleep_invD(3) [OF inv] by blast
  then show "\<exists>h < length (ptable s). pid (proc_at h t) = slpid (sleeplocks s l) \<and> \<not> asleep_on l h t"
    using keep [of h l] by auto
qed (use cpu keep sleep_invD(2) [OF inv] in blast)+

lemma proc_at_upd_proc: "p < length (ptable s) \<Longrightarrow> proc_at q (upd_proc p f s) = (if q = p then f (proc_at p s) else proc_at q s)"
  by (simp add: upd_proc_def proc_at_def)

lemma upd_proc_frame [simp]:
  "length (ptable (upd_proc p f s)) = length (ptable s)" "cpu_proc (upd_proc p f s) = cpu_proc s"
  "sleeplocks (upd_proc p f (s' :: 'b slst_scheme)) = sleeplocks s'" "proc_at q (s\<lparr>cpu_proc := c\<rparr>) = proc_at q s"
  by (simp_all add: upd_proc_def proc_at_def)

lemma scan_bound: "scan P i ps = Some j \<Longrightarrow> i \<le> j \<and> j < i + length ps"
  by (induction P i ps rule: scan.induct) (auto split: if_splits)

lemma take_inv:
  assumes inv: "sleep_inv s" and p: "cpu_proc s = Some p" and other: "\<not> (slocked (sleeplocks s l) \<and> slpid (sleeplocks s l) = pid (proc_at p s))"
    and a: "acquiresleep l s = Inr (got, s')"
  shows "sleep_inv s'"
proof -
  note rp = sleep_invD(1) [OF inv p]
  show ?thesis
  proof (cases "slocked (sleeplocks s l)")
    case True
    then have s': "s' = (upd_proc p (\<lambda>q. q\<lparr>pchan := Some (ChanSleeplock l), pstate := SLEEPING\<rparr>) s)\<lparr>cpu_proc := None\<rparr>"
      using a p by (simp add: acquiresleep_def sleep_enter_def)
    have at: "proc_at q s' = (if q = p then (proc_at p s)\<lparr>pchan := Some (ChanSleeplock l), pstate := SLEEPING\<rparr> else proc_at q s)" for q
      using rp by (simp add: s' proc_at_upd_proc)
    have fr: "ptable s' = ptable (upd_proc p (\<lambda>q. q\<lparr>pchan := Some (ChanSleeplock l), pstate := SLEEPING\<rparr>) s)" "sleeplocks s' = sleeplocks s" "cpu_proc s' = None"
      by (simp_all add: s')
    have "\<exists>h < length (ptable s). pid (proc_at h s') = slpid (sleeplocks s k) \<and> \<not> asleep_on k h s'" if k: "slocked (sleeplocks s k)" for k
    proof -
      obtain h where h: "h < length (ptable s)" "pid (proc_at h s) = slpid (sleeplocks s k)" "\<not> asleep_on k h s"
        using sleep_invD(3) [OF inv k] by blast
      have "\<not> (h = p \<and> k = l)" using h(2) other True by auto
      then show ?thesis using h by (intro exI [of _ h]) (auto simp: at)
    qed
    then show ?thesis using sleep_invD(2) [OF inv] True by (auto simp: sleep_inv_def fr at)
  next
    case False
    then have s': "s' = s\<lparr>sleeplocks := (sleeplocks s)(l := \<lparr>slocked = True, slpid = pid (proc_at p s)\<rparr>)\<rparr>"
      using a p by (simp add: acquiresleep_def myproc_def)
    have at: "proc_at q s' = proc_at q s" for q by (simp add: s' proc_at_def)
    have fr: "ptable s' = ptable s" "cpu_proc s' = cpu_proc s" by (simp_all add: s')
    show ?thesis unfolding sleep_inv_def fr at
    proof (intro conjI allI impI)
      fix k assume "slocked (sleeplocks s' k)"
      then show "\<exists>h < length (ptable s). pid (proc_at h s) = slpid (sleeplocks s' k) \<and> \<not> asleep_on k h s"
        using sleep_invD(3) [OF inv, of k] rp by (cases "k = l") (auto simp: s')
    qed (use sleep_invD(1,2) [OF inv] in \<open>auto simp: s'\<close>)
  qed
qed

lemma proc_at_wakeup:
  "q < length (ptable s) \<Longrightarrow> proc_at q (wakeup c s) =
    (if pstate (proc_at q s) = SLEEPING \<and> pchan (proc_at q s) = Some c then (proc_at q s)\<lparr>pstate := RUNNABLE\<rparr> else proc_at q s)"
  by (simp add: wakeup_def wakeup1_def proc_at_def)

lemma wakeup_frame [simp]:
  "length (ptable (wakeup c s)) = length (ptable s)" "cpu_proc (wakeup c s) = cpu_proc s" "sleeplocks (wakeup c (s' :: 'b slst_scheme)) = sleeplocks s'"
  by (simp_all add: wakeup_def wakeup1_def)

lemma wakeup_inv:
  assumes inv: "sleep_inv s"
  shows "sleep_inv (wakeup c s)"
  by (rule sleep_inv_mono [OF inv]) (use sleep_invD(1) [OF inv] in \<open>auto simp: proc_at_wakeup\<close>)

lemma give_inv:
  assumes inv: "sleep_inv s"
  shows "sleep_inv (releasesleep l s)"
proof -
  let ?t = "s\<lparr>sleeplocks := (sleeplocks s)(l := \<lparr>slocked = False, slpid = 0\<rparr>)\<rparr>"
  have at: "proc_at q ?t = proc_at q s" for q by (simp add: proc_at_def)
  have r: "q < length (ptable s) \<Longrightarrow> proc_at q (releasesleep l s) =
      (if asleep_on l q s then (proc_at q s)\<lparr>pstate := RUNNABLE\<rparr> else proc_at q s)" for q
    using proc_at_wakeup [of q ?t "ChanSleeplock l"] by (simp only: releasesleep_def at) simp
  have fr: "length (ptable (releasesleep l s)) = length (ptable s)" "cpu_proc (releasesleep l s) = cpu_proc s"
    "sleeplocks (releasesleep l s) = (sleeplocks s)(l := \<lparr>slocked = False, slpid = 0\<rparr>)"
    by (simp_all add: releasesleep_def)
  show ?thesis unfolding sleep_inv_def fr
  proof (intro conjI allI impI)
    fix k assume k: "slocked (((sleeplocks s)(l := \<lparr>slocked = False, slpid = 0\<rparr>)) k)"
    then obtain h where "h < length (ptable s)" "pid (proc_at h s) = slpid (sleeplocks s k)" "\<not> asleep_on k h s"
      using sleep_invD(3) [OF inv, of k] by (auto split: if_splits)
    then show "\<exists>h < length (ptable s). pid (proc_at h (releasesleep l s)) = slpid (((sleeplocks s)(l := \<lparr>slocked = False, slpid = 0\<rparr>)) k)
        \<and> \<not> asleep_on k h (releasesleep l s)"
      using k by (intro exI [of _ h]) (auto simp: r split: if_splits)
  next
    fix k q assume q: "q < length (ptable s)" "asleep_on k q (releasesleep l s)"
    then have "asleep_on k q s" "k \<noteq> l" by (auto simp: r split: if_splits)
    then show "slocked (((sleeplocks s)(l := \<lparr>slocked = False, slpid = 0\<rparr>)) k)" using sleep_invD(2) [OF inv q(1)] by simp
  qed (use sleep_invD(1) [OF inv] r in auto)
qed

lemma visit_effect:
  assumes "scheduler_visit p s = Inr s'" and "p < length (ptable s)"
  shows "s' = s \<or> pstate (proc_at p s) = RUNNABLE \<and> length (ptable s') = length (ptable s) \<and> cpu_proc s' = Some p
    \<and> (\<forall>q. proc_at q s' = (if q = p then (proc_at p s)\<lparr>pstate := RUNNING\<rparr> else proc_at q s))"
  using assms by (auto simp: scheduler_visit_def switchuvm_def proc_at_upd_proc split: if_splits) (simp_all add: proc_at_def upd_proc_def)

lemma visit_locks: "scheduler_visit p s = Inr s' \<Longrightarrow> sleeplocks s' = sleeplocks (s :: 'a slst_scheme)"
  by (auto simp: scheduler_visit_def switchuvm_def split: if_splits)

lemma sleep_step_inv:
  assumes "sleep_step s s'" and inv: "sleep_inv s"
  shows "sleep_inv s'"
  using assms(1)
proof cases
  case (take p l got)
  then show ?thesis by (intro take_inv [OF inv])
next
  case (give l)
  then show ?thesis using give_inv [OF inv] by simp
next
  case (leave p)
  note rp = sleep_invD(1) [OF inv leave(2)]
  have at: "proc_at q s' = (if q = p then (proc_at p s)\<lparr>pchan := None\<rparr> else proc_at q s)" for q
    using rp by (simp add: leave(1) sleep_leave_def proc_at_upd_proc)
  show ?thesis by (rule sleep_inv_mono [OF inv]) (use rp leave(2) in \<open>auto simp: at\<close>, simp_all add: leave(1) sleep_leave_def)
next
  case (rest c)
  obtain p where p: "cpu_proc s = Some p" "s' = (upd_proc p (\<lambda>q. q\<lparr>pchan := Some c, pstate := SLEEPING\<rparr>) s)\<lparr>cpu_proc := None\<rparr>"
    using rest(2) by (auto simp: sleep_enter_def split: option.splits)
  have at: "proc_at q s' = (if q = p then (proc_at p s)\<lparr>pchan := Some c, pstate := SLEEPING\<rparr> else proc_at q s)" for q
    using sleep_invD(1) [OF inv p(1)] by (simp add: p(2) proc_at_upd_proc)
  show ?thesis by (rule sleep_inv_mono [OF inv]) (use rest(1) in \<open>auto simp: at\<close>, simp_all add: p(2))
next
  case yields
  obtain p where p: "cpu_proc s = Some p" "s' = (upd_proc p (\<lambda>q. q\<lparr>pstate := RUNNABLE\<rparr>) s)\<lparr>cpu_proc := None\<rparr>"
    using yields by (auto simp: yield_def myproc_def split: option.splits)
  have at: "proc_at q s' = (if q = p then (proc_at p s)\<lparr>pstate := RUNNABLE\<rparr> else proc_at q s)" for q
    using sleep_invD(1) [OF inv p(1)] by (simp add: p(2) proc_at_upd_proc)
  show ?thesis by (rule sleep_inv_mono [OF inv]) (auto simp: at, simp_all add: p(2))
next
  case (wakes c)
  then show ?thesis using wakeup_inv [OF inv] by simp
next
  case (kills n)
  show ?thesis
  proof (cases "scan (\<lambda>p. pid p = n) 0 (ptable s)")
    case None
    then show ?thesis using kills inv by (simp add: kill_def)
  next
    case (Some i)
    have i: "i < length (ptable s)" using scan_bound [OF Some] by simp
    have s': "s' = upd_proc i (\<lambda>p. p\<lparr>killed := True, pstate := (if pstate p = SLEEPING then RUNNABLE else pstate p)\<rparr>) s"
      using kills Some by (simp add: kill_def)
    show ?thesis by (rule sleep_inv_mono [OF inv]) (use sleep_invD(1) [OF inv] in \<open>auto simp: s' proc_at_upd_proc [OF i]\<close>)
  qed
next
  case (visits p)
  show ?thesis
    using visit_effect [OF visits(3,2)]
  proof
    assume "s' = s"
    then show ?thesis using inv by simp
  next
    assume e: "pstate (proc_at p s) = RUNNABLE \<and> length (ptable s') = length (ptable s) \<and> cpu_proc s' = Some p
      \<and> (\<forall>q. proc_at q s' = (if q = p then (proc_at p s)\<lparr>pstate := RUNNING\<rparr> else proc_at q s))"
    show ?thesis by (rule sleep_inv_mono [OF inv _ visit_locks [OF visits(3)]]) (use e visits(2) in auto)
  qed
qed

lemma sleep_inv_reachable: "sleep_step\<^sup>*\<^sup>* s s' \<Longrightarrow> sleep_inv s \<Longrightarrow> sleep_inv s'"
  by (induction rule: rtranclp_induct) (blast intro: sleep_step_inv)+

text \<open>A runnable process stays so until it is given the processor.\<close>

lemma sleep_step_runnable:
  assumes "sleep_step s s'" and inv: "sleep_inv s" and q: "q < length (ptable s)" "pstate (proc_at q s) = RUNNABLE"
  shows "length (ptable s') = length (ptable s) \<and> (pstate (proc_at q s') = RUNNABLE \<or> cpu_proc s' = Some q)"
proof -
  have np: "cpu_proc s \<noteq> Some q" using sleep_invD(1) [OF inv, of q] q(2) by auto
  have up: "length (ptable (upd_proc p f s)) = length (ptable s) \<and> pstate (proc_at q (upd_proc p f s)) = RUNNABLE" if "cpu_proc s = Some p" for p f
    using proc_at_upd_proc [of p s q f] sleep_invD(1) [OF inv that] np that q(2) by auto
  show ?thesis
    using assms(1)
  proof cases
    case (take p l got)
    then show ?thesis using up [OF take(1)] q(2)
      by (cases "slocked (sleeplocks s l)") (auto simp: acquiresleep_def sleep_enter_def myproc_def, simp add: proc_at_def)
  next
    case (give l)
    let ?t = "s\<lparr>sleeplocks := (sleeplocks s)(l := \<lparr>slocked = False, slpid = 0\<rparr>)\<rparr>"
    have "proc_at q ?t = proc_at q s" by (simp add: proc_at_def)
    then show ?thesis using give q proc_at_wakeup [of q ?t "ChanSleeplock l"] by (simp add: releasesleep_def)
  next
    case (leave p)
    then show ?thesis using up by (simp add: sleep_leave_def)
  next
    case (rest c)
    then show ?thesis using up by (auto simp: sleep_enter_def split: option.splits)
  next
    case yields
    then show ?thesis using up by (auto simp: yield_def myproc_def split: option.splits)
  next
    case (wakes c)
    then show ?thesis using q by (simp add: proc_at_wakeup)
  next
    case (kills n)
    then show ?thesis using q scan_bound [of "\<lambda>p. pid p = n" 0 "ptable s"]
      by (auto simp: kill_def proc_at_upd_proc split: option.splits)
  next
    case (visits p)
    then show ?thesis using visit_effect [OF visits(3,2)] q by (cases "q = p") auto
  qed
qed

lemma runnable_until_scheduled:
  assumes "sleep_step\<^sup>*\<^sup>* r t" and inv: "sleep_inv r" and q: "q < length (ptable r)" "pstate (proc_at q r) = RUNNABLE"
  shows "length (ptable t) = length (ptable r) \<and> pstate (proc_at q t) = RUNNABLE \<or>
    (\<exists>u. sleep_step\<^sup>*\<^sup>* r u \<and> cpu_proc u = Some q \<and> sleep_step\<^sup>*\<^sup>* u t)"
  using assms(1)
proof (induction rule: rtranclp_induct)
  case base
  then show ?case using q by simp
next
  case (step t t')
  have reach: "sleep_step\<^sup>*\<^sup>* r t'" using step(1,2) by (rule rtranclp.rtrancl_into_rtrancl)
  show ?case
    using step(3)
  proof
    assume "length (ptable t) = length (ptable r) \<and> pstate (proc_at q t) = RUNNABLE"
    then have "length (ptable t') = length (ptable r) \<and> (pstate (proc_at q t') = RUNNABLE \<or> cpu_proc t' = Some q)"
      using sleep_step_runnable [OF step(2) sleep_inv_reachable [OF step(1) inv], of q] q(1) by simp
    then show ?thesis using reach by blast
  next
    assume "\<exists>u. sleep_step\<^sup>*\<^sup>* r u \<and> cpu_proc u = Some q \<and> sleep_step\<^sup>*\<^sup>* u t"
    then show ?thesis using step(2) by (meson rtranclp.rtrancl_into_rtrancl)
  qed
qed

text \<open>A woken process that runs again clears its channel and tries the lock again.\<close>

lemma retry:
  assumes inv: "sleep_inv u" and q: "cpu_proc u = Some q"
  shows "\<exists>u'. acquiresleep l (sleep_leave q u) = Inr (\<not> slocked (sleeplocks u l), u') \<and> slocked (sleeplocks u' l) \<and>
    (if slocked (sleeplocks u l) then asleep_on l q u' else holdingsleep l u' = Inr True)"
proof -
  have len: "q < length (ptable u)" using sleep_invD(1) [OF inv q] by simp
  have at: "proc_at q (sleep_leave q u) = (proc_at q u)\<lparr>pchan := None\<rparr>" "cpu_proc (sleep_leave q u) = Some q"
    "sleeplocks (sleep_leave q u) = sleeplocks u" "length (ptable (sleep_leave q u)) = length (ptable u)"
    using len q by (simp_all add: sleep_leave_def proc_at_upd_proc)
  have f: "proc_at q (s\<lparr>sleeplocks := x\<rparr>) = proc_at q s" for x and s :: "'a slst_scheme" by (simp add: proc_at_def)
  show ?thesis
    using at len by (cases "slocked (sleeplocks u l)") (simp_all add: acquiresleep_def sleep_enter_def holdingsleep_def myproc_def proc_at_upd_proc f)
qed

lemma visit_runnable:
  assumes "q < length (ptable t)" and "pstate (proc_at q t) = RUNNABLE" and "kstack (proc_at q t) \<noteq> 0" and "pgdir (proc_at q t) \<noteq> 0"
  shows "\<exists>u. scheduler_visit q t = Inr u \<and> cpu_proc u = Some q"
  using assms by (simp add: scheduler_visit_def switchuvm_def)


declare upd_proc_frame [simp del] wakeup_frame [simp del]

text \<open>An example: process 0 runs and holds lock 3, process 1 sleeps on it.\<close>

definition sleepproc :: "procstate \<Rightarrow> int \<Rightarrow> chan option \<Rightarrow> proc" where
  "sleepproc st n c = \<lparr>sz = 0, pgdir = 0x80300000, kstack = 0x80400000, pstate = st, pid = n, parent = None, tf = 0, pcontext = 0, pchan = c,
     killed = False, ofile = [], cwd = None, pname = [], nodes = [], inClock = 0, currInd = 0\<rparr>"

definition sleepst0 :: slst where
  "sleepst0 = \<lparr>mem = \<lambda>_. 0, freelist = 0, use_lock = True, cr3 = 0, kend = 0, kdata = 0,
     ptable = [sleepproc RUNNING 4 None, sleepproc SLEEPING 5 (Some (ChanSleeplock 3))], cpu_proc = Some 0, nextpid = 6, initproc = None,
     ticks = 0, gdt = [], ts_ss0 = 0, ts_esp0 = 0, ts_iomb = 0, cpu_ts = 0, kpgdir = 0, ktrapret = 0, kforkret = 0,
     sleeplocks = (\<lambda>_. \<lparr>slocked = False, slpid = 0\<rparr>)(3 := \<lparr>slocked = True, slpid = 4\<rparr>)\<rparr>"


end
