(* ===== verification/Pipe.thy ===== *)
theory Pipe
  imports Spinlock
begin

text \<open>
  Pipes, \<^verbatim>\<open>src/src/pipe.c\<close>: a ring of 512 bytes with running counts of bytes read and written.
  A call runs under the pipe's lock up to its next \<open>sleep\<close>; such a stretch is one step, and
  its outcome says whether the call returned or went to sleep and with what is left to
  do. The user buffer is the list of its bytes. \<open>pipealloc\<close>, which needs the file table, is in theory
  \<open>File\<close>.
\<close>

section \<open>State and operations\<close>

record pipe =
  pdata :: "u8 list"
  nread :: u32
  nwrite :: u32
  readopen :: bool
  writeopen :: bool

text \<open>Pipes by the address of the page that holds them.\<close>

record pipest = slst +
  pipes :: "u32 \<Rightarrow> pipe"

definition PIPESIZE :: nat where [simp]: "PIPESIZE = 512"

definition upd_pipe :: "u32 \<Rightarrow> (pipe \<Rightarrow> pipe) \<Rightarrow> 'a pipest_scheme \<Rightarrow> 'a pipest_scheme" where
  "upd_pipe a f s = s\<lparr>pipes := (pipes s)(a := f (pipes s a))\<rparr>"

definition pipeclose :: "u32 \<Rightarrow> bool \<Rightarrow> 'a pipest_scheme \<Rightarrow> err + 'a pipest_scheme" where
  "pipeclose a writable s =
    (let s = (if writable then wakeup (ChanPipeRead a) (upd_pipe a (\<lambda>p. p\<lparr>writeopen := False\<rparr>) s)
              else wakeup (ChanPipeWrite a) (upd_pipe a (\<lambda>p. p\<lparr>readopen := False\<rparr>) s))
     in if \<not> readopen (pipes s a) \<and> \<not> writeopen (pipes s a) then kfree a s else Inr s)"

text \<open>The ring operations in the two loops.\<close>

definition put :: "u8 \<Rightarrow> pipe \<Rightarrow> pipe" where
  "put b p = p\<lparr>pdata := (pdata p)[unat (nwrite p) mod PIPESIZE := b], nwrite := nwrite p + 1\<rparr>"

definition get :: "pipe \<Rightarrow> u8 \<times> pipe" where
  "get p = (pdata p ! (unat (nread p) mod PIPESIZE), p\<lparr>nread := nread p + 1\<rparr>)"

datatype wr_out = Wrote int | WriteSleeps "u8 list"
datatype rd_out = Got "u8 list" | ReadFailed | ReadSleeps

fun pipewrite_loop :: "u32 \<Rightarrow> u8 list \<Rightarrow> int \<Rightarrow> 'a pipest_scheme \<Rightarrow> err + (wr_out \<times> 'a pipest_scheme)" where
  "pipewrite_loop a [] n s = Inr (Wrote n, wakeup (ChanPipeRead a) s)"
| "pipewrite_loop a (b # bs) n s =
    (if nwrite (pipes s a) = nread (pipes s a) + of_nat PIPESIZE then
       bindE (myproc s) (\<lambda>me.
       if \<not> readopen (pipes s a) \<or> killed (proc_at me s) then Inr (Wrote (-1), s)
       else bindE (sleep_enter (ChanPipeWrite a) True (wakeup (ChanPipeRead a) s)) (\<lambda>s. Inr (WriteSleeps (b # bs), s)))
     else pipewrite_loop a bs n (upd_pipe a (put b) s))"

definition pipewrite :: "u32 \<Rightarrow> u8 list \<Rightarrow> int \<Rightarrow> 'a pipest_scheme \<Rightarrow> err + (wr_out \<times> 'a pipest_scheme)" where
  "pipewrite a buf n s = pipewrite_loop a (take (nat n) buf) n s"

fun piperead_loop :: "nat \<Rightarrow> u32 \<Rightarrow> 'a pipest_scheme \<Rightarrow> u8 list \<times> 'a pipest_scheme" where
  "piperead_loop 0 a s = ([], s)"
| "piperead_loop (Suc n) a s =
    (if nread (pipes s a) = nwrite (pipes s a) then ([], s)
     else
       let (b, p) = get (pipes s a);
           (bs, s) = piperead_loop n a (upd_pipe a (\<lambda>_. p) s)
       in (b # bs, s))"

definition piperead :: "u32 \<Rightarrow> int \<Rightarrow> 'a pipest_scheme \<Rightarrow> err + (rd_out \<times> 'a pipest_scheme)" where
  "piperead a n s =
    (if nread (pipes s a) = nwrite (pipes s a) \<and> writeopen (pipes s a) then
       bindE (myproc s) (\<lambda>me.
       if killed (proc_at me s) then Inr (ReadFailed, s)
       else bindE (sleep_enter (ChanPipeRead a) True s) (\<lambda>s. Inr (ReadSleeps, s)))
     else
       let (bs, s) = piperead_loop (nat n) a s in Inr (Got bs, wakeup (ChanPipeWrite a) s))"

section \<open>The bytes in transit\<close>

definition fill :: "pipe \<Rightarrow> nat" where "fill p = unat (nwrite p - nread p)"

definition contents :: "pipe \<Rightarrow> u8 list" where
  "contents p = map (\<lambda>i. pdata p ! ((unat (nread p) + i) mod 512)) [0..<fill p]"

definition pipe_wf :: "pipe \<Rightarrow> bool" where
  "pipe_wf p \<longleftrightarrow> length (pdata p) = 512 \<and> fill p \<le> 512"

lemma unat_mod_512: "unat (x + y :: u32) mod 512 = (unat x + unat y) mod 512"
  by (simp add: unat_add32 mod_mod_cancel)

lemma write_index: "unat (nwrite p) mod 512 = (unat (nread p) + fill p) mod 512"
  using unat_mod_512 [of "nread p" "nwrite p - nread p"] by (simp add: fill_def)

lemma ring_index_neq:
  assumes "i < n" and "n \<le> i + 511"
  shows "(r + i) mod 512 \<noteq> (r + n) mod (512 :: nat)"
proof
  assume "(r + i) mod 512 = (r + n) mod 512"
  then have "512 dvd (r + n) - (r + i)"
    using assms(1) mod_eq_dvd_iff_nat [of "r + i" "r + n" 512] by simp
  then show False using assms by (auto dest: dvd_imp_le)
qed

lemma full_iff: "pipe_wf p \<Longrightarrow> nwrite p = nread p + 512 \<longleftrightarrow> fill p = 512"
proof -
  have "nwrite p = nread p + 512 \<longleftrightarrow> nwrite p - nread p = 512" by (auto simp: algebra_simps)
  also have "\<dots> \<longleftrightarrow> fill p = 512" unfolding fill_def by (subst word_unat_eq_iff) simp
  finally show ?thesis .
qed

lemma empty_iff: "nread p = nwrite p \<longleftrightarrow> fill p = 0"
  by (auto simp: fill_def unat_eq_0)

lemma put_contents:
  assumes wf: "pipe_wf p" and nf: "fill p < 512"
  shows "contents (put b p) = contents p @ [b]" and "pipe_wf (put b p)"
proof -
  have f: "fill (put b p) = Suc (fill p)"
  proof -
    have "fill (put b p) = unat ((nwrite p - nread p) + 1)"
      by (simp add: fill_def put_def algebra_simps)
    also have "\<dots> = (fill p + 1) mod 2 ^ 32" by (simp add: fill_def unat_add32)
    finally show ?thesis using nf by simp
  qed
  have len: "length (pdata p) = 512" using wf by (simp add: pipe_wf_def)
  show "pipe_wf (put b p)" using nf len by (simp add: pipe_wf_def f) (simp add: put_def)
  have "(pdata p)[unat (nwrite p) mod 512 := b] ! ((unat (nread p) + i) mod 512) =
      (if i = fill p then b else pdata p ! ((unat (nread p) + i) mod 512))" if "i \<le> fill p" for i
    using ring_index_neq [of i "fill p" "unat (nread p)"] that nf len by (auto simp: write_index)
  then show "contents (put b p) = contents p @ [b]"
    unfolding contents_def f by (simp add: put_def)
qed

lemma get_contents:
  assumes wf: "pipe_wf p" and ne: "fill p \<noteq> 0"
  shows "contents p = fst (get p) # contents (snd (get p))" and "pipe_wf (snd (get p))"
    and "nwrite (snd (get p)) = nwrite p"
proof -
  have ge: "1 \<le> nwrite p - nread p" using ne by (simp add: fill_def word_le_nat_alt)
  have "fill (snd (get p)) = unat (nwrite p - nread p - 1)"
    by (simp add: fill_def get_def algebra_simps)
  then have f: "fill p = Suc (fill (snd (get p)))"
    using unat_sub_le [OF ge] ne by (simp add: fill_def)
  have r: "(unat (nread p + 1) + i) mod 512 = (unat (nread p) + Suc i) mod 512" for i
    using mod_add_cong [OF unat_mod_512 [of "nread p" 1] refl, of i] by simp
  show "contents p = fst (get p) # contents (snd (get p))"
    unfolding contents_def f by (simp add: get_def r map_upt_Suc del: upt_Suc)
  show "pipe_wf (snd (get p))" using wf f by (simp add: pipe_wf_def) (simp add: get_def)
  show "nwrite (snd (get p)) = nwrite p" by (simp add: get_def)
qed

section \<open>The contract of a bounded queue\<close>

locale bounded_queue =
  fixes enq :: "'b \<Rightarrow> 'q \<Rightarrow> 'q"
    and deq :: "'q \<Rightarrow> 'b \<times> 'q"
    and items :: "'q \<Rightarrow> 'b list"
    and inv :: "'q \<Rightarrow> bool"
    and cap :: nat
  assumes enq_items: "inv q \<Longrightarrow> length (items q) < cap \<Longrightarrow> items (enq b q) = items q @ [b] \<and> inv (enq b q)"
    and deq_items: "inv q \<Longrightarrow> items q \<noteq> [] \<Longrightarrow> items q = fst (deq q) # items (snd (deq q)) \<and> inv (snd (deq q))"
begin

lemma enq_all:
  "inv q \<Longrightarrow> length (items q) + length bs \<le> cap \<Longrightarrow> items (fold enq bs q) = items q @ bs \<and> inv (fold enq bs q)"
proof (induction bs arbitrary: q)
  case (Cons b bs)
  have "items (enq b q) = items q @ [b] \<and> inv (enq b q)" using enq_items Cons.prems by simp
  then show ?case using Cons.IH [of "enq b q"] Cons.prems by simp
qed simp

lemma deq_hd: "inv q \<Longrightarrow> items q \<noteq> [] \<Longrightarrow> fst (deq q) = hd (items q) \<and> items (snd (deq q)) = tl (items q) \<and> inv (snd (deq q))"
  using deq_items [of q] by (metis list.sel(1,3))

end

lemma length_contents [simp]: "length (contents p) = fill p" by (simp add: contents_def)

interpretation pq: bounded_queue put get contents pipe_wf 512
proof unfold_locales
  fix q b
  show "pipe_wf q \<Longrightarrow> length (contents q) < 512 \<Longrightarrow> contents (put b q) = contents q @ [b] \<and> pipe_wf (put b q)"
    using put_contents [of q b] by simp
  show "pipe_wf q \<Longrightarrow> contents q \<noteq> [] \<Longrightarrow>
      contents q = fst (get q) # contents (snd (get q)) \<and> pipe_wf (snd (get q))"
    using get_contents [of q] by (metis length_0_conv length_contents)
qed

section \<open>What the two loops do to the ring\<close>

lemma pipes_wakeup [simp]: "pipes (wakeup c s) = pipes s" by (simp add: wakeup_def wakeup1_def)

lemma pipes_sleep_enter: "sleep_enter c lk s = Inr s' \<Longrightarrow> pipes s' = pipes s"
  by (auto simp: sleep_enter_def upd_proc_def split: option.splits if_splits)

lemma pipes_upd_pipe [simp]: "pipes (upd_pipe a f s) = (pipes s)(a := f (pipes s a))"
  by (simp add: upd_pipe_def)

text \<open>The bytes a stretch of \<open>pipewrite\<close> takes: as many as there is room for.\<close>

definition accepted :: "pipe \<Rightarrow> u8 list \<Rightarrow> u8 list" where
  "accepted p bs = take (512 - fill p) bs"

lemma pipewrite_loop_ring:
  assumes "pipe_wf (pipes s a)" and "pipewrite_loop a bs n s = Inr (out, s')"
  shows "pipes s' = (pipes s)(a := fold put (accepted (pipes s a) bs) (pipes s a))"
    and "case out of WriteSleeps rest \<Rightarrow> bs = accepted (pipes s a) bs @ rest \<and> rest \<noteq> []
         | Wrote k \<Rightarrow> k = n \<and> accepted (pipes s a) bs = bs \<or> k = -1 \<and> 512 - fill (pipes s a) < length bs"
  using assms
proof (induction a bs n s rule: pipewrite_loop.induct)
  case (1 a n s)
  { case 1 then show ?case by (auto simp: accepted_def) }
  { case 2 then show ?case by (auto simp: accepted_def) }
next
  case (2 a b bs n s)
  let ?p = "pipes s a"
  have full: "nwrite ?p = nread ?p + 512 \<longleftrightarrow> fill ?p = 512" if "pipe_wf ?p" using full_iff that by simp
  have ih: "fill ?p \<noteq> 512 \<Longrightarrow> pipe_wf ?p \<Longrightarrow> fill ?p < 512 \<and> pipe_wf (put b ?p) \<and> fill (put b ?p) = Suc (fill ?p)"
    using put_contents [of ?p b] length_contents [of "put b ?p"] by (simp add: pipe_wf_def)
  have acc: "accepted ?p (b # bs) = b # accepted (put b ?p) bs" if "fill ?p \<noteq> 512" "pipe_wf ?p"
  proof -
    have "512 - fill ?p = Suc (512 - Suc (fill ?p))" using ih [OF that] by linarith
    then show ?thesis using ih [OF that] by (simp only: accepted_def take_Suc_Cons)
  qed
  { case 1
    show ?case
    proof (cases "fill ?p = 512")
      case True
      then show ?thesis using 1 full
        by (auto simp: accepted_def bindE_def dest!: pipes_sleep_enter split: sum.splits if_splits)
    next
      case False
      then show ?thesis using 1 "2.IH"(1) ih full acc by (simp add: fun_eq_iff)
    qed }
  { case 2
    show ?case
    proof (cases "fill ?p = 512")
      case True
      then show ?thesis using 2 full
        by (auto simp: accepted_def bindE_def split: sum.splits if_splits)
    next
      case False
      then show ?thesis using 2 "2.IH"(2) ih full by (auto simp: accepted_def take_Cons' split: wr_out.splits)
    qed }
qed

lemma piperead_loop_ring:
  assumes "pipe_wf (pipes s a)" and "piperead_loop n a s = (bs, s')"
  shows "contents (pipes s a) = bs @ contents (pipes s' a) \<and> pipe_wf (pipes s' a)
    \<and> length bs = min n (fill (pipes s a)) \<and> (\<forall>c. c \<noteq> a \<longrightarrow> pipes s' c = pipes s c)"
  using assms
proof (induction n a s arbitrary: bs s' rule: piperead_loop.induct)
  case (2 n a s)
  let ?p = "pipes s a"
  show ?case
  proof (cases "fill ?p = 0")
    case True
    then show ?thesis using 2(2,3) empty_iff [of ?p] by simp
  next
    case False
    obtain b p where g: "get ?p = (b, p)" by (cases "get ?p")
    have h: "contents ?p = b # contents p" "pipe_wf p"
      using get_contents [of ?p] False 2(2) g by auto
    obtain cs where "piperead_loop n a (upd_pipe a (\<lambda>_. p) s) = (cs, s')" "bs = b # cs"
      using 2(3) g False empty_iff [of ?p] by (auto split: prod.splits)
    moreover have "fill ?p = Suc (fill p)" using h(1) by (metis length_Cons length_contents)
    ultimately show ?thesis
      using 2(1) [of "(b, p)" b p cs s'] g h False empty_iff [of ?p] by (auto simp: min_def)
  qed
qed auto

section \<open>Streams\<close>

text \<open>The life of a pipe: stretches of writers and readers in any order, and anything that leaves the
  pipe alone, with the bytes accepted from writers and handed to readers so far.\<close>

inductive pipe_step :: "u32 \<Rightarrow> 'a pipest_scheme \<times> u8 list \<times> u8 list \<Rightarrow> 'a pipest_scheme \<times> u8 list \<times> u8 list \<Rightarrow> bool"
  for a where
  wr: "pipewrite_loop a bs n s = Inr (out, s') \<Longrightarrow>
    pipe_step a (s, sent, recv) (s', sent @ accepted (pipes s a) bs, recv)"
| rd: "piperead a n s = Inr (Got bs, s') \<Longrightarrow> pipe_step a (s, sent, recv) (s', sent, recv @ bs)"
| env: "pipes s' a = pipes s a \<Longrightarrow> pipe_step a (s, sent, recv) (s', sent, recv)"

lemma piperead_Got:
  assumes "pipe_wf (pipes s a)" and "piperead a n s = Inr (Got bs, s')"
  shows "contents (pipes s a) = bs @ contents (pipes s' a) \<and> pipe_wf (pipes s' a)"
proof -
  obtain s1 where "piperead_loop (nat n) a s = (bs, s1)" "pipes s' = pipes s1"
    using assms(2) by (auto simp: piperead_def bindE_def split: sum.splits if_splits prod.splits)
  then show ?thesis using piperead_loop_ring [OF assms(1)] by metis
qed

lemma pipewrite_loop_contents:
  assumes "pipe_wf (pipes s a)" and "pipewrite_loop a bs n s = Inr (out, s')"
  shows "contents (pipes s' a) = contents (pipes s a) @ accepted (pipes s a) bs \<and> pipe_wf (pipes s' a)"
proof -
  have "fill (pipes s a) \<le> 512" using assms(1) by (simp add: pipe_wf_def)
  then have "length (contents (pipes s a)) + length (accepted (pipes s a) bs) \<le> 512" by (simp add: accepted_def)
  then show ?thesis using pq.enq_all [OF assms(1)] pipewrite_loop_ring(1) [OF assms] by simp
qed

definition in_transit :: "u32 \<Rightarrow> 'a pipest_scheme \<times> u8 list \<times> u8 list \<Rightarrow> bool" where
  "in_transit a c = (case c of (s, sent, recv) \<Rightarrow> pipe_wf (pipes s a) \<and> sent = recv @ contents (pipes s a))"

lemma pipe_step_stream: "pipe_step a c c' \<Longrightarrow> in_transit a c \<Longrightarrow> in_transit a c'"
proof (induction rule: pipe_step.induct)
  case (wr bs n s out s' sent recv)
  then show ?case using pipewrite_loop_contents [of s a bs n out s'] by (simp add: in_transit_def)
next
  case (rd n s bs s' sent recv)
  then show ?case using piperead_Got [of s a n bs s'] by (simp add: in_transit_def)
qed (simp add: in_transit_def)

lemma pipe_steps_stream: "(pipe_step a)\<^sup>*\<^sup>* c c' \<Longrightarrow> in_transit a c \<Longrightarrow> in_transit a c'"
  by (induction rule: rtranclp_induct) (auto intro: pipe_step_stream)

text \<open>C15. A pipe is a reliable stream. From an empty pipe, after any sequence of writes that may fill
  the ring, reads that may drain it and steps of the rest of the kernel, the bytes accepted from
  writers are the bytes handed to readers followed by the at most 512 bytes in the ring, in
  order; this holds across the wrap-around of both the ring index and the 32-bit counts.\<close>

theorem pipe_stream:
  assumes "length (pdata (pipes s a)) = 512" and "nread (pipes s a) = nwrite (pipes s a)"
    and "(pipe_step a)\<^sup>*\<^sup>* (s, [], []) (s', sent, recv)"
  shows "sent = recv @ contents (pipes s' a) \<and> fill (pipes s' a) \<le> 512"
proof -
  have "in_transit a (s, [], [])" using assms(1,2) empty_iff [of "pipes s a"] by (simp add: in_transit_def pipe_wf_def contents_def)
  then show ?thesis using pipe_steps_stream [OF assms(3)] by (simp add: in_transit_def pipe_wf_def)
qed

section \<open>Wakeups\<close>

definition asleep :: "chan \<Rightarrow> 'a kst_scheme \<Rightarrow> bool" where
  "asleep c s \<longleftrightarrow> (\<exists>p\<in>set (ptable s). pstate p = SLEEPING \<and> pchan p = Some c)"

lemma asleep_wakeup [simp]: "asleep c (wakeup d s) \<longleftrightarrow> c \<noteq> d \<and> asleep c s"
  by (auto simp: asleep_def wakeup_def wakeup1_def)

lemma asleep_upd_pipe [simp]: "asleep c (upd_pipe a f s) = asleep c s"
  by (simp add: asleep_def upd_pipe_def)

lemma asleep_sleep_enter: "sleep_enter c lk s = Inr s' \<Longrightarrow> asleep d s' \<Longrightarrow> d = c \<or> asleep d s"
  by (auto simp: asleep_def sleep_enter_def upd_proc_def split: option.splits if_splits dest!: set_update_subset_insert [THEN subsetD])

text \<open>A reader sleeps only on an empty pipe that can still be written, a writer only on a full pipe that can
  still be read.\<close>

definition waits_ok :: "u32 \<Rightarrow> 'a pipest_scheme \<Rightarrow> bool" where
  "waits_ok a s \<longleftrightarrow>
    (asleep (ChanPipeRead a) s \<longrightarrow> fill (pipes s a) = 0 \<and> writeopen (pipes s a)) \<and>
    (asleep (ChanPipeWrite a) s \<longrightarrow> fill (pipes s a) = 512 \<and> readopen (pipes s a))"

lemma pipewrite_loop_asleep:
  "pipewrite_loop a bs n s = Inr (out, s') \<Longrightarrow> out \<noteq> Wrote (-1) \<Longrightarrow> \<not> asleep (ChanPipeRead a) s' \<and>
     (asleep (ChanPipeWrite a) s' \<longrightarrow> (case out of Wrote _ \<Rightarrow> asleep (ChanPipeWrite a) s
        | WriteSleeps _ \<Rightarrow> readopen (pipes s' a) \<and> nwrite (pipes s' a) = nread (pipes s' a) + 512))"
proof (induction a bs n s rule: pipewrite_loop.induct)
  case (2 a b bs n s)
  show ?case
  proof (cases "nwrite (pipes s a) = nread (pipes s a) + 512")
    case True
    then have r: "readopen (pipes s a)" and o: "out = WriteSleeps (b # bs)"
        and e: "sleep_enter (ChanPipeWrite a) True (wakeup (ChanPipeRead a) s) = Inr s'"
      using 2(2,3) by (auto simp: bindE_def split: sum.splits if_splits)
    then show ?thesis using True pipes_sleep_enter [OF e] asleep_sleep_enter [OF e, of "ChanPipeRead a"] by auto
  next
    case False
    then show ?thesis using 2 by (simp split: wr_out.splits)
  qed
qed auto

lemma pipewrite_loop_waits:
  assumes wf: "pipe_wf (pipes s a)" and w: "waits_ok a s"
    and run: "pipewrite_loop a bs n s = Inr (out, s')" and ok: "out \<noteq> Wrote (-1)"
  shows "waits_ok a s'"
proof -
  have z: "\<not> asleep (ChanPipeRead a) s'" using pipewrite_loop_asleep [OF run ok] by blast
  have wf': "pipe_wf (pipes s' a)" using pipewrite_loop_contents [OF wf run] by blast
  have "fill (pipes s' a) = 512 \<and> readopen (pipes s' a)" if al: "asleep (ChanPipeWrite a) s'"
  proof (cases out)
    case (WriteSleeps rest)
    then show ?thesis using pipewrite_loop_asleep [OF run ok] al full_iff [OF wf'] by simp
  next
    case (Wrote k)
    then have "asleep (ChanPipeWrite a) s" using pipewrite_loop_asleep [OF run ok] al by simp
    then have f: "fill (pipes s a) = 512" "readopen (pipes s a)" using w by (simp_all add: waits_ok_def)
    then have "accepted (pipes s a) bs = []" by (simp add: accepted_def)
    then show ?thesis using f pipewrite_loop_ring(1) [OF wf run] by simp
  qed
  then show ?thesis using z by (simp add: waits_ok_def)
qed

lemma piperead_loop_frame:
  "piperead_loop n a s = (bs, s') \<Longrightarrow> (\<forall>c. asleep c s' = asleep c s)
     \<and> readopen (pipes s' a) = readopen (pipes s a) \<and> writeopen (pipes s' a) = writeopen (pipes s a)"
proof (induction n a s arbitrary: bs s' rule: piperead_loop.induct)
  case (2 n a s)
  obtain b p where g: "get (pipes s a) = (b, p)" by (cases "get (pipes s a)")
  then have "readopen p = readopen (pipes s a)" "writeopen p = writeopen (pipes s a)" by (auto simp: get_def)
  then show ?case using 2(1) [of "(b, p)" b p] 2(2) g by (auto split: if_splits prod.splits)
qed auto

lemma piperead_waits:
  assumes wf: "pipe_wf (pipes s a)" and w: "waits_ok a s" and run: "piperead a n s = Inr (out, s')"
  shows "waits_ok a s'"
proof (cases "nread (pipes s a) = nwrite (pipes s a) \<and> writeopen (pipes s a)")
  case True
  have "fill (pipes s a) = 0" using True empty_iff by blast
  then have nw: "\<not> asleep (ChanPipeWrite a) s" using w by (auto simp: waits_ok_def)
  consider "s' = s" | "sleep_enter (ChanPipeRead a) True s = Inr s'"
    using True run by (auto simp: piperead_def bindE_def split: sum.splits if_splits)
  then show ?thesis
  proof cases
    case 2
    then show ?thesis using asleep_sleep_enter [OF 2, of "ChanPipeWrite a"] pipes_sleep_enter [OF 2] nw True empty_iff [of "pipes s a"]
      by (auto simp: waits_ok_def)
  qed (simp add: w)
next
  case False
  obtain bs s1 where l: "piperead_loop (nat n) a s = (bs, s1)" "s' = wakeup (ChanPipeWrite a) s1"
    using False run by (auto simp: piperead_def split: prod.splits)
  have "\<not> asleep (ChanPipeRead a) s" using False w empty_iff [of "pipes s a"] by (auto simp: waits_ok_def)
  then show ?thesis using piperead_loop_frame [OF l(1)] l(2) by (simp add: waits_ok_def)
qed

lemma kfree_frame: "kfree v s = Inr s' \<Longrightarrow> pipes s' = pipes s \<and> asleep c s' = asleep c s"
  using kfree_Inr [of v s s'] by (auto simp: asleep_def)

lemma pipeclose_waits:
  assumes w: "waits_ok a s" and run: "pipeclose a writable s = Inr s'"
  shows "waits_ok a s'"
proof -
  obtain s1 where s1: "s1 = (if writable then wakeup (ChanPipeRead a) (upd_pipe a (\<lambda>p. p\<lparr>writeopen := False\<rparr>) s)
      else wakeup (ChanPipeWrite a) (upd_pipe a (\<lambda>p. p\<lparr>readopen := False\<rparr>) s))" by blast
  have "waits_ok a s1" using w by (simp add: s1 waits_ok_def fill_def)
  moreover have "s' = s1 \<or> kfree a s1 = Inr s'"
    using run by (simp add: pipeclose_def Let_def s1 split: if_splits)
  moreover have "waits_ok a s'" if "kfree a s1 = Inr s'"
    using \<open>waits_ok a s1\<close> kfree_frame [OF that] unfolding waits_ok_def by metis
  ultimately show ?thesis by blast
qed

text \<open>C16. No sleeper is forgotten. As long as no write fails, readers sleep only while the pipe is
  empty and still open for writing and writers only while it is full and still open
  for reading: \<open>pipewrite\<close>, \<open>piperead\<close> and \<open>pipeclose\<close> keep this.\<close>

theorem pipe_waits:
  assumes "pipe_wf (pipes s a)" and "waits_ok a s"
  shows "(pipewrite a buf n s = Inr (out, s1) \<longrightarrow> out \<noteq> Wrote (-1) \<longrightarrow> waits_ok a s1)
    \<and> (piperead a n s = Inr (rout, s2) \<longrightarrow> waits_ok a s2)
    \<and> (pipeclose a writable s = Inr s3 \<longrightarrow> waits_ok a s3)"
  using pipewrite_loop_waits [OF assms, of "take (nat n) buf" n out s1] piperead_waits [OF assms] pipeclose_waits [OF assms(2)]
  by (auto simp: pipewrite_def)

lemma pipewrite_killed:
  "pipe_wf (pipes s a) \<Longrightarrow> cpu_proc s = Some me \<Longrightarrow> killed (proc_at me s) \<Longrightarrow> 512 - fill (pipes s a) < length bs \<Longrightarrow>
   \<exists>s'. pipewrite_loop a bs n s = Inr (Wrote (-1), s') \<and> (\<forall>c. asleep c s' = asleep c s)"
proof (induction a bs n s rule: pipewrite_loop.induct)
  case (2 a b bs n s)
  let ?p = "pipes s a"
  show ?case
  proof (cases "fill ?p = 512")
    case True
    then show ?thesis using 2(2-) full_iff [of ?p] by (simp add: myproc_def)
  next
    case False
    have lt: "fill ?p < 512" using False 2(2) by (simp add: pipe_wf_def)
    have nf: "nwrite ?p \<noteq> nread ?p + 512" using False full_iff [OF 2(2)] by simp
    have p: "pipe_wf (put b ?p)" "fill (put b ?p) = Suc (fill ?p)"
      using put_contents [OF 2(2) lt, of b] length_contents [of "put b ?p"] by simp_all
    have "cpu_proc (upd_pipe a (put b) s) = cpu_proc s" "proc_at me (upd_pipe a (put b) s) = proc_at me s"
      by (simp_all add: upd_pipe_def proc_at_def)
    moreover have "512 - Suc (fill ?p) < length bs" using 2(5) lt by simp
    ultimately show ?thesis using 2(1) p nf 2(3,4) by simp
  qed
qed simp

text \<open>C17. A failing write can leave a reader asleep over a full pipe. A killed process that writes more than
  512 bytes into an empty pipe fills the ring and then returns \<open>-1\<close> without the \<open>wakeup\<close> that every other
  path has: a reader that was asleep stays asleep although 512 bytes wait for it.\<close>

theorem pipewrite_killed_loses_wakeup:
  assumes "pipe_wf (pipes s a)" and "fill (pipes s a) = 0" and "cpu_proc s = Some me" and "killed (proc_at me s)"
    and "asleep (ChanPipeRead a) s" and "512 < length buf"
  shows "\<exists>s'. pipewrite a buf (int (length buf)) s = Inr (Wrote (-1), s')
    \<and> asleep (ChanPipeRead a) s' \<and> fill (pipes s' a) = 512"
proof -
  have "512 - fill (pipes s a) < length buf" using assms(2,6) by simp
  then obtain s' where r: "pipewrite_loop a buf (int (length buf)) s = Inr (Wrote (-1), s')" and al: "\<forall>c. asleep c s' = asleep c s"
    using pipewrite_killed [OF assms(1,3,4)] by blast
  have "length (contents (pipes s' a)) = fill (pipes s a) + length (accepted (pipes s a) buf)"
    using pipewrite_loop_contents [OF assms(1) r] by simp
  then have "fill (pipes s' a) = 512" using assms(2,6) by (simp add: accepted_def)
  then show ?thesis using r al assms(5) by (simp add: pipewrite_def)
qed

definition pproc :: "procstate \<Rightarrow> chan option \<Rightarrow> bool \<Rightarrow> proc" where
  "pproc st c k = \<lparr>sz = 0, pgdir = 0, kstack = 0, pstate = st, pid = 4, parent = None, tf = 0, pcontext = 0,
     pchan = c, killed = k, ofile = [], cwd = None, pname = [], nodes = [], inClock = 0, currInd = 0\<rparr>"

definition pipest0 :: pipest where
  "pipest0 = \<lparr>mem = \<lambda>_. 0, freelist = 0, use_lock = True, cr3 = 0, kend = 0, kdata = 0,
     ptable = [pproc RUNNING None True, pproc SLEEPING (Some (ChanPipeRead 0x80500000)) False],
     cpu_proc = Some 0, nextpid = 1, initproc = None, ticks = 0, gdt = [], ts_ss0 = 0,
     ts_esp0 = 0, ts_iomb = 0, cpu_ts = 0, kpgdir = 0, ktrapret = 0, kforkret = 0,
     sleeplocks = \<lambda>_. \<lparr>slocked = False, slpid = 0\<rparr>,
     pipes = \<lambda>_. \<lparr>pdata = replicate 512 0, nread = 0xfffffff0, nwrite = 0xfffffff0, readopen = True, writeopen = True\<rparr>\<rparr>"

lemma pipest0_wf: "pipe_wf (pipes pipest0 a)" "fill (pipes pipest0 a) = 0"
  by (simp_all add: pipe_wf_def fill_def pipest0_def)

lemma pipest0_asleep: "cpu_proc pipest0 = Some 0" "killed (proc_at 0 pipest0)" "asleep (ChanPipeRead 0x80500000) pipest0"
  by (simp_all add: pipest0_def proc_at_def pproc_def asleep_def)

theorem pipewrite_killed_loses_wakeup_witness:
  "\<exists>s'. pipewrite 0x80500000 (replicate 600 7) 600 pipest0 = Inr (Wrote (-1), s') \<and> asleep (ChanPipeRead 0x80500000) s'"
  using pipewrite_killed_loses_wakeup [of pipest0 "0x80500000" 0 "replicate 600 7", OF pipest0_wf]
    pipest0_asleep by auto

theorem pipe_waits_witness:
  "\<exists>s2. piperead 0x80500000 4 (pipest0\<lparr>ptable := [pproc RUNNING None False]\<rparr>) = Inr (ReadSleeps, s2) \<and> waits_ok 0x80500000 s2"
proof -
  let ?s = "pipest0\<lparr>ptable := [pproc RUNNING None False]\<rparr>"
  obtain s2 where r: "piperead 0x80500000 4 ?s = Inr (ReadSleeps, s2)"
    by (simp add: piperead_def pipest0_def myproc_def proc_at_def pproc_def sleep_enter_def)
  have "waits_ok 0x80500000 ?s" by (simp add: waits_ok_def asleep_def pproc_def)
  moreover have "pipe_wf (pipes ?s 0x80500000)" using pipest0_wf(1) by simp
  ultimately show ?thesis using pipe_waits [of ?s "0x80500000"] r by blast
qed

theorem pipe_stream_witness:
  "\<exists>s'. (pipe_step 0x80500000)\<^sup>*\<^sup>* (pipest0, [], []) (s', [1, 2, 3], []) \<and> contents (pipes s' 0x80500000) = [1, 2, 3]"
proof -
  let ?s = pipest0
  obtain s' where r: "pipewrite_loop 0x80500000 [1, 2, 3] 3 ?s = Inr (Wrote 3, s')"
    by (simp add: pipest0_def put_def)
  have "pipe_step 0x80500000 (?s, [], []) (s', [] @ accepted (pipes ?s 0x80500000) [1, 2, 3], [])" by (rule pipe_step.wr [OF r])
  then have st: "(pipe_step 0x80500000)\<^sup>*\<^sup>* (?s, [], []) (s', [1, 2, 3], [])"
    using pipest0_wf(2) by (auto simp: accepted_def)
  have "length (pdata (pipes ?s 0x80500000)) = 512" "nread (pipes ?s 0x80500000) = nwrite (pipes ?s 0x80500000)"
    by (simp_all add: pipest0_def)
  then show ?thesis using pipe_stream [OF _ _ st] st by auto
qed

end
