(* ===== verification/Disk.thy ===== *)
theory Disk
  imports Pipe
begin

text \<open>
  The IDE driver \<^verbatim>\<open>src/src/ide.c\<close> and the buffer cache \<^verbatim>\<open>src/src/bio.c\<close>. A \<open>struct buf\<close> is named by its index
  in \<open>bcache.buf\<close>; the doubly linked list through \<open>head\<close> is the list of these indices from \<open>head.next\<close>
  on, and \<open>idequeue\<close> is the list along \<open>qnext\<close>. The two bits of \<open>flags\<close> are two fields. The sleep lock
  of buffer \<open>i\<close> has number \<open>i\<close>.

  The disk is a device: its sectors, the sector its last read command selected and
  whether it reports an error are state; \<open>dtrace\<close> lists all the sector writes so far, so that the
  disk as a power failure leaves it can be stated. A command names its drive and sector in five byte registers; a
  write is on the disk when its data has been sent, without a cache in the device. A buffer is an index and never the null pointer. A process that sleeps in \<open>iderw\<close> is
  woken by the device's interrupts: the model runs \<open>ideintr\<close> in their place. A path that would have
  to wait for a sleep lock ends in \<open>WouldBlock\<close>.
\<close>

section \<open>State\<close>

record buf =
  bvalid :: bool
  bdirty :: bool
  bdev :: u32
  blockno :: u32
  refcnt :: u32
  bdata :: "u8 list"

record diskst = pipest +
  bufs :: "buf list"
  blru :: "nat list"
  idequeue :: "nat list"
  havedisk1 :: bool
  sectors :: "u32 \<Rightarrow> u32 \<Rightarrow> u8 list"
  ide_sel :: "u32 \<times> u32"
  ide_err :: bool
  dtrace :: "(u32 \<times> u32 \<times> u8 list) list"

definition NBUF :: nat where [simp]: "NBUF = 30"
definition BSIZE :: nat where [simp]: "BSIZE = 512"
definition FSSIZE :: u32 where [simp]: "FSSIZE = 1000"

definition buf_at :: "nat \<Rightarrow> 'a diskst_scheme \<Rightarrow> buf" where
  "buf_at i s = bufs s ! i"

definition upd_buf :: "nat \<Rightarrow> (buf \<Rightarrow> buf) \<Rightarrow> 'a diskst_scheme \<Rightarrow> 'a diskst_scheme" where
  "upd_buf i f s = s\<lparr>bufs := (bufs s)[i := f (bufs s ! i)]\<rparr>"

text \<open>\<open>memmove\<close> between a buffer at an offset and a separate piece of memory.\<close>

definition slice :: "nat \<Rightarrow> nat \<Rightarrow> u8 list \<Rightarrow> u8 list" where
  "slice i n d = take n (drop i d)"

definition splice :: "nat \<Rightarrow> u8 list \<Rightarrow> u8 list \<Rightarrow> u8 list" where
  "splice i bs d = take i d @ bs @ drop (i + length bs) d"

section \<open>The driver\<close>

definition SECTOR_SIZE :: nat where [simp]: "SECTOR_SIZE = 512"

text \<open>The bytes for the ports 0x1f2 to 0x1f6: the number of sectors, the sector in four parts and the drive.\<close>

definition ide_regs :: "u32 \<Rightarrow> u32 \<Rightarrow> u32 \<Rightarrow> u8 \<times> u8 \<times> u8 \<times> u8 \<times> u8" where
  "ide_regs n sector dev =
    (ucast n, ucast (sector AND 0xff), ucast (drop_bit 8 sector AND 0xff), ucast (drop_bit 16 sector AND 0xff),
     ucast (0xe0 OR push_bit 4 (dev AND 1) OR (drop_bit 24 sector AND 0x0f)))"

text \<open>The drive and the sector that the device takes from its registers.\<close>

fun ide_target :: "u8 \<times> u8 \<times> u8 \<times> u8 \<times> u8 \<Rightarrow> u32 \<times> u32" where
  "ide_target (n, r3, r4, r5, r6) =
    (ucast (drop_bit 4 r6 AND 1),
     ucast r3 OR push_bit 8 (ucast r4) OR push_bit 16 (ucast r5) OR push_bit 24 (ucast (r6 AND 0x0f)))"

definition idestart :: "nat \<Rightarrow> 'a diskst_scheme \<Rightarrow> err + 'a diskst_scheme" where
  "idestart b s =
    (let p = buf_at b s in
     if blockno p \<ge> FSSIZE then Inl (Panic ''incorrect blockno'')
     else
       let sector_per_block = BSIZE div SECTOR_SIZE;
           sector = blockno p * of_nat sector_per_block
       in if sector_per_block > 7 then Inl (Panic ''idestart'')
          else
            let (drive, sector) = ide_target (ide_regs (of_nat sector_per_block) sector (bdev p))
            in if bdirty p then
                 Inr (s\<lparr>sectors := (sectors s)(drive := (sectors s drive)(sector := bdata p)),
                        dtrace := dtrace s @ [(drive, sector, bdata p)]\<rparr>)
               else Inr (s\<lparr>ide_sel := (drive, sector)\<rparr>))"

definition ideintr :: "'a diskst_scheme \<Rightarrow> err + 'a diskst_scheme" where
  "ideintr s =
    (case idequeue s of
       [] \<Rightarrow> Inr s
     | b # q \<Rightarrow>
         let s = s\<lparr>idequeue := q\<rparr>;
             s = (if \<not> bdirty (buf_at b s) \<and> \<not> ide_err s
                  then upd_buf b (\<lambda>p. p\<lparr>bdata := sectors s (fst (ide_sel s)) (snd (ide_sel s))\<rparr>) s else s);
             s = upd_buf b (\<lambda>p. p\<lparr>bvalid := True, bdirty := False\<rparr>) s;
             s = wakeup (ChanBuf b) s
         in (if q = [] then Inr s else idestart (hd q) s))"

text \<open>The wait of \<open>iderw\<close>: one interrupt after the other until the request is done. Every interrupt
  takes a request off the queue, so the length of the queue bounds their number.\<close>

fun iderw_wait :: "nat \<Rightarrow> nat \<Rightarrow> 'a diskst_scheme \<Rightarrow> err + 'a diskst_scheme" where
  "iderw_wait 0 b s = (if bvalid (buf_at b s) \<and> \<not> bdirty (buf_at b s) then Inr s else Inl NoFuel)"
| "iderw_wait (Suc n) b s =
    (if bvalid (buf_at b s) \<and> \<not> bdirty (buf_at b s) then Inr s
     else bindE (ideintr s) (iderw_wait n b))"

definition iderw :: "nat \<Rightarrow> 'a diskst_scheme \<Rightarrow> err + 'a diskst_scheme" where
  "iderw b s = bindE (holdingsleep b s) (\<lambda>h.
     if \<not> h then Inl (Panic ''iderw: buf not locked'')
     else if bvalid (buf_at b s) \<and> \<not> bdirty (buf_at b s) then Inl (Panic ''iderw: nothing to do'')
     else if bdev (buf_at b s) \<noteq> 0 \<and> \<not> havedisk1 s then Inl (Panic ''iderw: ide disk 1 not present'')
     else
       let s = s\<lparr>idequeue := idequeue s @ [b]\<rparr> in
       bindE (if hd (idequeue s) = b then idestart b s else Inr s) (\<lambda>s.
       iderw_wait (length (idequeue s)) b s))"

text \<open>The device addresses the drive and the sector that the driver means: the four parts of a sector number below 28 bits lose nothing.\<close>

lemma ide_target_regs:
  assumes "sector < 2 ^ 28"
  shows "ide_target (ide_regs n sector dev) = (dev AND 1, sector)"
proof -
  have k: "(0xff :: u32) = mask 8" "(0x0f :: u32) = mask 4" "(0x0f :: u8) = mask 4" "(0xe0 :: u32) = push_bit 5 (mask 3)" "(1 :: u32) = mask 1" "(1 :: u8) = mask 1"
    by (simp_all add: mask_eq_exp_minus_1)
  have hi: "\<not> bit sector i" if "28 \<le> i" for i
  proof -
    have "take_bit 28 sector = sector" using assms by (simp add: word_less_def word_uint_eq_iff [of "take_bit 28 _"] unsigned_take_bit_eq take_bit_int_eq_self_iff)
    then show ?thesis using that by (metis bit_take_bit_iff not_less)
  qed
  have "ucast (drop_bit 4 (ucast (0xe0 OR push_bit 4 (dev AND 1) OR (drop_bit 24 sector AND 0x0f)) :: u8) AND 1) = dev AND 1"
    unfolding k by (rule bit_eqI) (auto simp: bit_simps)
  note drv = this
  have byt: "bit (ucast (ucast (x AND mask 8) :: u8) :: u32) i \<longleftrightarrow> i < 8 \<and> bit x i" for x :: u32 and i
    by (auto simp: bit_simps)
  have nib: "bit (ucast ((ucast (push_bit 5 (mask 3) OR push_bit 4 y OR (x AND mask 4)) :: u8) AND mask 4) :: u32) i \<longleftrightarrow> i < 4 \<and> bit x i" for x y :: u32 and i
    by (auto simp: bit_simps)
  have "ucast (ucast (sector AND 0xff) :: u8) OR push_bit 8 (ucast (ucast (drop_bit 8 sector AND 0xff) :: u8)) OR
      push_bit 16 (ucast (ucast (drop_bit 16 sector AND 0xff) :: u8)) OR
      push_bit 24 (ucast ((ucast (0xe0 OR push_bit 4 (dev AND 1) OR (drop_bit 24 sector AND 0x0f)) :: u8) AND 0x0f)) = sector"
    unfolding k
  proof (rule bit_eqI)
    fix i :: nat
    assume "possible_bit TYPE(32 word) i"
    then have p: "possible_bit TYPE(32 word) i" "i < 32" by simp_all
    consider "i < 8" | "8 \<le> i" "i < 16" | "16 \<le> i" "i < 24" | "24 \<le> i" "i < 28" | "28 \<le> i" by linarith
    then show "bit ((ucast (ucast (sector AND mask 8) :: u8) :: u32) OR push_bit 8 (ucast (ucast (drop_bit 8 sector AND mask 8) :: u8)) OR
      push_bit 16 (ucast (ucast (drop_bit 16 sector AND mask 8) :: u8)) OR
      push_bit 24 (ucast ((ucast (push_bit 5 (mask 3) OR push_bit 4 (dev AND mask 1) OR (drop_bit 24 sector AND mask 4)) :: u8) AND mask 4))) i = bit sector i"
      unfolding bit_or_iff bit_push_bit_iff byt nib bit_drop_bit_eq o_apply using p hi [of i] by cases (simp, (simp, arith)+, simp)
  qed
  then show ?thesis using drv by (simp only: ide_regs_def ide_target.simps)
qed

lemma idestart_eq:
  "idestart b s =
    (let p = buf_at b s; drive = bdev p AND 1; sector = blockno p in
     if blockno p \<ge> FSSIZE then Inl (Panic ''incorrect blockno'')
     else if bdirty p then
       Inr (s\<lparr>sectors := (sectors s)(drive := (sectors s drive)(sector := bdata p)),
              dtrace := dtrace s @ [(drive, sector, bdata p)]\<rparr>)
     else Inr (s\<lparr>ide_sel := (drive, sector)\<rparr>))"
proof (cases "blockno (buf_at b s) \<ge> FSSIZE")
  case False
  then have "blockno (buf_at b s) < 2 ^ 28" by (auto simp: not_le intro: order.strict_trans)
  from ide_target_regs [OF this] show ?thesis using False by (simp add: idestart_def Let_def del: ide_target.simps)
qed (simp add: idestart_def Let_def)

section \<open>The buffer cache\<close>

fun binit_loop :: "nat list \<Rightarrow> 'a diskst_scheme \<Rightarrow> 'a diskst_scheme" where
  "binit_loop [] s = s"
| "binit_loop (b # bs) s = binit_loop bs (initsleeplock b (s\<lparr>blru := b # blru s\<rparr>))"

definition binit :: "'a diskst_scheme \<Rightarrow> 'a diskst_scheme" where
  "binit s = binit_loop [0..<NBUF] (s\<lparr>blru := []\<rparr>)"

text \<open>Taking a buffer's sleep lock, or waiting for it.\<close>

definition lockE :: "nat \<Rightarrow> 'a slst_scheme \<Rightarrow> err + 'a slst_scheme" where
  "lockE l s = bindE (acquiresleep l s) (\<lambda>(got, s). if got then Inr s else Inl WouldBlock)"

definition bget :: "u32 \<Rightarrow> u32 \<Rightarrow> 'a diskst_scheme \<Rightarrow> err + (nat \<times> 'a diskst_scheme)" where
  "bget dev n s =
    (case find (\<lambda>i. bdev (buf_at i s) = dev \<and> blockno (buf_at i s) = n) (blru s) of
       Some b \<Rightarrow> bindE (lockE b (upd_buf b (\<lambda>p. p\<lparr>refcnt := refcnt p + 1\<rparr>) s)) (\<lambda>s. Inr (b, s))
     | None \<Rightarrow>
         (case find (\<lambda>i. refcnt (buf_at i s) = 0 \<and> \<not> bdirty (buf_at i s)) (rev (blru s)) of
            Some b \<Rightarrow> bindE (lockE b (upd_buf b (\<lambda>p.
                p\<lparr>bdev := dev, blockno := n, bvalid := False, bdirty := False, refcnt := 1\<rparr>) s)) (\<lambda>s. Inr (b, s))
          | None \<Rightarrow> Inl (Panic ''bget: no buffers'')))"

definition bread :: "u32 \<Rightarrow> u32 \<Rightarrow> 'a diskst_scheme \<Rightarrow> err + (nat \<times> 'a diskst_scheme)" where
  "bread dev n s = bindE (bget dev n s) (\<lambda>(b, s).
     if \<not> bvalid (buf_at b s) then bindE (iderw b s) (\<lambda>s. Inr (b, s)) else Inr (b, s))"

definition bwrite :: "nat \<Rightarrow> 'a diskst_scheme \<Rightarrow> err + 'a diskst_scheme" where
  "bwrite b s = bindE (holdingsleep b s) (\<lambda>h.
     if \<not> h then Inl (Panic ''bwrite'') else iderw b (upd_buf b (\<lambda>p. p\<lparr>bdirty := True\<rparr>) s))"

definition brelse :: "nat \<Rightarrow> 'a diskst_scheme \<Rightarrow> err + 'a diskst_scheme" where
  "brelse b s = bindE (holdingsleep b s) (\<lambda>h.
     if \<not> h then Inl (Panic ''brelse'')
     else
       let s = releasesleep b s;
           s = upd_buf b (\<lambda>p. p\<lparr>refcnt := refcnt p - 1\<rparr>) s
       in Inr (if refcnt (buf_at b s) = 0 then s\<lparr>blru := b # remove1 b (blru s)\<rparr> else s))"

end
