(* ===== verification/Log.thy ===== *)
theory Log
  imports Disk
begin

text \<open>
  The redo log \<^verbatim>\<open>src/src/log.c\<close>, and \<open>readsb\<close> of \<^verbatim>\<open>src/src/fs.c\<close>, which it calls. The header of the log
  is the record fields \<open>lh_n\<close> and \<open>lh_block\<close>; on disk it is a block of little-endian words. C \<open>int\<close>s are integers; an index outside
  \<open>lh.block\<close> is \<open>OutOfBounds\<close>. A \<open>begin_op\<close> that has to sleep ends in \<open>WouldBlock\<close>.
\<close>

section \<open>State\<close>

record superblock =
  sb_size :: u32
  sb_nblocks :: u32
  sb_ninodes :: u32
  sb_nlog :: u32
  sb_logstart :: u32
  sb_inodestart :: u32
  sb_bmapstart :: u32

record logst = diskst +
  log_start :: int
  log_size :: int
  log_outstanding :: int
  log_committing :: bool
  log_dev :: u32
  lh_n :: int
  lh_block :: "int list"

definition MAXOPBLOCKS :: int where [simp]: "MAXOPBLOCKS = 10"
definition LOGSIZE :: int where [simp]: "LOGSIZE = 30"

definition lh_get :: "int \<Rightarrow> 'a logst_scheme \<Rightarrow> err + int" where
  "lh_get i s = (if 0 \<le> i \<and> i < LOGSIZE then Inr (lh_block s ! nat i) else Inl OutOfBounds)"

definition lh_set :: "int \<Rightarrow> int \<Rightarrow> 'a logst_scheme \<Rightarrow> err + 'a logst_scheme" where
  "lh_set i v s = (if 0 \<le> i \<and> i < LOGSIZE then Inr (s\<lparr>lh_block := (lh_block s)[nat i := v]\<rparr>) else Inl OutOfBounds)"

section \<open>Operations\<close>

definition readsb :: "u32 \<Rightarrow> 'a diskst_scheme \<Rightarrow> err + (superblock \<times> 'a diskst_scheme)" where
  "readsb dev s = bindE (bread dev 1 s) (\<lambda>(bp, s).
     let d = bdata (buf_at bp s);
         sb = \<lparr>sb_size = get32 d 0, sb_nblocks = get32 d 4, sb_ninodes = get32 d 8, sb_nlog = get32 d 12,
               sb_logstart = get32 d 16, sb_inodestart = get32 d 20, sb_bmapstart = get32 d 24\<rparr>
     in bindE (brelse bp s) (\<lambda>s. Inr (sb, s)))"

definition log_blk :: "int \<Rightarrow> 'a logst_scheme \<Rightarrow> u32" where
  "log_blk tail s = of_int (log_start s + tail + 1)"

text \<open>The loops over \<open>tail\<close> run over the list of its values.\<close>

fun install_trans_loop :: "int list \<Rightarrow> 'a logst_scheme \<Rightarrow> err + 'a logst_scheme" where
  "install_trans_loop [] s = Inr s"
| "install_trans_loop (tail # ts) s =
    bindE (bread (log_dev s) (log_blk tail s) s) (\<lambda>(lbuf, s).
    bindE (lh_get tail s) (\<lambda>n.
    bindE (bread (log_dev s) (of_int n) s) (\<lambda>(dbuf, s).
    bindE (bwrite dbuf (upd_buf dbuf (\<lambda>p. p\<lparr>bdata := bdata (buf_at lbuf s)\<rparr>) s)) (\<lambda>s.
    bindE (brelse lbuf s) (\<lambda>s.
    bindE (brelse dbuf s) (\<lambda>s.
    install_trans_loop ts s))))))"

definition install_trans :: "'a logst_scheme \<Rightarrow> err + 'a logst_scheme" where
  "install_trans s = install_trans_loop [0..lh_n s - 1] s"

fun read_head_loop :: "int list \<Rightarrow> u8 list \<Rightarrow> 'a logst_scheme \<Rightarrow> err + 'a logst_scheme" where
  "read_head_loop [] d s = Inr s"
| "read_head_loop (i # is) d s =
    bindE (lh_set i (sint (get32 d (4 + 4 * nat i))) s) (\<lambda>s. read_head_loop is d s)"

definition read_head :: "'a logst_scheme \<Rightarrow> err + 'a logst_scheme" where
  "read_head s = bindE (bread (log_dev s) (of_int (log_start s)) s) (\<lambda>(b, s).
     let s = s\<lparr>lh_n := sint (get32 (bdata (buf_at b s)) 0)\<rparr> in
     bindE (read_head_loop [0..lh_n s - 1] (bdata (buf_at b s)) s) (\<lambda>s.
     brelse b s))"

fun write_head_loop :: "int list \<Rightarrow> nat \<Rightarrow> 'a logst_scheme \<Rightarrow> err + 'a logst_scheme" where
  "write_head_loop [] b s = Inr s"
| "write_head_loop (i # is) b s =
    bindE (lh_get i s) (\<lambda>v.
    write_head_loop is b (upd_buf b (\<lambda>p. p\<lparr>bdata := put32 (bdata p) (4 + 4 * nat i) (of_int v)\<rparr>) s))"

definition write_head :: "'a logst_scheme \<Rightarrow> err + 'a logst_scheme" where
  "write_head s = bindE (bread (log_dev s) (of_int (log_start s)) s) (\<lambda>(b, s).
     let s = upd_buf b (\<lambda>p. p\<lparr>bdata := put32 (bdata p) 0 (of_int (lh_n s))\<rparr>) s in
     bindE (write_head_loop [0..lh_n s - 1] b s) (\<lambda>s.
     bindE (bwrite b s) (\<lambda>s.
     brelse b s)))"

definition recover_from_log :: "'a logst_scheme \<Rightarrow> err + 'a logst_scheme" where
  "recover_from_log s =
    bindE (read_head s) (\<lambda>s.
    bindE (install_trans s) (\<lambda>s.
    write_head (s\<lparr>lh_n := 0\<rparr>)))"

definition initlog :: "u32 \<Rightarrow> 'a logst_scheme \<Rightarrow> err + 'a logst_scheme" where
  "initlog dev s = bindE (readsb dev s) (\<lambda>(sb, s).
     recover_from_log (s\<lparr>log_start := sint (sb_logstart sb), log_size := sint (sb_nlog sb), log_dev := dev\<rparr>))"

definition begin_op :: "'a logst_scheme \<Rightarrow> err + 'a logst_scheme" where
  "begin_op s =
    (if log_committing s then Inl WouldBlock
     else if lh_n s + (log_outstanding s + 1) * MAXOPBLOCKS > LOGSIZE then Inl WouldBlock
     else Inr (s\<lparr>log_outstanding := log_outstanding s + 1\<rparr>))"

fun write_log_loop :: "int list \<Rightarrow> 'a logst_scheme \<Rightarrow> err + 'a logst_scheme" where
  "write_log_loop [] s = Inr s"
| "write_log_loop (tail # ts) s =
    bindE (bread (log_dev s) (log_blk tail s) s) (\<lambda>(to, s).
    bindE (lh_get tail s) (\<lambda>n.
    bindE (bread (log_dev s) (of_int n) s) (\<lambda>(frm, s).
    bindE (bwrite to (upd_buf to (\<lambda>p. p\<lparr>bdata := bdata (buf_at frm s)\<rparr>) s)) (\<lambda>s.
    bindE (brelse frm s) (\<lambda>s.
    bindE (brelse to s) (\<lambda>s.
    write_log_loop ts s))))))"

definition write_log :: "'a logst_scheme \<Rightarrow> err + 'a logst_scheme" where
  "write_log s = write_log_loop [0..lh_n s - 1] s"

definition commit :: "'a logst_scheme \<Rightarrow> err + 'a logst_scheme" where
  "commit s =
    (if lh_n s > 0 then
       bindE (write_log s) (\<lambda>s.
       bindE (write_head s) (\<lambda>s.
       bindE (install_trans s) (\<lambda>s.
       write_head (s\<lparr>lh_n := 0\<rparr>))))
     else Inr s)"

definition end_op :: "'a logst_scheme \<Rightarrow> err + 'a logst_scheme" where
  "end_op s =
    (let s = s\<lparr>log_outstanding := log_outstanding s - 1\<rparr> in
     if log_committing s then Inl (Panic ''log.committing'')
     else if log_outstanding s = 0 then
       bindE (commit (s\<lparr>log_committing := True\<rparr>)) (\<lambda>s.
       Inr (wakeup ChanLog (s\<lparr>log_committing := False\<rparr>)))
     else Inr (wakeup ChanLog s))"

text \<open>The position \<open>b\<close> is absorbed into, or the first free one.\<close>

fun log_find :: "int \<Rightarrow> int \<Rightarrow> int list \<Rightarrow> int" where
  "log_find i b [] = i"
| "log_find i b (x # xs) = (if x = b then i else log_find (i + 1) b xs)"

definition log_write :: "nat \<Rightarrow> 'a logst_scheme \<Rightarrow> err + 'a logst_scheme" where
  "log_write b s =
    (if lh_n s \<ge> LOGSIZE \<or> lh_n s \<ge> log_size s - 1 then Inl (Panic ''too big a transaction'')
     else if log_outstanding s < 1 then Inl (Panic ''log_write outside of trans'')
     else
       let n = sint (blockno (buf_at b s));
           i = log_find 0 n (take (nat (lh_n s)) (lh_block s)) in
       bindE (lh_set i n s) (\<lambda>s.
       let s = (if i = lh_n s then s\<lparr>lh_n := lh_n s + 1\<rparr> else s)
       in Inr (upd_buf b (\<lambda>p. p\<lparr>bdirty := True\<rparr>) s)))"

end
