(* ===== verification/Console.thy ===== *)
theory Console
  imports Spinlock
begin

text \<open>
  Output: number and format printing of \<^verbatim>\<open>src/src/console.c\<close> (kernel) and \<^verbatim>\<open>src/src/printf.c\<close> (user), and the console
  that the kernel prints to: the serial line as the list of bytes sent and the text
  screen with its cursor register. Characters are their codes. The arguments of a format are a list, a string argument being the bytes before
  its zero; asking for an argument that is not there is \<open>OutOfBounds\<close>, as is running past \<open>buf[16]\<close>. The two files have each their own
  number printing and their own format interpreter, and so has the model. The bounded wait of \<open>uartputc\<close> for the transmitter
  has no effect on what is sent and is left out. \<open>cprintf\<close> also takes part in
  the locking of theory \<open>Spinlock\<close>. A processor that finds \<open>panicked\<close> set does not go on: \<open>WouldBlock\<close>.
\<close>

section \<open>Numbers\<close>

definition hexdigits :: "u8 \<Rightarrow> u8 list" where
  "hexdigits a = map (\<lambda>i. 48 + of_nat i) [0..<10] @ map (\<lambda>i. a + of_nat i) [0..<6]"

text \<open>The do-while loop of \<open>printint\<close> with \<open>room\<close> free places in \<open>buf\<close>, least significant digit first.
  \<open>a\<close> is the letter for ten: the kernel prints small letters.\<close>

fun printint_digits :: "nat \<Rightarrow> u8 \<Rightarrow> u32 \<Rightarrow> u32 \<Rightarrow> err + u8 list" where
  "printint_digits 0 a base x = Inl OutOfBounds"
| "printint_digits (Suc room) a base x =
    (let c = hexdigits a ! unat (x mod base); x = x div base in
     if x \<noteq> 0 then bindE (printint_digits room a base x) (\<lambda>cs. Inr (c # cs)) else Inr [c])"

text \<open>The characters \<open>printint\<close> puts out, in order.\<close>

definition printint :: "u8 \<Rightarrow> u32 \<Rightarrow> u32 \<Rightarrow> bool \<Rightarrow> err + u8 list" where
  "printint a xx base sign =
    (let neg = (sign \<and> sint xx < 0); x = (if neg then - xx else xx) in
     bindE (printint_digits 16 a base x) (\<lambda>cs.
     if neg then if length cs \<ge> 16 then Inl OutOfBounds else Inr (rev (cs @ [45])) else Inr (rev cs)))"

text \<open>\<open>printint\<close> of the user library; \<open>i\<close> is the number of characters in \<open>buf\<close>.\<close>

definition u_digits :: "u8 list" where
  "u_digits = [48, 49, 50, 51, 52, 53, 54, 55, 56, 57, 65, 66, 67, 68, 69, 70]"

function u_printint_loop :: "u8 list \<Rightarrow> u32 \<Rightarrow> u32 \<Rightarrow> err + u8 list" where
  "u_printint_loop buf base x =
    (if length buf \<ge> 16 then Inl OutOfBounds
     else
       let buf = buf @ [u_digits ! unat (x mod base)]; x = x div base
       in if x \<noteq> 0 then u_printint_loop buf base x else Inr buf)"
  by pat_completeness auto
termination by (relation "measure (\<lambda>(buf, base, x). 16 - length buf)") auto

declare u_printint_loop.simps [simp del]

definition u_printint :: "u32 \<Rightarrow> u32 \<Rightarrow> bool \<Rightarrow> err + u8 list" where
  "u_printint xx base sg =
    (let (neg, x) = (if sg \<and> sint xx < 0 then (True, - xx) else (False, xx)) in
     bindE (u_printint_loop [] base x) (\<lambda>buf.
     bindE (if neg then if length buf \<ge> 16 then Inl OutOfBounds else Inr (buf @ [45]) else Inr buf) (\<lambda>buf.
     Inr (rev buf))))"

section \<open>Formats\<close>

datatype carg = CWord u32 | CString "u8 list option"

fun arg_word :: "carg list \<Rightarrow> err + (u32 \<times> carg list)" where
  "arg_word (CWord v # as) = Inr (v, as)"
| "arg_word as = Inl OutOfBounds"

fun arg_string :: "carg list \<Rightarrow> err + (u8 list \<times> carg list)" where
  "arg_string (CString (Some t) # as) = Inr (t, as)"
| "arg_string (CString None # as) = Inr ([40, 110, 117, 108, 108, 41], as)"
| "arg_string (CWord v # as) = (if v = 0 then Inr ([40, 110, 117, 108, 108, 41], as) else Inl OutOfBounds)"
| "arg_string [] = Inl OutOfBounds"

text \<open>One conversion of the kernel: what is put out for the character \<open>c\<close> after \<open>%\<close>.\<close>

definition conversion :: "u8 \<Rightarrow> u8 \<Rightarrow> carg list \<Rightarrow> err + (u8 list \<times> carg list)" where
  "conversion a c as =
    (if c = 100 then bindE (arg_word as) (\<lambda>(v, as). bindE (printint a v 10 True) (\<lambda>cs. Inr (cs, as)))
     else if c = 120 \<or> c = 112 then bindE (arg_word as) (\<lambda>(v, as). bindE (printint a v 16 False) (\<lambda>cs. Inr (cs, as)))
     else if c = 115 then arg_string as
     else if c = 99 then bindE (arg_word as) (\<lambda>(v, as). Inr ([ucast v], as))
     else if c = 37 then Inr ([37], as)
     else Inr ([37, c], as))"

text \<open>\<open>cprintf\<close>: the loop over the format looks ahead for the character after \<open>%\<close>.\<close>

fun cprintf_chars :: "u8 list \<Rightarrow> carg list \<Rightarrow> err + u8 list" where
  "cprintf_chars [] as = Inr []"
| "cprintf_chars [c] as = (if c \<noteq> 37 then Inr [c] else Inr [])"
| "cprintf_chars (c # d # fmt) as =
    (if c \<noteq> 37 then bindE (cprintf_chars (d # fmt) as) (\<lambda>cs. Inr (c # cs))
     else bindE (conversion 97 d as) (\<lambda>(o1, as).
          bindE (cprintf_chars fmt as) (\<lambda>cs. Inr (o1 @ cs))))"

text \<open>A string pointer among the arguments, as the user library takes it.\<close>

fun u_arg_ptr :: "carg list \<Rightarrow> err + (u8 list option \<times> carg list)" where
  "u_arg_ptr (CString t # as) = Inr (t, as)"
| "u_arg_ptr (CWord v # as) = (if v = 0 then Inr (None, as) else Inl OutOfBounds)"
| "u_arg_ptr [] = Inl OutOfBounds"

text \<open>One conversion of the user library.\<close>

definition u_conversion :: "u8 \<Rightarrow> carg list \<Rightarrow> err + (u8 list \<times> carg list)" where
  "u_conversion c ap =
    (if c = 100 then bindE (arg_word ap) (\<lambda>(v, ap). bindE (u_printint v 10 True) (\<lambda>cs. Inr (cs, ap)))
     else if c = 120 \<or> c = 112 then bindE (arg_word ap) (\<lambda>(v, ap). bindE (u_printint v 16 False) (\<lambda>cs. Inr (cs, ap)))
     else if c = 115 then bindE (u_arg_ptr ap) (\<lambda>(t, ap).
       Inr (case t of None \<Rightarrow> [40, 110, 117, 108, 108, 41] | Some t \<Rightarrow> t, ap))
     else if c = 99 then bindE (arg_word ap) (\<lambda>(v, ap). Inr ([ucast v], ap))
     else if c = 37 then Inr ([c], ap)
     else Inr ([37, c], ap))"

text \<open>\<open>printf\<close> of the user library: a two-state machine over the format; the characters of the calls of \<open>putc\<close>.\<close>

fun printf_chars :: "bool \<Rightarrow> u8 list \<Rightarrow> carg list \<Rightarrow> err + u8 list" where
  "printf_chars st [] as = Inr []"
| "printf_chars False (c # fmt) as =
    (if c = 37 then printf_chars True fmt as
     else bindE (printf_chars False fmt as) (\<lambda>cs. Inr (c # cs)))"
| "printf_chars True (c # fmt) as =
    bindE (u_conversion c as) (\<lambda>(o1, as).
    bindE (printf_chars False fmt as) (\<lambda>cs. Inr (o1 @ cs)))"

section \<open>The screen and the serial line\<close>

record console =
  panicked :: bool
  uart_on :: bool
  uart_out :: "u8 list"
  crt :: "u16 list"
  crt_pos :: int

definition BACKSPACE :: int where [simp]: "BACKSPACE = 0x100"

definition cgaputc :: "int \<Rightarrow> console \<Rightarrow> err + console" where
  "cgaputc c k =
    (let pos = crt_pos k;
         (pos, scr) =
           (if c = 10 then (pos + (80 - pos smod 80), crt k)
            else if c = BACKSPACE then (if pos > 0 then pos - 1 else pos, crt k)
            else (pos + 1, (crt k)[nat pos := (of_int c AND 0xff) OR 0x0700]))
     in if pos < 0 \<or> pos > 25 * 80 then Inl (Panic ''pos under/overflow'')
        else
          let (pos, scr) =
            (if pos div 80 \<ge> 24 then
               let scr = take (23 * 80) (drop 80 scr) @ drop (23 * 80) scr; pos = pos - 80
               in (pos, take (nat pos) scr @ replicate (nat (24 * 80 - pos)) 0 @ drop (24 * 80) scr)
             else (pos, scr))
          in Inr (k\<lparr>crt_pos := pos, crt := scr[nat pos := 0x20 OR 0x0700]\<rparr>))"

definition uartputc :: "int \<Rightarrow> console \<Rightarrow> console" where
  "uartputc c k = (if \<not> uart_on k then k else k\<lparr>uart_out := uart_out k @ [of_int c]\<rparr>)"

definition consputc :: "int \<Rightarrow> console \<Rightarrow> err + console" where
  "consputc c k =
    (if panicked k then Inl WouldBlock
     else if c = BACKSPACE then cgaputc c (uartputc 8 (uartputc 0x20 (uartputc 8 k)))
     else cgaputc c (uartputc c k))"

fun consputs :: "u8 list \<Rightarrow> console \<Rightarrow> err + console" where
  "consputs [] k = Inr k"
| "consputs (c # cs) k = bindE (consputc (uint c) k) (consputs cs)"

text \<open>\<open>cprintf\<close> with the lock \<open>cl\<close> of the console, on processor \<open>c\<close>; \<open>locking\<close> is \<open>cons.locking\<close>. The format may be a null pointer.\<close>

definition cprintf :: "nat \<Rightarrow> nat \<Rightarrow> bool \<Rightarrow> u8 list option \<Rightarrow> carg list \<Rightarrow> lockst \<times> console \<Rightarrow> err + (lockst \<times> console)" where
  "cprintf c cl locking fmt as st =
    (case st of (s, k) \<Rightarrow>
       bindE (if locking then bindE (holding c cl s) (\<lambda>(h, s). if \<not> h then acquire c cl s else Inr s) else Inr s) (\<lambda>s.
       bindE (case fmt of None \<Rightarrow> Inl (Panic ''null fmt'') | Some f \<Rightarrow> cprintf_chars f as) (\<lambda>cs.
       bindE (consputs cs k) (\<lambda>k.
       bindE (if locking then release c cl s else Inr s) (\<lambda>s.
       Inr (s, k))))))"

section \<open>What printint prints\<close>

text \<open>The reference: the digits of a number in base \<open>b\<close>, most significant first, without leading zeros.\<close>

function in_base :: "u8 \<Rightarrow> nat \<Rightarrow> nat \<Rightarrow> u8 list" where
  "in_base a b n = (if n < b \<or> b < 2 then [hexdigits a ! n] else in_base a b (n div b) @ [hexdigits a ! (n mod b)])"
  by pat_completeness auto
termination by (relation "measure (\<lambda>(a, b, n). n)") auto

declare in_base.simps [simp del]

lemma unat_div_mod_base:
  assumes "2 \<le> b" and "b \<le> 16"
  shows "unat (x mod of_nat b :: u32) = unat x mod b" and "unat (x div of_nat b :: u32) = unat x div b"
proof -
  have "unat (of_nat b :: u32) = b" using assms by (simp add: unat_of_nat)
  then show "unat (x mod of_nat b :: u32) = unat x mod b" "unat (x div of_nat b :: u32) = unat x div b"
    by (simp_all add: unat_mod unat_div)
qed

lemma printint_digits_base:
  assumes b: "2 \<le> b" "b \<le> 16"
  shows "unat x < b ^ room \<Longrightarrow> room > 0 \<Longrightarrow> printint_digits room a (of_nat b) x = Inr (rev (in_base a b (unat x)))"
proof (induction room arbitrary: x)
  case (Suc room)
  note d = unat_div_mod_base [OF b, of x]
  have z: "x div of_nat b = 0 \<longleftrightarrow> unat x < b" using d(2) b by (metis div_eq_0_iff unat_eq_zero unsigned_0 not_numeral_le_zero)
  show ?case
  proof (cases "unat x < b")
    case True
    then show ?thesis using z d(1) by (simp add: Let_def in_base.simps [of a b "unat x"])
  next
    case False
    have lt: "unat x div b < b ^ room" using Suc.prems(1) b by (simp add: less_mult_imp_div_less mult.commute)
    then have "room > 0" using False b by (cases room) (auto simp: div_eq_0_iff)
    then have "printint_digits room a (of_nat b) (x div of_nat b) = Inr (rev (in_base a b (unat x div b)))"
      using Suc.IH [of "x div of_nat b"] lt d(2) by simp
    then show ?thesis using False z d(1) b by (simp add: Let_def in_base.simps [of a b "unat x"])
  qed
qed simp

lemma length_in_base: "2 \<le> b \<Longrightarrow> n < b ^ k \<Longrightarrow> 0 < k \<Longrightarrow> length (in_base a b n) \<le> k"
proof (induction a b n arbitrary: k rule: in_base.induct)
  case (1 a b n)
  show ?case
  proof (cases "n < b")
    case True
    then show ?thesis using 1(4) by (simp add: in_base.simps [of a b n])
  next
    case False
    obtain j where k: "k = Suc j" using 1(4) by (cases k) auto
    have lt: "n div b < b ^ j" using 1(3) k 1(2) by (simp add: less_mult_imp_div_less mult.commute)
    then have "j > 0" using False 1(2) by (cases j) (auto simp: div_eq_0_iff)
    then show ?thesis using 1(1) [OF _ 1(2) lt] False 1(2) k by (simp add: in_base.simps [of a b n])
  qed
qed

lemma unat_lt_base:
  assumes "2 \<le> b" "b \<in> {10, 16}"
  shows "unat (x :: u32) < b ^ 10"
proof -
  have "unat x < 2 ^ LENGTH(32)" by (rule unsigned_less)
  then have "unat x < 2 ^ 32" by simp
  also have "(2 :: nat) ^ 32 \<le> b ^ 10" using assms by auto
  finally show ?thesis .
qed

lemma hexdigits_low: "n < 10 \<Longrightarrow> hexdigits a ! n = hexdigits b ! n"
  by (simp add: hexdigits_def nth_append)

lemma in_base_10: "in_base a 10 n = in_base b 10 n"
proof (induction n rule: less_induct)
  case (less n)
  then show ?case
    by (cases "n < 10") (simp_all add: in_base.simps [of _ 10 n] hexdigits_low [of "n mod 10" a b] hexdigits_low [of n a b])
qed

lemma printint_base:
  assumes b: "b \<in> {10, 16}"
  shows "printint a xx (of_nat b) sign =
    Inr (if sign \<and> sint xx < 0 then 45 # in_base a b (unat (- xx)) else in_base a b (unat xx))"
proof -
  have b2: "2 \<le> b" "b \<le> 16" using b by auto
  have lt: "unat x < b ^ 16" for x :: u32
  proof -
    have "b ^ 10 \<le> b ^ 16" using b2 by (intro power_increasing) auto
    then show ?thesis using unat_lt_base [OF b2(1) b, of x] by linarith
  qed
  have dig: "printint_digits 16 a (of_nat b) x = Inr (rev (in_base a b (unat x)))" for x
    using printint_digits_base [OF b2 lt, of a x] by simp
  have "length (in_base a b (unat x)) \<le> 10" for x :: u32
    using length_in_base [OF b2(1) unat_lt_base [OF b2(1) b]] by simp
  then have "length (in_base a b (unat (- xx))) \<le> 10" .
  then have "\<not> 16 \<le> length (in_base a b (unat (- xx)))" by linarith
  then show ?thesis by (simp add: printint_def Let_def dig)
qed

lemma unat_of_int32: "0 \<le> k \<Longrightarrow> k < 2 ^ 32 \<Longrightarrow> unat (of_int k :: u32) = nat k"
  by (simp only: unat_eq_nat_uint uint_word_of_int_eq take_bit_eq_mod) simp

lemma unat_sint:
  "sint (xx :: u32) < 0 \<Longrightarrow> unat (- xx) = nat (- sint xx)"
  "\<not> sint xx < 0 \<Longrightarrow> unat xx = nat (sint xx)"
proof -
  have b: "- (2 ^ 31) \<le> sint xx" "sint xx < 2 ^ 31" using sint_ge [of xx] sint_lt [of xx] by simp_all
  show "sint xx < 0 \<Longrightarrow> unat (- xx) = nat (- sint xx)" using unat_of_int32 [of "- sint xx"] b by simp
  show "\<not> sint xx < 0 \<Longrightarrow> unat xx = nat (sint xx)" using unat_of_int32 [of "sint xx"] b by simp
qed

text \<open>C20. \<open>%d\<close> prints the decimal digits of the value as a signed number, with a minus
  sign for a negative one, the least \<open>int\<close> included, and \<open>%x\<close> the hexadecimal digits of the value as an unsigned one; the
  16-byte buffer is never overrun. The digits are those of the reference function, without leading zeros.\<close>

theorem printint_correct:
  "printint a xx 10 True = Inr ((if sint xx < 0 then [45] else []) @ in_base a 10 (nat \<bar>sint xx\<bar>))
   \<and> printint a xx 16 False = Inr (in_base a 16 (unat xx))"
  using printint_base [of 10 a xx True] printint_base [of 16 a xx False] unat_sint [of xx] by auto

section \<open>The two format interpreters\<close>

lemma u_digits_eq: "u_digits = hexdigits 65"
  by (simp add: u_digits_def hexdigits_def upt_rec)

lemma u_printint_loop_eq:
  "u_printint_loop buf base x = bindE (printint_digits (16 - length buf) 65 base x) (\<lambda>cs. Inr (buf @ cs))"
proof (induction buf base x rule: u_printint_loop.induct)
  case (1 buf base x)
  show ?case
  proof (cases "length buf \<ge> 16")
    case True
    then show ?thesis by (simp add: u_printint_loop.simps [of buf])
  next
    case False
    let ?c = "hexdigits 65 ! unat (x mod base)"
    obtain r where r: "16 - length buf = Suc r" "16 - length (buf @ [?c]) = r" using False by (cases "16 - length buf") auto
    show ?thesis
    proof (cases "x div base \<noteq> 0")
      case True
      have "u_printint_loop (buf @ [?c]) base (x div base) = bindE (printint_digits r 65 base (x div base)) (\<lambda>cs. Inr ((buf @ [?c]) @ cs))"
        using 1(1) [OF False refl refl True] unfolding u_digits_eq r(2) .
      then show ?thesis using True False r(1)
        by (cases "printint_digits r 65 base (x div base)") (simp_all add: u_printint_loop.simps [of buf] u_digits_eq Let_def)
    next
      case False
      then show ?thesis using \<open>\<not> length buf \<ge> 16\<close> r(1) by (simp add: u_printint_loop.simps [of buf] u_digits_eq Let_def)
    qed
  qed
qed

lemma u_printint_eq: "u_printint xx base sg = printint 65 xx base sg"
  unfolding u_printint_def printint_def u_printint_loop_eq Let_def
  by (cases "printint_digits 16 65 base (if sg \<and> sint xx < 0 then - xx else xx)") auto

lemma u_conversion_eq: "u_conversion c as = conversion 65 c as"
proof -
  have "bindE (u_arg_ptr as) (\<lambda>(t, ap). Inr (case t of None \<Rightarrow> [40, 110, 117, 108, 108, 41] | Some t \<Rightarrow> t, ap)) = arg_string as"
    by (cases as rule: arg_string.cases) auto
  then show ?thesis by (simp add: u_conversion_def conversion_def u_printint_eq)
qed

lemma conversion_letters: "d \<noteq> 120 \<Longrightarrow> d \<noteq> 112 \<Longrightarrow> conversion 97 d as = conversion 65 d as"
  using printint_base [of 10] in_base_10 [of 97 _ 65]
  by (cases "arg_word as") (auto simp: conversion_def)

text \<open>Characters up to the case of the letters for digits.\<close>

definition upcase :: "u8 \<Rightarrow> u8" where
  "upcase c = (if 97 \<le> c \<and> c \<le> 102 then c - 32 else c)"

lemma upcase_digits: "n < 16 \<Longrightarrow> upcase (hexdigits 97 ! n) = upcase (hexdigits 65 ! n)"
proof -
  have "list_all (\<lambda>n. upcase (hexdigits 97 ! n) = upcase (hexdigits 65 ! n)) [0..<16]" by code_simp
  then show "n < 16 \<Longrightarrow> upcase (hexdigits 97 ! n) = upcase (hexdigits 65 ! n)" by (simp add: list_all_iff)
qed

lemma upcase_in_base: "map upcase (in_base 97 16 n) = map upcase (in_base 65 16 n)"
proof (induction n rule: less_induct)
  case (less n)
  then show ?case
    by (cases "n < 16") (simp_all add: in_base.simps [of _ 16 n] upcase_digits)
qed

abbreviation same_upto :: "err + u8 list \<Rightarrow> err + u8 list \<Rightarrow> bool" where
  "same_upto x y \<equiv> map_sum id (map upcase) x = map_sum id (map upcase) y"

lemma conversion_upto:
  "map_sum id (map_prod (map upcase) id) (conversion 97 d as) = map_sum id (map_prod (map upcase) id) (conversion 65 d as)"
proof (cases "d = 120 \<or> d = 112")
  case True
  then show ?thesis
    using printint_base [of 16 _ _ False] upcase_in_base by (cases "arg_word as") (auto simp: conversion_def)
next
  case False
  then show ?thesis using conversion_letters [of d as] by simp
qed

lemma formats_upto: "same_upto (cprintf_chars fmt as) (printf_chars False fmt as)"
proof (induction fmt as rule: cprintf_chars.induct)
  case (3 c d fmt as)
  show ?case
  proof (cases "c = 37")
    case True
    show ?thesis
    proof (cases "conversion 97 d as")
      case (Inl e)
      then have "conversion 65 d as = Inl e" using conversion_upto [of d as] by (cases "conversion 65 d as") simp_all
      then show ?thesis using True Inl by (simp add: u_conversion_eq)
    next
      case (Inr r)
      obtain o1 as' where r: "r = (o1, as')" by fastforce
      obtain o2 where o2: "conversion 65 d as = Inr (o2, as')" "map upcase o2 = map upcase o1"
        using conversion_upto [of d as] Inr r by (cases "conversion 65 d as") auto
      have "same_upto (cprintf_chars fmt as') (printf_chars False fmt as')" using 3(2) [OF _ Inr] True r by (simp add: id_def)
      then show ?thesis using True Inr r o2
        by (cases "cprintf_chars fmt as'"; cases "printf_chars False fmt as'") (auto simp: u_conversion_eq)
    qed
  next
    case False
    then have "same_upto (cprintf_chars (d # fmt) as) (printf_chars False (d # fmt) as)" by (rule 3(1))
    moreover have "printf_chars False (c # d # fmt) as = bindE (printf_chars False (d # fmt) as) (\<lambda>cs. Inr (c # cs))"
      "cprintf_chars (c # d # fmt) as = bindE (cprintf_chars (d # fmt) as) (\<lambda>cs. Inr (c # cs))" using False by simp_all
    ultimately show ?thesis
      by (cases "cprintf_chars (d # fmt) as"; cases "printf_chars False (d # fmt) as") (simp_all only: bindE_simps map_sum.simps list.map sum.inject sum.distinct id_apply)
  qed
qed auto

lemma formats_equal:
  assumes "120 \<notin> set fmt" and "112 \<notin> set fmt"
  shows "cprintf_chars fmt as = printf_chars False fmt as"
  using assms
proof (induction fmt as rule: cprintf_chars.induct)
  case (3 c d fmt as)
  show ?case
  proof (cases "c = 37")
    case True
    have "conversion 97 d as = u_conversion d as" using 3(3,4) conversion_letters [of d as] by (auto simp: u_conversion_eq)
    moreover have "cprintf_chars fmt as' = printf_chars False fmt as'"
      if "conversion 97 d as = Inr (o1, as')" for o1 as'
      using 3(2) [OF _ that] True 3(3,4) by simp
    ultimately show ?thesis using True by (cases "u_conversion d as") auto
  next
    case False
    then show ?thesis using 3(1) 3(3,4) by simp
  qed
qed auto

text \<open>C22. The kernel's \<open>cprintf\<close> and the user library's \<open>printf\<close>, which share no code, interpret formats alike: on every format and every list of arguments both run out of
  arguments alike or put out the same characters up to the case of the letters a to f, in which their hexadecimal digits differ; on a format without \<open>x\<close> and \<open>p\<close>
  the characters are the same. A \<open>%\<close> at the end prints nothing in both.\<close>

theorem cprintf_printf:
  "map_sum id (map upcase) (cprintf_chars fmt as) = map_sum id (map upcase) (printf_chars False fmt as) \<and>
   (120 \<notin> set fmt \<and> 112 \<notin> set fmt \<longrightarrow> cprintf_chars fmt as = printf_chars False fmt as)"
  using formats_upto formats_equal by blast

theorem cprintf_printf_witness:
  "cprintf_chars [37, 100, 33] [CWord 7] = Inr [55, 33] \<and>
   map_sum id (map upcase) (cprintf_chars [37, 120] [CWord 0xAB]) = Inr [65, 66]"
proof -
  have "printint 65 7 10 True = Inr [55]" "printint 65 0xAB 16 False = Inr [65, 66]"
    using printint_base [of 10 65 7 True] printint_base [of 16 65 "0xAB" False] by (simp_all add: in_base.simps hexdigits_def nth_append)
  then have "printf_chars False [37, 100, 33] [CWord 7] = Inr [55, 33]" "printf_chars False [37, 120] [CWord 0xAB] = Inr [65, 66]"
    by (simp_all add: u_conversion_eq conversion_def)
  then show ?thesis
    using cprintf_printf [of "[37, 100, 33]" "[CWord 7]"] cprintf_printf [of "[37, 120]" "[CWord 0xAB]"] by (simp add: upcase_def)
qed

section \<open>The cursor stays on the screen\<close>

definition screen_ok :: "console \<Rightarrow> bool" where
  "screen_ok k \<longleftrightarrow> \<not> panicked k \<and> length (crt k) = 25 * 80 \<and> 0 \<le> crt_pos k \<and> crt_pos k < 24 * 80"

lemma cgaputc_ok:
  assumes k: "screen_ok k"
  shows "\<exists>k'. cgaputc c k = Inr k' \<and> screen_ok k'"
proof -
  obtain pos scr where p: "(if c = 10 then (crt_pos k + (80 - crt_pos k smod 80), crt k)
      else if c = BACKSPACE then (if crt_pos k > 0 then crt_pos k - 1 else crt_pos k, crt k)
      else (crt_pos k + 1, (crt k)[nat (crt_pos k) := (of_int c AND 0xff) OR 0x0700])) = (pos, scr)"
    by (meson surj_pair)
  have m: "crt_pos k smod 80 = crt_pos k mod 80"
    using k by (cases "crt_pos k = 0") (auto simp: screen_ok_def smod_int_alt_def)
  have len: "length scr = 2000" using p k by (auto simp: screen_ok_def split: if_splits)
  have pos: "0 \<le> pos" "pos \<le> 1920"
    using p k m by (auto simp: screen_ok_def split: if_splits) (presburger+)
  show ?thesis
    using k pos len p by (cases "pos div 80 \<ge> 24") (auto simp: cgaputc_def screen_ok_def Let_def)
qed

lemma consputc_ok: "screen_ok k \<Longrightarrow> \<exists>k'. consputc c k = Inr k' \<and> screen_ok k'"
  using cgaputc_ok [of "uartputc c k" c] cgaputc_ok [of "uartputc 8 (uartputc 0x20 (uartputc 8 k))" c]
  by (auto simp: consputc_def screen_ok_def uartputc_def)

lemma consputs_screen: "screen_ok k \<Longrightarrow> \<exists>k'. consputs cs k = Inr k' \<and> screen_ok k'"
proof (induction cs arbitrary: k)
  case (Cons c cs)
  obtain k' where "consputc (uint c) k = Inr k'" "screen_ok k'" using consputc_ok [OF Cons.prems] by blast
  then show ?case using Cons.IH [of k'] by simp
qed simp

text \<open>C21. Whatever is printed, newlines and backspaces included, the cursor stays within the
  24 text lines: printing never reaches the panic for a cursor off the screen.\<close>

theorem consputs_ok:
  assumes "screen_ok k"
  shows "(\<exists>k'. consputs cs k = Inr k' \<and> screen_ok k') \<and> (\<exists>k'. consputc BACKSPACE k = Inr k' \<and> screen_ok k')"
  using consputs_screen [OF assms] consputc_ok [OF assms] by blast

theorem consputs_ok_witness:
  "\<exists>k'. consputs (replicate 30 10) \<lparr>panicked = False, uart_on = True, uart_out = [], crt = replicate 2000 0, crt_pos = 1900\<rparr> = Inr k' \<and> screen_ok k'"
  by (rule consputs_ok [THEN conjunct1]) (simp add: screen_ok_def)

section \<open>Printing while the console is locked\<close>

lemma release_not_held:
  assumes "c < length (cpus s)" and "ncli (cpus s ! c) \<ge> 0" and "lcpu (locks s ! l) \<noteq> Some c"
  shows "release c l s = Inl (Panic ''release'')"
  using assms by (auto simp: release_def holding_def pushcli_def popcli_def Let_def)

text \<open>C19. \<open>cprintf\<close> releases a console lock that its caller took. It acquires the lock only if the processor does not hold it yet but
  releases it always; so when the page fault handler prints while \<open>consolewrite\<close> or \<open>consoleintr\<close>
  holds the lock, the lock is free afterwards and the holder's own \<open>release\<close> is a panic.\<close>

theorem cprintf_drops_lock:
  assumes "lock_inv s" and "c < length (cpus s)" and "cl < length (locks s)" and "lcpu (locks s ! cl) = Some c"
    and "cprintf c cl True fmt as (s, k) = Inr (s', k')"
  shows "\<not> locked (locks s' ! cl) \<and> release c cl s' = Inl (Panic ''release'')"
proof -
  have l: "locked (locks s ! cl)" using assms(1,3,4) by (auto simp: lock_inv_def)
  have n: "0 \<le> ncli (cpus s ! c)" "iflag (cpus s ! c) \<longrightarrow> ncli (cpus s ! c) = 0"
    using assms(1,2) by (auto simp: lock_inv_def)
  obtain s1 where h: "holding c cl s = Inr (True, s1)" "locks s1 = locks s"
    using holding_eq [of s c cl] n assms(2,4) l by auto
  have r: "release c cl s1 = Inr s'" using assms(5) h by (auto simp: cprintf_def)
  have "lock_inv s1" "length (cpus s1) = length (cpus s)" using assms(1,2) h by (auto simp: holding_def pushcli_def popcli_def Let_def lock_inv_def held_def nth_list_update split: if_splits)
  then have inv: "lock_inv s'" using lock_inv_release [of s1 c cl s'] r assms(2,3) h(2) by simp
  have "\<not> locked (locks s' ! cl)" "lcpu (locks s' ! cl) = None" "length (cpus s') = length (cpus s)"
    using r h(2) assms(2,3) \<open>length (cpus s1) = length (cpus s)\<close>
    by (auto simp: release_def holding_def pushcli_def popcli_def Let_def split: if_splits)
  then show ?thesis using release_not_held [of c s' cl] inv assms(2) by (auto simp: lock_inv_def)
qed

theorem cprintf_drops_lock_witness:
  "\<exists>s s' k'. acquire 0 2 lockst0 = Inr s
    \<and> cprintf 0 2 True (Some [104, 105]) [] (s, \<lparr>panicked = False, uart_on = True, uart_out = [], crt = replicate 2000 0, crt_pos = 0\<rparr>) = Inr (s', k')
    \<and> release 0 2 s' = Inl (Panic ''release'')"
proof -
  let ?k = "\<lparr>panicked = False, uart_on = True, uart_out = [], crt = replicate 2000 0, crt_pos = 0\<rparr>"
  have inv0: "lock_inv lockst0" by (auto simp: lock_inv_def lockst0_def held_def nth_Cons')
  have len: "length (cpus lockst0) = 2" "length (locks lockst0) = 3" by (simp_all add: lockst0_def)
  obtain s where a: "acquire 0 2 lockst0 = Inr s" and sdef: "s = \<lparr>cpus = [\<lparr>ncli = 1, intena = True, iflag = False\<rparr>, \<lparr>ncli = 0, intena = False, iflag = True\<rparr>],
      locks = [\<lparr>locked = False, lcpu = None\<rparr>, \<lparr>locked = False, lcpu = None\<rparr>, \<lparr>locked = True, lcpu = Some 0\<rparr>]\<rparr>"
    by (simp add: acquire_def holding_def pushcli_def popcli_def lockst0_def Let_def numeral_eq_Suc)
  have inv: "lock_inv s" and hd: "lcpu (locks s ! 2) = Some 0"
    using lock_inv_acquire [OF inv0 _ _ a] len by simp_all
  obtain k' where k: "consputs [104, 105] ?k = Inr k'"
    using consputs_screen [of ?k "[104, 105]"] by (auto simp: screen_ok_def)
  have "\<exists>s'. cprintf 0 2 True (Some [104, 105]) [] (s, k) = Inr (s', k')" if "consputs [104, 105] k = Inr k'" for k
    using that by (simp add: cprintf_def sdef holding_def pushcli_def popcli_def release_def Let_def)
  then obtain s' where c: "cprintf 0 2 True (Some [104, 105]) [] (s, ?k) = Inr (s', k')" using k by blast
  have "length (cpus s) = 2" "length (locks s) = 3" by (simp_all add: sdef)
  then show ?thesis using cprintf_drops_lock [OF inv _ _ hd c] a c by auto
qed

end
