(* ===== verification/Inode.thy ===== *)
theory Inode
  imports Log Console
begin

text \<open>
  Blocks and inodes, \<^verbatim>\<open>src/src/fs.c\<close> up to \<open>stati\<close>. An inode of the cache is named by its index; its sleep lock has number
  \<open>NBUF\<close> plus the index. Fields of \<open>struct dinode\<close> are read and written at their byte offsets in the block.
  The state also has what the console driver keeps: the line being edited, the output devices
  and the device switch, whose function pointers are named by constructors.
\<close>

section \<open>State\<close>

record inode =
  idev :: u32
  inum :: u32
  iref :: int
  ivalid :: bool
  itype :: u16
  imajor :: u16
  iminor :: u16
  nlink :: u16
  isize :: u32
  addrs :: "u32 list"

datatype devfn = ConsoleRead | ConsoleWrite

record fsst = logst +
  sb :: superblock
  inodes :: "inode list"
  devsw_read :: "devfn option list"
  devsw_write :: "devfn option list"
  con :: console
  input_buf :: "u8 list"
  input_r :: u32
  input_w :: u32
  input_e :: u32

record stat =
  st_type :: u16
  st_dev :: u32
  st_ino :: u32
  st_nlink :: u16
  st_size :: u32

definition NINODE :: nat where [simp]: "NINODE = 50"
definition NDEV :: int where [simp]: "NDEV = 10"
definition ROOTDEV :: u32 where [simp]: "ROOTDEV = 1"
definition ROOTINO :: u32 where [simp]: "ROOTINO = 1"
definition NDIRECT :: nat where [simp]: "NDIRECT = 12"
definition NINDIRECT :: nat where [simp]: "NINDIRECT = 128"
definition MAXFILE :: nat where [simp]: "MAXFILE = NDIRECT + NINDIRECT"
definition IPB :: u32 where [simp]: "IPB = 8"
definition BPB :: u32 where [simp]: "BPB = 4096"
definition T_DIR :: u16 where [simp]: "T_DIR = 1"
definition T_FILE :: u16 where [simp]: "T_FILE = 2"
definition T_DEV :: u16 where [simp]: "T_DEV = 3"

definition IBLOCK :: "u32 \<Rightarrow> superblock \<Rightarrow> u32" where
  "IBLOCK i b = i div IPB + sb_inodestart b"

definition BBLOCK :: "u32 \<Rightarrow> superblock \<Rightarrow> u32" where
  "BBLOCK b p = b div BPB + sb_bmapstart p"

definition inode_at :: "nat \<Rightarrow> 'a fsst_scheme \<Rightarrow> inode" where
  "inode_at i s = inodes s ! i"

definition upd_inode :: "nat \<Rightarrow> (inode \<Rightarrow> inode) \<Rightarrow> 'a fsst_scheme \<Rightarrow> 'a fsst_scheme" where
  "upd_inode i f s = s\<lparr>inodes := (inodes s)[i := f (inodes s ! i)]\<rparr>"

definition inode_lock :: "nat \<Rightarrow> nat" where "inode_lock i = NBUF + i"

section \<open>Blocks\<close>

definition set_data :: "nat \<Rightarrow> (u8 list \<Rightarrow> u8 list) \<Rightarrow> 'a diskst_scheme \<Rightarrow> 'a diskst_scheme" where
  "set_data b f s = upd_buf b (\<lambda>p. p\<lparr>bdata := f (bdata p)\<rparr>) s"

definition bzero :: "u32 \<Rightarrow> u32 \<Rightarrow> 'a logst_scheme \<Rightarrow> err + 'a logst_scheme" where
  "bzero dev bno s = bindE (bread dev bno s) (\<lambda>(bp, s).
     bindE (log_write bp (set_data bp (\<lambda>_. replicate BSIZE 0) s)) (brelse bp))"

definition bit_of :: "nat \<Rightarrow> u8" where
  "bit_of bi = push_bit (bi mod 8) 1"

text \<open>The first of the bits \<open>bi < BPB\<close> with \<open>b + bi < sb.size\<close> that is clear.\<close>

definition free_bit :: "u32 \<Rightarrow> u32 \<Rightarrow> u8 list \<Rightarrow> nat option" where
  "free_bit n b d =
    find (\<lambda>bi. d ! (bi div 8) AND bit_of bi = 0) [0..<min (unat BPB) (unat n - unat b)]"

text \<open>The outer loop, over the values \<open>0, BPB, 2 * BPB, ...\<close> of \<open>b\<close> below \<open>sb.size\<close>.\<close>

fun balloc_loop :: "u32 \<Rightarrow> u32 list \<Rightarrow> 'a fsst_scheme \<Rightarrow> err + (u32 \<times> 'a fsst_scheme)" where
  "balloc_loop dev [] s = Inl (Panic ''balloc: out of blocks'')"
| "balloc_loop dev (b # bs) s =
    bindE (bread dev (BBLOCK b (sb s)) s) (\<lambda>(bp, s).
    case free_bit (sb_size (sb s)) b (bdata (buf_at bp s)) of
      Some bi \<Rightarrow>
        let s = set_data bp (\<lambda>d. d[bi div 8 := (d ! (bi div 8)) OR bit_of bi]) s in
        bindE (log_write bp s) (\<lambda>s.
        bindE (brelse bp s) (\<lambda>s.
        bindE (bzero dev (b + of_nat bi) s) (\<lambda>s.
        Inr (b + of_nat bi, s))))
    | None \<Rightarrow> bindE (brelse bp s) (balloc_loop dev bs))"

definition balloc :: "u32 \<Rightarrow> 'a fsst_scheme \<Rightarrow> err + (u32 \<times> 'a fsst_scheme)" where
  "balloc dev s =
    balloc_loop dev (map (\<lambda>k. BPB * of_nat k) [0..<(unat (sb_size (sb s)) + 4095) div 4096]) s"

definition bfree :: "u32 \<Rightarrow> u32 \<Rightarrow> 'a fsst_scheme \<Rightarrow> err + 'a fsst_scheme" where
  "bfree dev b s = bindE (bread dev (BBLOCK b (sb s)) s) (\<lambda>(bp, s).
     let bi = unat (b mod BPB); d = bdata (buf_at bp s) in
     if d ! (bi div 8) AND bit_of bi = 0 then Inl (Panic ''freeing free block'')
     else
       bindE (log_write bp (set_data bp (\<lambda>d. d[bi div 8 := d ! (bi div 8) AND NOT (bit_of bi)]) s)) (brelse bp))"

section \<open>Inodes\<close>

text \<open>Offset of an inode in its block, and the fields of \<open>struct dinode\<close>.\<close>

definition dip_off :: "u32 \<Rightarrow> nat" where
  "dip_off i = 64 * unat (i mod IPB)"

definition read_dinode :: "u8 list \<Rightarrow> nat \<Rightarrow> inode \<Rightarrow> inode" where
  "read_dinode d o1 ip = ip\<lparr>itype := get16 d o1, imajor := get16 d (o1 + 2), iminor := get16 d (o1 + 4),
     nlink := get16 d (o1 + 6), isize := get32 d (o1 + 8),
     addrs := map (\<lambda>k. get32 d (o1 + 12 + 4 * k)) [0..<NDIRECT + 1]\<rparr>"

definition write_dinode :: "inode \<Rightarrow> nat \<Rightarrow> u8 list \<Rightarrow> u8 list" where
  "write_dinode ip o1 d =
    (let d = put16 d o1 (itype ip);
         d = put16 d (o1 + 2) (imajor ip);
         d = put16 d (o1 + 4) (iminor ip);
         d = put16 d (o1 + 6) (nlink ip);
         d = put32 d (o1 + 8) (isize ip)
     in fold (\<lambda>k d. put32 d (o1 + 12 + 4 * k) (addrs ip ! k)) [0..<NDIRECT + 1] d)"

definition iupdate :: "nat \<Rightarrow> 'a fsst_scheme \<Rightarrow> err + 'a fsst_scheme" where
  "iupdate i s =
    (let ip = inode_at i s in
     bindE (bread (idev ip) (IBLOCK (inum ip) (sb s)) s) (\<lambda>(bp, s).
     bindE (log_write bp (set_data bp (write_dinode ip (dip_off (inum ip))) s)) (brelse bp)))"

text \<open>One pass over the cache: the entry of the inode, or else the first free entry.\<close>

fun iget_scan :: "u32 \<Rightarrow> u32 \<Rightarrow> nat \<Rightarrow> nat option \<Rightarrow> inode list \<Rightarrow> nat option \<times> nat option" where
  "iget_scan dev n i emp [] = (None, emp)"
| "iget_scan dev n i emp (ip # ips) =
    (if iref ip > 0 \<and> idev ip = dev \<and> inum ip = n then (Some i, emp)
     else iget_scan dev n (Suc i) (if emp = None \<and> iref ip = 0 then Some i else emp) ips)"

definition iget :: "u32 \<Rightarrow> u32 \<Rightarrow> 'a fsst_scheme \<Rightarrow> err + (nat \<times> 'a fsst_scheme)" where
  "iget dev n s =
    (case iget_scan dev n 0 None (inodes s) of
       (Some i, _) \<Rightarrow> Inr (i, upd_inode i (\<lambda>ip. ip\<lparr>iref := iref ip + 1\<rparr>) s)
     | (None, None) \<Rightarrow> Inl (Panic ''iget: no inodes'')
     | (None, Some i) \<Rightarrow> Inr (i, upd_inode i (\<lambda>ip. ip\<lparr>idev := dev, inum := n, iref := 1, ivalid := False\<rparr>) s))"

fun ialloc_loop :: "u32 \<Rightarrow> u16 \<Rightarrow> u32 list \<Rightarrow> 'a fsst_scheme \<Rightarrow> err + (nat \<times> 'a fsst_scheme)" where
  "ialloc_loop dev ty [] s = Inl (Panic ''ialloc: no inodes'')"
| "ialloc_loop dev ty (n # ns) s =
    bindE (bread dev (IBLOCK n (sb s)) s) (\<lambda>(bp, s).
    if get16 (bdata (buf_at bp s)) (dip_off n) = 0 then
      bindE (log_write bp (set_data bp (\<lambda>d. put16 (splice (dip_off n) (replicate 64 0) d) (dip_off n) ty) s)) (\<lambda>s.
      bindE (brelse bp s) (\<lambda>s.
      iget dev n s))
    else bindE (brelse bp s) (ialloc_loop dev ty ns))"

definition ialloc :: "u32 \<Rightarrow> u16 \<Rightarrow> 'a fsst_scheme \<Rightarrow> err + (nat \<times> 'a fsst_scheme)" where
  "ialloc dev ty s = ialloc_loop dev ty (map of_nat [1..<unat (sb_ninodes (sb s))]) s"

definition idup :: "nat \<Rightarrow> 'a fsst_scheme \<Rightarrow> 'a fsst_scheme" where
  "idup i s = upd_inode i (\<lambda>ip. ip\<lparr>iref := iref ip + 1\<rparr>) s"

definition ilock :: "nat \<Rightarrow> 'a fsst_scheme \<Rightarrow> err + 'a fsst_scheme" where
  "ilock i s =
    (if iref (inode_at i s) < 1 then Inl (Panic ''ilock'')
     else bindE (lockE (inode_lock i) s) (\<lambda>s.
       if ivalid (inode_at i s) then Inr s
       else
         bindE (bread (idev (inode_at i s)) (IBLOCK (inum (inode_at i s)) (sb s)) s) (\<lambda>(bp, s).
         let d = bdata (buf_at bp s);
             s = upd_inode i (\<lambda>ip. read_dinode d (dip_off (inum ip)) ip) s in
         bindE (brelse bp s) (\<lambda>s.
         let s = upd_inode i (\<lambda>ip. ip\<lparr>ivalid := True\<rparr>) s in
         if itype (inode_at i s) = 0 then Inl (Panic ''ilock: no type'') else Inr s))))"

definition iunlock :: "nat \<Rightarrow> 'a fsst_scheme \<Rightarrow> err + 'a fsst_scheme" where
  "iunlock i s = bindE (holdingsleep (inode_lock i) s) (\<lambda>h.
     if \<not> h \<or> iref (inode_at i s) < 1 then Inl (Panic ''iunlock'')
     else Inr (releasesleep (inode_lock i) s))"

text \<open>The loops of \<open>itrunc\<close> over the direct and the indirect block numbers.\<close>

fun itrunc_direct :: "nat \<Rightarrow> nat list \<Rightarrow> 'a fsst_scheme \<Rightarrow> err + 'a fsst_scheme" where
  "itrunc_direct i [] s = Inr s"
| "itrunc_direct i (k # ks) s =
    (if addrs (inode_at i s) ! k \<noteq> 0 then
       bindE (bfree (idev (inode_at i s)) (addrs (inode_at i s) ! k) s) (\<lambda>s.
       itrunc_direct i ks (upd_inode i (\<lambda>ip. ip\<lparr>addrs := (addrs ip)[k := 0]\<rparr>) s))
     else itrunc_direct i ks s)"

fun itrunc_indirect :: "u32 \<Rightarrow> nat \<Rightarrow> nat list \<Rightarrow> 'a fsst_scheme \<Rightarrow> err + 'a fsst_scheme" where
  "itrunc_indirect dev bp [] s = Inr s"
| "itrunc_indirect dev bp (j # js) s =
    (let a = get32 (bdata (buf_at bp s)) (4 * j) in
     if a \<noteq> 0 then bindE (bfree dev a s) (itrunc_indirect dev bp js)
     else itrunc_indirect dev bp js s)"

definition itrunc :: "nat \<Rightarrow> 'a fsst_scheme \<Rightarrow> err + 'a fsst_scheme" where
  "itrunc i s =
    bindE (itrunc_direct i [0..<NDIRECT] s) (\<lambda>s.
    let ind = addrs (inode_at i s) ! NDIRECT; dev = idev (inode_at i s) in
    bindE
      (if ind \<noteq> 0 then
         bindE (bread dev ind s) (\<lambda>(bp, s).
         bindE (itrunc_indirect dev bp [0..<NINDIRECT] s) (\<lambda>s.
         bindE (brelse bp s) (\<lambda>s.
         bindE (bfree dev (addrs (inode_at i s) ! NDIRECT) s) (\<lambda>s.
         Inr (upd_inode i (\<lambda>ip. ip\<lparr>addrs := (addrs ip)[NDIRECT := 0]\<rparr>) s)))))
       else Inr s) (\<lambda>s.
    iupdate i (upd_inode i (\<lambda>ip. ip\<lparr>isize := 0\<rparr>) s)))"

definition iput :: "nat \<Rightarrow> 'a fsst_scheme \<Rightarrow> err + 'a fsst_scheme" where
  "iput i s =
    bindE (lockE (inode_lock i) s) (\<lambda>s.
    bindE
      (if ivalid (inode_at i s) \<and> nlink (inode_at i s) = 0 \<and> iref (inode_at i s) = 1 then
         bindE (itrunc i s) (\<lambda>s.
         bindE (iupdate i (upd_inode i (\<lambda>ip. ip\<lparr>itype := 0\<rparr>) s)) (\<lambda>s.
         Inr (upd_inode i (\<lambda>ip. ip\<lparr>ivalid := False\<rparr>) s)))
       else Inr s) (\<lambda>s.
    Inr (upd_inode i (\<lambda>ip. ip\<lparr>iref := iref ip - 1\<rparr>) (releasesleep (inode_lock i) s))))"

definition iunlockput :: "nat \<Rightarrow> 'a fsst_scheme \<Rightarrow> err + 'a fsst_scheme" where
  "iunlockput i s = bindE (iunlock i s) (iput i)"

definition bmap :: "nat \<Rightarrow> u32 \<Rightarrow> 'a fsst_scheme \<Rightarrow> err + (u32 \<times> 'a fsst_scheme)" where
  "bmap i bn s =
    (if unat bn < NDIRECT then
       let addr = addrs (inode_at i s) ! unat bn in
       if addr = 0 then
         bindE (balloc (idev (inode_at i s)) s) (\<lambda>(addr, s).
         Inr (addr, upd_inode i (\<lambda>ip. ip\<lparr>addrs := (addrs ip)[unat bn := addr]\<rparr>) s))
       else Inr (addr, s)
     else
       let bn = bn - of_nat NDIRECT in
       if unat bn < NINDIRECT then
         bindE
           (let addr = addrs (inode_at i s) ! NDIRECT in
            if addr = 0 then
              bindE (balloc (idev (inode_at i s)) s) (\<lambda>(addr, s).
              Inr (addr, upd_inode i (\<lambda>ip. ip\<lparr>addrs := (addrs ip)[NDIRECT := addr]\<rparr>) s))
            else Inr (addr, s)) (\<lambda>(addr, s).
         bindE (bread (idev (inode_at i s)) addr s) (\<lambda>(bp, s).
         let addr = get32 (bdata (buf_at bp s)) (4 * unat bn) in
         bindE
           (if addr = 0 then
              bindE (balloc (idev (inode_at i s)) s) (\<lambda>(addr, s).
              bindE (log_write bp (set_data bp (\<lambda>d. put32 d (4 * unat bn) addr) s)) (\<lambda>s.
              Inr (addr, s)))
            else Inr (addr, s)) (\<lambda>(addr, s).
         bindE (brelse bp s) (\<lambda>s. Inr (addr, s)))))
       else Inl (Panic ''bmap: out of range''))"

definition stati :: "nat \<Rightarrow> 'a fsst_scheme \<Rightarrow> stat" where
  "stati i s = (let ip = inode_at i s in
     \<lparr>st_type = itype ip, st_dev = idev ip, st_ino = inum ip, st_nlink = nlink ip, st_size = isize ip\<rparr>)"

fun iinit_loop :: "nat list \<Rightarrow> 'a slst_scheme \<Rightarrow> 'a slst_scheme" where
  "iinit_loop [] s = s"
| "iinit_loop (i # is) s = iinit_loop is (initsleeplock (inode_lock i) s)"

text \<open>\<open>iinit\<close> prints the superblock; the console's lock is not part of this state.\<close>

definition sb_format :: "u8 list" where
  "sb_format = map of_char (''sb: size %d nblocks %d ninodes %d nlog %d logstart %d inodestart %d bmap start %d'' @ [CHR 0x0A])"

definition iinit :: "u32 \<Rightarrow> 'a fsst_scheme \<Rightarrow> err + 'a fsst_scheme" where
  "iinit dev s =
    bindE (readsb dev (iinit_loop [0..<NINODE] s)) (\<lambda>(p, s).
    bindE (cprintf_chars sb_format (map CWord
      [sb_size p, sb_nblocks p, sb_ninodes p, sb_nlog p, sb_logstart p, sb_inodestart p, sb_bmapstart p])) (\<lambda>cs.
    bindE (consputs cs (con s)) (\<lambda>k.
    Inr (s\<lparr>sb := p, con := k\<rparr>))))"

end
