(* ===== verification/Fs.thy ===== *)
theory Fs
  imports Inode
begin

text \<open>
  The console device of \<^verbatim>\<open>src/src/console.c\<close> and the rest of \<^verbatim>\<open>src/src/fs.c\<close>: reading and writing inodes, directories, path names.
  A buffer that a call fills is returned as the list of its bytes; a buffer that it reads
  is a list argument. C strings are the bytes before the terminating zero.
\<close>

section \<open>The console device\<close>

definition INPUT_BUF :: nat where [simp]: "INPUT_BUF = 128"

definition input_at :: "u32 \<Rightarrow> 'a fsst_scheme \<Rightarrow> u8" where
  "input_at i s = input_buf s ! (unat i mod INPUT_BUF)"

definition cons_out :: "int \<Rightarrow> 'a fsst_scheme \<Rightarrow> err + 'a fsst_scheme" where
  "cons_out c s = bindE (consputc c (con s)) (\<lambda>k. Inr (s\<lparr>con := k\<rparr>))"

function kill_line :: "'a fsst_scheme \<Rightarrow> err + 'a fsst_scheme" where
  "kill_line s =
    (if input_e s \<noteq> input_w s \<and> input_at (input_e s - 1) s \<noteq> 10 then
       bindE (consputc BACKSPACE (con s)) (\<lambda>k.
       kill_line (s\<lparr>input_e := input_e s - 1, con := k\<rparr>))
     else Inr s)"
  by pat_completeness auto
termination
proof (relation "measure (\<lambda>s. unat (input_e s - input_w s))")
  fix s :: "'a fsst_scheme" and k
  assume "input_e s \<noteq> input_w s \<and> input_at (input_e s - 1) s \<noteq> 10"
  then have ne: "input_e s - input_w s \<noteq> 0" by simp
  have "input_e s - 1 - input_w s = input_e s - input_w s - 1" by simp
  then have "unat (input_e s - 1 - input_w s) = unat (input_e s - input_w s) - 1"
    using unat_minus_one [OF ne] by (simp only:)
  moreover have "0 < unat (input_e s - input_w s)" using ne by (simp add: unat_gt_0)
  ultimately show "(s\<lparr>input_e := input_e s - 1, con := k\<rparr>, s) \<in> measure (\<lambda>s. unat (input_e s - input_w s))"
    by simp
qed simp

declare kill_line.simps [simp del]

text \<open>One character of \<open>consoleintr\<close>, with the flag \<open>doprocdump\<close>: control-P, control-U, backspace and delete, and ordinary ones.\<close>

definition consoleintr_char :: "int \<Rightarrow> bool \<times> 'a fsst_scheme \<Rightarrow> err + (bool \<times> 'a fsst_scheme)" where
  "consoleintr_char c ps =
    (case ps of (dump, s) \<Rightarrow>
     if c = 16 then Inr (True, s)
     else if c = 21 then bindE (kill_line s) (\<lambda>s. Inr (dump, s))
     else if c = 8 \<or> c = 0x7f then
       if input_e s \<noteq> input_w s then
         bindE (cons_out BACKSPACE (s\<lparr>input_e := input_e s - 1\<rparr>)) (\<lambda>s. Inr (dump, s))
       else Inr (dump, s)
     else if c \<noteq> 0 \<and> unat (input_e s - input_r s) < INPUT_BUF then
       let c = (if c = 13 then 10 else c);
           s = s\<lparr>input_buf := (input_buf s)[unat (input_e s) mod INPUT_BUF := of_int c], input_e := input_e s + 1\<rparr> in
       bindE (cons_out c s) (\<lambda>s.
       if c = 10 \<or> c = 4 \<or> input_e s = input_r s + of_nat INPUT_BUF
       then Inr (dump, wakeup ChanInput (s\<lparr>input_w := input_e s\<rparr>))
       else Inr (dump, s))
     else Inr (dump, s))"

text \<open>\<open>getc\<close> delivers the characters of the list and then a negative value.\<close>

fun consoleintr :: "int list \<Rightarrow> bool \<times> 'a fsst_scheme \<Rightarrow> err + (bool \<times> 'a fsst_scheme)" where
  "consoleintr [] ps = Inr ps"
| "consoleintr (c # cs) ps = bindE (consoleintr_char c ps) (consoleintr cs)"

text \<open>The copying loop: \<open>n\<close> more bytes may be read, \<open>got\<close> says that some have been. The result is
  whether the process was found killed, and the bytes copied.\<close>

fun consoleread_loop :: "nat \<Rightarrow> bool \<Rightarrow> 'a fsst_scheme \<Rightarrow> err + (bool \<times> u8 list \<times> 'a fsst_scheme)" where
  "consoleread_loop 0 got s = Inr (False, [], s)"
| "consoleread_loop (Suc n) got s =
    (if input_r s = input_w s then
       bindE (myproc s) (\<lambda>me. if killed (proc_at me s) then Inr (True, [], s) else Inl WouldBlock)
     else
       let c = input_at (input_r s) s; s1 = s\<lparr>input_r := input_r s + 1\<rparr> in
       if c = 4 then Inr (False, [], if got then s else s1)
       else if c = 10 then Inr (False, [c], s1)
       else bindE (consoleread_loop n True s1) (\<lambda>(kld, cs, s). Inr (kld, c # cs, s)))"

definition consoleread :: "nat \<Rightarrow> int \<Rightarrow> 'a fsst_scheme \<Rightarrow> err + (int \<times> u8 list \<times> 'a fsst_scheme)" where
  "consoleread i n s =
    bindE (iunlock i s) (\<lambda>s.
    bindE (consoleread_loop (nat n) False s) (\<lambda>(kld, cs, s).
    bindE (ilock i s) (\<lambda>s.
    Inr (if kld then -1 else int (length cs), cs, s))))"

fun cons_outs :: "u8 list \<Rightarrow> 'a fsst_scheme \<Rightarrow> err + 'a fsst_scheme" where
  "cons_outs [] s = Inr s"
| "cons_outs (c # cs) s = bindE (cons_out (uint c) s) (cons_outs cs)"

definition consolewrite :: "nat \<Rightarrow> u8 list \<Rightarrow> int \<Rightarrow> 'a fsst_scheme \<Rightarrow> err + (int \<times> 'a fsst_scheme)" where
  "consolewrite i buf n s =
    bindE (iunlock i s) (\<lambda>s.
    bindE (cons_outs (take (nat n) buf) s) (\<lambda>s.
    bindE (ilock i s) (\<lambda>s.
    Inr (n, s))))"

definition consoleinit :: "'a fsst_scheme \<Rightarrow> 'a fsst_scheme" where
  "consoleinit s = s\<lparr>devsw_write := (devsw_write s)[1 := Some ConsoleWrite], devsw_read := (devsw_read s)[1 := Some ConsoleRead]\<rparr>"

section \<open>Inode contents\<close>

definition dev_fn :: "devfn option list \<Rightarrow> u16 \<Rightarrow> devfn option" where
  "dev_fn sw m = (if sint m < 0 \<or> sint m \<ge> NDEV then None else sw ! nat (sint m))"

text \<open>The copying loop of \<open>readi\<close> with \<open>r\<close> bytes left.\<close>

function readi_loop :: "nat \<Rightarrow> u32 \<Rightarrow> nat \<Rightarrow> 'a fsst_scheme \<Rightarrow> err + (u8 list \<times> 'a fsst_scheme)" where
  "readi_loop i off r s =
    (if r = 0 then Inr ([], s)
     else
       bindE (bmap i (off div 512) s) (\<lambda>(addr, s).
       bindE (bread (idev (inode_at i s)) addr s) (\<lambda>(bp, s).
       let m = min r (BSIZE - unat off mod BSIZE);
           d = slice (unat off mod BSIZE) m (bdata (buf_at bp s)) in
       bindE (brelse bp s) (\<lambda>s.
       bindE (readi_loop i (off + of_nat m) (r - m) s) (\<lambda>(ds, s).
       Inr (d @ ds, s))))))"
  by pat_completeness auto
termination by (relation "measure (\<lambda>(i, off, r, s). r)") auto

declare readi_loop.simps [simp del]

definition readi :: "nat \<Rightarrow> u32 \<Rightarrow> u32 \<Rightarrow> 'a fsst_scheme \<Rightarrow> err + (int \<times> u8 list \<times> 'a fsst_scheme)" where
  "readi i off n s =
    (let ip = inode_at i s in
     if itype ip = T_DEV then
       (case dev_fn (devsw_read s) (imajor ip) of
          Some ConsoleRead \<Rightarrow> consoleread i (sint n) s
        | _ \<Rightarrow> Inr (-1, [], s))
     else if off > isize ip \<or> off + n < off then Inr (-1, [], s)
     else
       let n = (if off + n > isize ip then isize ip - off else n) in
       bindE (readi_loop i off (unat n) s) (\<lambda>(d, s). Inr (sint n, d, s)))"

text \<open>The copying loop of \<open>writei\<close>; the result is the offset it ends at.\<close>

function writei_loop :: "nat \<Rightarrow> u8 list \<Rightarrow> u32 \<Rightarrow> 'a fsst_scheme \<Rightarrow> err + (u32 \<times> 'a fsst_scheme)" where
  "writei_loop i src off s =
    (if src = [] then Inr (off, s)
     else
       bindE (bmap i (off div 512) s) (\<lambda>(addr, s).
       bindE (bread (idev (inode_at i s)) addr s) (\<lambda>(bp, s).
       let m = min (length src) (BSIZE - unat off mod BSIZE);
           s = set_data bp (splice (unat off mod BSIZE) (take m src)) s in
       bindE (log_write bp s) (\<lambda>s.
       bindE (brelse bp s) (\<lambda>s.
       writei_loop i (drop m src) (off + of_nat m) s)))))"
  by pat_completeness auto
termination by (relation "measure (\<lambda>(i, src, off, s). length src)") auto

declare writei_loop.simps [simp del]

text \<open>The bytes are the first \<open>n\<close> of the source buffer.\<close>

definition writei :: "nat \<Rightarrow> u8 list \<Rightarrow> u32 \<Rightarrow> u32 \<Rightarrow> 'a fsst_scheme \<Rightarrow> err + (int \<times> 'a fsst_scheme)" where
  "writei i src off n s =
    (let ip = inode_at i s in
     if itype ip = T_DEV then
       (case dev_fn (devsw_write s) (imajor ip) of
          Some ConsoleWrite \<Rightarrow> consolewrite i src (sint n) s
        | _ \<Rightarrow> Inr (-1, s))
     else if off > isize ip \<or> off + n < off then Inr (-1, s)
     else if unat (off + n) > MAXFILE * BSIZE then Inr (-1, s)
     else
       bindE (writei_loop i (take (unat n) src) off s) (\<lambda>(off, s).
       bindE
         (if n > 0 \<and> off > isize (inode_at i s)
          then iupdate i (upd_inode i (\<lambda>ip. ip\<lparr>isize := off\<rparr>) s) else Inr s) (\<lambda>s.
       Inr (sint n, s))))"

section \<open>Directories\<close>

definition DIRSIZ :: nat where [simp]: "DIRSIZ = 14"
definition DIRENT :: nat where [simp]: "DIRENT = 16"

text \<open>\<open>strncmp\<close> and \<open>strncpy\<close> on strings that end at a zero byte or at the end of the list.\<close>

definition cat :: "u8 list \<Rightarrow> nat \<Rightarrow> u8" where
  "cat xs i = (if i < length xs then xs ! i else 0)"

fun strncmp_str :: "nat \<Rightarrow> u8 list \<Rightarrow> u8 list \<Rightarrow> int" where
  "strncmp_str 0 p q = 0"
| "strncmp_str (Suc n) p q =
    (if cat p 0 \<noteq> 0 \<and> cat p 0 = cat q 0 then strncmp_str n (drop 1 p) (drop 1 q)
     else uint (cat p 0) - uint (cat q 0))"

definition strncpy_str :: "nat \<Rightarrow> u8 list \<Rightarrow> u8 list" where
  "strncpy_str n t = (let c = take n (takeWhile (\<lambda>x. x \<noteq> 0) t) in c @ replicate (n - length c) 0)"

definition namecmp :: "u8 list \<Rightarrow> u8 list \<Rightarrow> int" where
  "namecmp p q = strncmp_str DIRSIZ p q"

definition de_inum :: "u8 list \<Rightarrow> u16" where "de_inum de = get16 de 0"
definition de_name :: "u8 list \<Rightarrow> u8 list" where "de_name de = slice 2 DIRSIZ de"

definition mk_dirent :: "u8 list \<Rightarrow> u32 \<Rightarrow> u8 list" where
  "mk_dirent name n = put16 (0 # 0 # strncpy_str DIRSIZ name) 0 (ucast n)"

text \<open>The values of \<open>off\<close> in \<open>for(off = start; off < dp->size; off += sizeof(de))\<close>.\<close>

definition dir_offs :: "nat \<Rightarrow> u32 \<Rightarrow> u32 list" where
  "dir_offs start n = map (\<lambda>k. of_nat (start + 16 * k)) [0..<(unat n - start + 15) div 16]"

definition read_dirent :: "string \<Rightarrow> nat \<Rightarrow> u32 \<Rightarrow> 'a fsst_scheme \<Rightarrow> err + (u8 list \<times> 'a fsst_scheme)" where
  "read_dirent msg dp off s = bindE (readi dp off 16 s) (\<lambda>(r, de, s).
     if r \<noteq> 16 then Inl (Panic msg) else Inr (de, s))"

fun dirlookup_loop :: "nat \<Rightarrow> u8 list \<Rightarrow> u32 list \<Rightarrow> 'a fsst_scheme \<Rightarrow> err + ((nat \<times> u32) option \<times> 'a fsst_scheme)" where
  "dirlookup_loop dp name [] s = Inr (None, s)"
| "dirlookup_loop dp name (off # offs) s =
    bindE (read_dirent ''dirlookup read'' dp off s) (\<lambda>(de, s).
    if de_inum de = 0 then dirlookup_loop dp name offs s
    else if namecmp name (de_name de) = 0 then
      bindE (iget (idev (inode_at dp s)) (ucast (de_inum de)) s) (\<lambda>(ip, s). Inr (Some (ip, off), s))
    else dirlookup_loop dp name offs s)"

definition dirlookup :: "nat \<Rightarrow> u8 list \<Rightarrow> 'a fsst_scheme \<Rightarrow> err + ((nat \<times> u32) option \<times> 'a fsst_scheme)" where
  "dirlookup dp name s =
    (if itype (inode_at dp s) \<noteq> T_DIR then Inl (Panic ''dirlookup not DIR'')
     else dirlookup_loop dp name (dir_offs 0 (isize (inode_at dp s))) s)"

text \<open>The offset of the first empty entry, or the end.\<close>

fun dirlink_loop :: "nat \<Rightarrow> u32 list \<Rightarrow> u32 \<Rightarrow> 'a fsst_scheme \<Rightarrow> err + (u32 \<times> 'a fsst_scheme)" where
  "dirlink_loop dp [] end_off s = Inr (end_off, s)"
| "dirlink_loop dp (off # offs) end_off s =
    bindE (read_dirent ''dirlink read'' dp off s) (\<lambda>(de, s).
    if de_inum de = 0 then Inr (off, s) else dirlink_loop dp offs end_off s)"

definition dirlink :: "nat \<Rightarrow> u8 list \<Rightarrow> u32 \<Rightarrow> 'a fsst_scheme \<Rightarrow> err + (int \<times> 'a fsst_scheme)" where
  "dirlink dp name n s =
    bindE (dirlookup dp name s) (\<lambda>(r, s).
    case r of
      Some (ip, _) \<Rightarrow> bindE (iput ip s) (\<lambda>s. Inr (-1, s))
    | None \<Rightarrow>
        let offs = dir_offs 0 (isize (inode_at dp s)) in
        bindE (dirlink_loop dp offs (of_nat (16 * length offs)) s) (\<lambda>(off, s).
        bindE (writei dp (mk_dirent name n) off 16 s) (\<lambda>(r, s).
        if r \<noteq> 16 then Inl (Panic ''dirlink'') else Inr (0, s))))"

section \<open>Path names\<close>

abbreviation slash :: u8 where "slash \<equiv> 47"

definition skipelem :: "u8 list \<Rightarrow> (u8 list \<times> u8 list) option" where
  "skipelem path =
    (let path = dropWhile (\<lambda>c. c = slash) path in
     if path = [] then None
     else
       let elem = takeWhile (\<lambda>c. c \<noteq> slash) path;
           path = dropWhile (\<lambda>c. c \<noteq> slash) path
       in Some (take DIRSIZ elem, dropWhile (\<lambda>c. c = slash) path))"

lemma skipelem_shorter:
  assumes "skipelem path = Some (name, rest)"
  shows "length rest < length path"
proof (cases "dropWhile (\<lambda>c. c = slash) path")
  case Nil
  then show ?thesis using assms by (simp add: skipelem_def Let_def del: dropWhile_eq_Nil_conv)
next
  case (Cons c cs)
  then have c: "c \<noteq> slash" using hd_dropWhile [of "\<lambda>c. c = slash" path] by simp
  then have "rest = dropWhile (\<lambda>c. c = slash) (dropWhile (\<lambda>c. c \<noteq> slash) cs)"
    using assms Cons by (simp add: skipelem_def Let_def)
  then have "length rest \<le> length cs"
    using le_trans [OF length_dropWhile_le length_dropWhile_le] by simp
  also have "\<dots> < length (dropWhile (\<lambda>c. c = slash) path)" using Cons by simp
  also have "\<dots> \<le> length path" by (rule length_dropWhile_le)
  finally show ?thesis .
qed

function namex_loop :: "u8 list \<Rightarrow> bool \<Rightarrow> nat \<Rightarrow> u8 list \<Rightarrow> 'a fsst_scheme \<Rightarrow>
    err + ((nat \<times> u8 list) option \<times> 'a fsst_scheme)" where
  "namex_loop path par ip name s =
    (case skipelem path of
       None \<Rightarrow>
         if par then bindE (iput ip s) (\<lambda>s. Inr (None, s)) else Inr (Some (ip, name), s)
     | Some (name, path) \<Rightarrow>
         bindE (ilock ip s) (\<lambda>s.
         if itype (inode_at ip s) \<noteq> T_DIR then bindE (iunlockput ip s) (\<lambda>s. Inr (None, s))
         else if par \<and> path = [] then bindE (iunlock ip s) (\<lambda>s. Inr (Some (ip, name), s))
         else
           bindE (dirlookup ip name s) (\<lambda>(r, s).
           case r of
             None \<Rightarrow> bindE (iunlockput ip s) (\<lambda>s. Inr (None, s))
           | Some (nxt, _) \<Rightarrow>
               bindE (iunlockput ip s) (\<lambda>s. namex_loop path par nxt name s))))"
  by pat_completeness auto
termination by (relation "measure (\<lambda>(path, par, ip, name, s). length path)") (auto dest: skipelem_shorter)

declare namex_loop.simps [simp del]

text \<open>With \<open>par\<close> the result carries the last path element, as \<open>name\<close> does in the source.\<close>

definition namex :: "u8 list \<Rightarrow> bool \<Rightarrow> 'a fsst_scheme \<Rightarrow> err + ((nat \<times> u8 list) option \<times> 'a fsst_scheme)" where
  "namex path par s =
    bindE
      (if cat path 0 = slash then iget ROOTDEV ROOTINO s
       else bindE (myproc s) (\<lambda>me.
            case cwd (proc_at me s) of None \<Rightarrow> Inl NullDeref | Some i \<Rightarrow> Inr (i, idup i s))) (\<lambda>(ip, s).
    namex_loop path par ip [] s)"

definition namei :: "u8 list \<Rightarrow> 'a fsst_scheme \<Rightarrow> err + (nat option \<times> 'a fsst_scheme)" where
  "namei path s = bindE (namex path False s) (\<lambda>(r, s). Inr (map_option fst r, s))"

definition nameiparent :: "u8 list \<Rightarrow> 'a fsst_scheme \<Rightarrow> err + ((nat \<times> u8 list) option \<times> 'a fsst_scheme)" where
  "nameiparent path s = namex path True s"

end
