(* ===== verification/File.thy ===== *)
theory File
  imports Fs
begin

text \<open>
  The table of open files, \<^verbatim>\<open>src/src/file.c\<close>, and \<open>pipealloc\<close> of \<^verbatim>\<open>src/src/pipe.c\<close>. A \<open>struct file\<close> is named by its index. Reading and
  writing a pipe may put the process to sleep with work left; the outcome says so, as in theory \<open>Pipe\<close>.
\<close>

datatype fdtype = FD_NONE | FD_PIPE | FD_INODE

record file_s =
  ftype :: fdtype
  fref :: int
  freadable :: bool
  fwritable :: bool
  fpipe :: u32
  fip :: nat
  foff :: u32

record filest = fsst +
  ftable :: "file_s list"

definition NFILE :: nat where [simp]: "NFILE = 100"

definition file_at :: "nat \<Rightarrow> 'a filest_scheme \<Rightarrow> file_s" where
  "file_at f s = ftable s ! f"

definition upd_file :: "nat \<Rightarrow> (file_s \<Rightarrow> file_s) \<Rightarrow> 'a filest_scheme \<Rightarrow> 'a filest_scheme" where
  "upd_file f g s = s\<lparr>ftable := (ftable s)[f := g (ftable s ! f)]\<rparr>"

definition filealloc :: "'a filest_scheme \<Rightarrow> nat option \<times> 'a filest_scheme" where
  "filealloc s =
    (case find (\<lambda>f. fref (file_at f s) = 0) [0..<NFILE] of
       None \<Rightarrow> (None, s)
     | Some f \<Rightarrow> (Some f, upd_file f (\<lambda>x. x\<lparr>fref := 1\<rparr>) s))"

definition filedup :: "nat \<Rightarrow> 'a filest_scheme \<Rightarrow> err + 'a filest_scheme" where
  "filedup f s =
    (if fref (file_at f s) < 1 then Inl (Panic ''filedup'')
     else Inr (upd_file f (\<lambda>x. x\<lparr>fref := fref x + 1\<rparr>) s))"

definition fileclose :: "nat \<Rightarrow> 'a filest_scheme \<Rightarrow> err + 'a filest_scheme" where
  "fileclose f s =
    (if fref (file_at f s) < 1 then Inl (Panic ''fileclose'')
     else
       let s = upd_file f (\<lambda>x. x\<lparr>fref := fref x - 1\<rparr>) s in
       if fref (file_at f s) > 0 then Inr s
       else
         let ff = file_at f s; s = upd_file f (\<lambda>x. x\<lparr>fref := 0, ftype := FD_NONE\<rparr>) s in
         (case ftype ff of
            FD_PIPE \<Rightarrow> pipeclose (fpipe ff) (fwritable ff) s
          | FD_INODE \<Rightarrow>
              bindE (begin_op s) (\<lambda>s.
              bindE (iput (fip ff) s) (\<lambda>s.
              end_op s))
          | FD_NONE \<Rightarrow> Inr s))"

definition filestat :: "nat \<Rightarrow> 'a filest_scheme \<Rightarrow> err + (stat option \<times> 'a filest_scheme)" where
  "filestat f s =
    (if ftype (file_at f s) = FD_INODE then
       bindE (ilock (fip (file_at f s)) s) (\<lambda>s.
       let st = stati (fip (file_at f s)) s in
       bindE (iunlock (fip (file_at f s)) s) (\<lambda>s.
       Inr (Some st, s)))
     else Inr (None, s))"

text \<open>The value returned and the bytes stored at \<open>addr\<close>; \<open>None\<close> while a pipe reader sleeps.\<close>

definition fileread :: "nat \<Rightarrow> int \<Rightarrow> 'a filest_scheme \<Rightarrow> err + ((int \<times> u8 list) option \<times> 'a filest_scheme)" where
  "fileread f n s =
    (let ff = file_at f s in
     if \<not> freadable ff then Inr (Some (-1, []), s)
     else
       (case ftype ff of
          FD_PIPE \<Rightarrow>
            bindE (piperead (fpipe ff) n s) (\<lambda>(r, s).
            Inr (case r of Got bs \<Rightarrow> Some (int (length bs), bs) | ReadFailed \<Rightarrow> Some (-1, []) | ReadSleeps \<Rightarrow> None, s))
        | FD_INODE \<Rightarrow>
            bindE (ilock (fip ff) s) (\<lambda>s.
            bindE (readi (fip ff) (foff (file_at f s)) (of_int n) s) (\<lambda>(r, d, s).
            let s = (if r > 0 then upd_file f (\<lambda>x. x\<lparr>foff := foff x + of_int r\<rparr>) s else s) in
            bindE (iunlock (fip ff) s) (\<lambda>s.
            Inr (Some (r, d), s))))
        | FD_NONE \<Rightarrow> Inl (Panic ''fileread'')))"

definition max_write :: int where
  "max_write = ((MAXOPBLOCKS - 1 - 1 - 2) div 2) * 512"

text \<open>The loop over the pieces of an inode write, \<open>i\<close> bytes done of \<open>n\<close>; each turn but the last
  advances by \<open>max_write\<close>, so \<open>n\<close> bounds the number of turns.\<close>

fun filewrite_loop :: "nat \<Rightarrow> nat \<Rightarrow> u8 list \<Rightarrow> int \<Rightarrow> int \<Rightarrow> 'a filest_scheme \<Rightarrow> err + (int \<times> 'a filest_scheme)" where
  "filewrite_loop 0 f addr i n s = (if i < n then Inl NoFuel else Inr (if i = n then n else -1, s))"
| "filewrite_loop (Suc k) f addr i n s =
    (if i < n then
       let n1 = (if n - i > max_write then max_write else n - i); ip = fip (file_at f s) in
       bindE (begin_op s) (\<lambda>s.
       bindE (ilock ip s) (\<lambda>s.
       bindE (writei ip (drop (nat i) addr) (foff (file_at f s)) (of_int n1) s) (\<lambda>(r, s).
       let s = (if r > 0 then upd_file f (\<lambda>x. x\<lparr>foff := foff x + of_int r\<rparr>) s else s) in
       bindE (iunlock ip s) (\<lambda>s.
       bindE (end_op s) (\<lambda>s.
       if r < 0 then Inr (if i = n then n else -1, s)
       else if r \<noteq> n1 then Inl (Panic ''short filewrite'')
       else filewrite_loop k f addr (i + r) n s)))))
     else Inr (if i = n then n else -1, s))"

definition filewrite :: "nat \<Rightarrow> u8 list \<Rightarrow> int \<Rightarrow> 'a filest_scheme \<Rightarrow> err + (wr_out \<times> 'a filest_scheme)" where
  "filewrite f addr n s =
    (let ff = file_at f s in
     if \<not> fwritable ff then Inr (Wrote (-1), s)
     else
       (case ftype ff of
          FD_PIPE \<Rightarrow> pipewrite (fpipe ff) addr n s
        | FD_INODE \<Rightarrow> bindE (filewrite_loop (nat n) f addr 0 n s) (\<lambda>(r, s). Inr (Wrote r, s))
        | FD_NONE \<Rightarrow> Inl (Panic ''filewrite'')))"

text \<open>\<open>pipealloc\<close>: the two files, or \<open>None\<close> for \<open>-1\<close>. The ring's bytes are whatever the page held.\<close>

definition pipealloc_bad :: "nat option \<Rightarrow> nat option \<Rightarrow> 'a filest_scheme \<Rightarrow> err + ((nat \<times> nat) option \<times> 'a filest_scheme)" where
  "pipealloc_bad f0 f1 s =
    bindE (case f0 of None \<Rightarrow> Inr s | Some f \<Rightarrow> fileclose f s) (\<lambda>s.
    bindE (case f1 of None \<Rightarrow> Inr s | Some f \<Rightarrow> fileclose f s) (\<lambda>s.
    Inr (None, s)))"

definition pipealloc :: "'a filest_scheme \<Rightarrow> err + ((nat \<times> nat) option \<times> 'a filest_scheme)" where
  "pipealloc s =
    (case filealloc s of
       (None, s) \<Rightarrow> pipealloc_bad None None s
     | (Some f0, s) \<Rightarrow>
         (case filealloc s of
            (None, s) \<Rightarrow> pipealloc_bad (Some f0) None s
          | (Some f1, s) \<Rightarrow>
              (case kalloc s of (p, s) \<Rightarrow>
               if p = 0 then pipealloc_bad (Some f0) (Some f1) s
               else
                 let s = upd_pipe p (\<lambda>q. q\<lparr>readopen := True, writeopen := True, nwrite := 0, nread := 0\<rparr>) s;
                     s = upd_file f0 (\<lambda>x. x\<lparr>ftype := FD_PIPE, freadable := True, fwritable := False, fpipe := p\<rparr>) s;
                     s = upd_file f1 (\<lambda>x. x\<lparr>ftype := FD_PIPE, freadable := False, fwritable := True, fpipe := p\<rparr>) s
                 in Inr (Some (f0, f1), s))))"

section \<open>Reference counts\<close>

lemma find_upt_None: "find P [0..<n] = None \<longleftrightarrow> (\<forall>i<n. \<not> P i)"
  by (auto simp: find_None_iff)

lemma find_upt_Some: "find P [0..<n] = Some i \<longleftrightarrow> i < n \<and> P i \<and> (\<forall>j<i. \<not> P j)"
  by (auto simp: find_Some_iff)

end
