(* ===== verification/Syscall.thy ===== *)
theory Syscall
  imports File Crypt
begin

text \<open>
  Arguments of system calls, \<^verbatim>\<open>src/src/syscall.c\<close>. User memory is read with \<open>kloads\<close> of theory \<open>Crypt\<close>. The trap frame is at address \<open>tf\<close> in kernel memory.
\<close>

section \<open>Fetching arguments\<close>

definition tf_eax :: u32 where [simp]: "tf_eax = 28"
definition tf_es :: u32 where [simp]: "tf_es = 40"
definition tf_ds :: u32 where [simp]: "tf_ds = 44"
definition tf_eip :: u32 where [simp]: "tf_eip = 56"
definition tf_cs :: u32 where [simp]: "tf_cs = 60"
definition tf_eflags :: u32 where [simp]: "tf_eflags = 64"
definition tf_esp :: u32 where [simp]: "tf_esp = 68"
definition tf_ss :: u32 where [simp]: "tf_ss = 72"
definition tf_size :: u32 where [simp]: "tf_size = 76"

text \<open>The value at \<open>addr\<close>, or \<open>None\<close> for \<open>-1\<close>.\<close>

definition fetchint :: "u32 \<Rightarrow> 'a kst_scheme \<Rightarrow> err + (u32 option \<times> 'a kst_scheme)" where
  "fetchint addr s = bindE (myproc s) (\<lambda>p.
     if addr \<ge> sz (proc_at p s) \<or> addr + 4 > sz (proc_at p s) then Inr (None, s)
     else bindE (kloads 4 addr s) (\<lambda>(bs, s). Inr (Some (get32 bs 0), s)))"

text \<open>The string at \<open>addr\<close> up to its terminating zero, which has to come before \<open>ep\<close>.\<close>

fun fetchstr_loop :: "nat \<Rightarrow> u32 \<Rightarrow> 'a kst_scheme \<Rightarrow> err + (u8 list option \<times> 'a kst_scheme)" where
  "fetchstr_loop 0 va s = Inr (None, s)"
| "fetchstr_loop (Suc n) va s =
    bindE (kload8 va s) (\<lambda>(b, s).
    if b = 0 then Inr (Some [], s)
    else bindE (fetchstr_loop n (va + 1) s) (\<lambda>(r, s). Inr (map_option ((#) b) r, s)))"

definition fetchstr :: "u32 \<Rightarrow> 'a kst_scheme \<Rightarrow> err + (u8 list option \<times> 'a kst_scheme)" where
  "fetchstr addr s = bindE (myproc s) (\<lambda>p.
     if addr \<ge> sz (proc_at p s) then Inr (None, s)
     else fetchstr_loop (unat (sz (proc_at p s) - addr)) addr s)"

definition argint :: "nat \<Rightarrow> 'a kst_scheme \<Rightarrow> err + (u32 option \<times> 'a kst_scheme)" where
  "argint n s = bindE (myproc s) (\<lambda>p.
     fetchint (load32 (mem s) (tf (proc_at p s) + tf_esp) + 4 + 4 * of_nat n) s)"

definition argptr :: "nat \<Rightarrow> int \<Rightarrow> 'a kst_scheme \<Rightarrow> err + (u32 option \<times> 'a kst_scheme)" where
  "argptr n len s = bindE (argint n s) (\<lambda>(r, s).
     case r of
       None \<Rightarrow> Inr (None, s)
     | Some i \<Rightarrow>
         bindE (myproc s) (\<lambda>p.
         if len < 0 \<or> i \<ge> sz (proc_at p s) \<or> i + of_int len > sz (proc_at p s)
         then Inr (None, s) else Inr (Some i, s)))"

definition argstr :: "nat \<Rightarrow> 'a kst_scheme \<Rightarrow> err + (u8 list option \<times> 'a kst_scheme)" where
  "argstr n s = bindE (argint n s) (\<lambda>(r, s).
     case r of None \<Rightarrow> Inr (None, s) | Some a \<Rightarrow> fetchstr a s)"

end
