(* ===== verification/Crypt_User.thy ===== *)
theory Crypt_User
  imports Crypt_Main
begin

text \<open>
  Encryption is transparent: the kernel's accesses to user memory, which fault on an
  encrypted page and are repeated once \<open>mdecrypt\<close> has opened it, read and write the
  plaintext, whichever pages are encrypted before or become so on the way.
\<close>

section \<open>One access to a decrypted page\<close>

lemma or_20_facts:
  "PTE_ADDR (e OR 0x20) = PTE_ADDR e" "has (e OR 0x20) PTE_E = has e PTE_E" "has (e OR 0x20) PTE_P = has e PTE_P"
  "has (e OR 0x20) (PTE_P OR PTE_E) = has e (PTE_P OR PTE_E)" "has (e OR 0x20) PTE_U = has e PTE_U"
  "has (e OR 0x20) PTE_W = has e PTE_W"
  by (simp_all add: PTE_ADDR_or_low has_PE entry_bits)

lemma or_0_facts:
  fixes e :: u32
  shows "PTE_ADDR (e OR 0) = PTE_ADDR e" "has (e OR 0) PTE_E = has e PTE_E" "has (e OR 0) PTE_P = has e PTE_P"
    "has (e OR 0) (PTE_P OR PTE_E) = has e (PTE_P OR PTE_E)" "has (e OR 0) PTE_U = has e PTE_U" "has (e OR 0) PTE_W = has e PTE_W"
  unfolding or.right_neutral by (rule refl)+

text \<open>An update of one entry that keeps its address and its flags.\<close>

lemma flags_effect:
  assumes as: "aspace m pd" and t: "tab_upd g pd va m m'"
    and g: "\<And>e. PTE_ADDR (g e) = PTE_ADDR e" "\<And>e. has (g e) PTE_E = has e PTE_E" "\<And>e. has (g e) PTE_P = has e PTE_P"
      "\<And>e. has (g e) (PTE_P OR PTE_E) = has e (PTE_P OR PTE_E)" "\<And>e. has (g e) PTE_U = has e PTE_U"
      "\<And>e. has (g e) PTE_W = has e PTE_W"
  shows "aspace m' pd" "uframe m' pd vb = uframe m pd vb" "mapped m' pd vb = mapped m pd vb"
    "has (pte_at m' pd vb) PTE_U = has (pte_at m pd vb) PTE_U" "has (pte_at m' pd vb) PTE_E = has (pte_at m pd vb) PTE_E"
    "decrypted m' pd vb = decrypted m pd vb" "user_ready m pd \<Longrightarrow> user_ready m' pd" "table_frames m' pd = table_frames m pd"
proof -
  note u = tab_upd_aspace [OF as t g(1,4)]
  show "aspace m' pd" "uframe m' pd vb = uframe m pd vb" "mapped m' pd vb = mapped m pd vb" by (rule u)+
  show "table_frames m' pd = table_frames m pd" using t unfolding tab_upd_def by blast
  have pw: "has (pde_at m' pd vc) PTE_W = has (pde_at m pd vc) PTE_W"
    and pte: "pte_at m' pd vc = (if PGROUNDDOWN vc = PGROUNDDOWN va then g (pte_at m pd vc) else pte_at m pd vc)" for vc
    using t unfolding tab_upd_def by blast+
  have fl: "has (pte_at m' pd vc) PTE_U = has (pte_at m pd vc) PTE_U" "has (pte_at m' pd vc) PTE_E = has (pte_at m pd vc) PTE_E"
    "has (pte_at m' pd vc) PTE_P = has (pte_at m pd vc) PTE_P" "has (pte_at m' pd vc) PTE_W = has (pte_at m pd vc) PTE_W" for vc
    unfolding pte by (simp_all only: g if_distrib [of "\<lambda>e. has e _"] if_cancel)
  show "has (pte_at m' pd vb) PTE_U = has (pte_at m pd vb) PTE_U" "has (pte_at m' pd vb) PTE_E = has (pte_at m pd vb) PTE_E"
    by (rule fl)+
  show "decrypted m' pd vb = decrypted m pd vb" unfolding decrypted_def fl u(3) by (rule refl)
  show "user_ready m pd \<Longrightarrow> user_ready m' pd" unfolding user_ready_def fl pw u(3) .
qed

lemma clock_inv_mem:
  assumes inv: "clock_inv p s" and "aspace m' pd" and "user_ready m' pd" and "\<And>vb. decrypted m' pd vb = decrypted (mem s) pd vb"
    and pd: "pd = pgdir (proc_at p s)"
  shows "clock_inv p (s\<lparr>mem := m'\<rparr>)"
proof -
  have "proc_at p (s\<lparr>mem := m'\<rparr>) = proc_at p s" by (simp add: proc_at_def)
  then show ?thesis using assms by (simp add: clock_inv_def running_def)
qed

text \<open>What a store of one byte changes: the plaintext at its address.\<close>

definition user_stored :: "u32 \<Rightarrow> u32 \<Rightarrow> u8 \<Rightarrow> memory \<Rightarrow> memory \<Rightarrow> bool" where
  "user_stored pd va v m m' \<longleftrightarrow> (\<forall>vb<KERNBASE. mapped m pd vb \<longrightarrow>
     mapped m' pd vb \<and> has (pte_at m' pd vb) PTE_U = has (pte_at m pd vb) PTE_U \<and>
     plain m' pd vb = (if vb = va then v else plain m pd vb))"

lemma user_kept_trans: "user_kept pd m m1 \<Longrightarrow> user_kept pd m1 m2 \<Longrightarrow> user_kept pd m m2"
  unfolding user_kept_def by simp

lemma user_kept_refl: "user_kept pd m m"
  unfolding user_kept_def by simp

lemma user_kept_stored: "user_kept pd m m1 \<Longrightarrow> user_stored pd va v m1 m2 \<Longrightarrow> user_stored pd va v m m2"
  unfolding user_kept_def user_stored_def by simp

lemma clock_inv_writable:
  assumes inv: "clock_inv p s" and pd: "pd = pgdir (proc_at p s)" and d: "decrypted (mem s) pd va"
  shows "writable_page (mem s) pd va" "cr3 s = V2P pd" "aspace (mem s) pd" "user_ready (mem s) pd"
    "va < KERNBASE" "mapped (mem s) pd va" "\<not> has (pte_at (mem s) pd va) PTE_E"
proof -
  have r: "running p s" and ur: "user_ready (mem s) pd" using inv pd by (simp_all add: clock_inv_def)
  show as: "aspace (mem s) pd" and "cr3 s = V2P pd" using r pd by (simp_all add: running_def)
  show va: "va < KERNBASE" "mapped (mem s) pd va" "\<not> has (pte_at (mem s) pd va) PTE_E"
    using d unfolding decrypted_def by blast+
  show "user_ready (mem s) pd" by (rule ur)
  then show "writable_page (mem s) pd va"
    using va aspace_pd [OF as] mapped_table [OF va(2)] aspace_frame [OF as va(1,2)]
    unfolding user_ready_def writable_page_def by blast
qed

lemma user_read_plain:
  assumes inv: "clock_inv p s" and pd: "pd = pgdir (proc_at p s)" and d: "decrypted (mem s) pd va"
  shows "\<exists>m'. user_read (cr3 s) va (mem s) = Inr (plain (mem s) pd va, m') \<and> clock_inv p (s\<lparr>mem := m'\<rparr>)
    \<and> user_kept pd (mem s) m'"
proof -
  note w = clock_inv_writable [OF inv pd d]
  let ?x = "\<lambda>vb. uframe (mem s) pd vb + OFFSET vb"
  obtain m' where a: "mmu_access False (V2P pd) va (mem s) = Inr (?x va, m')"
    and t: "touched 0x20 pd va (mem s) m'" and ch: "changes (table_frames (mem s) pd) (mem s) m'"
    using mmu_access_ok [OF w(1), of False] by auto
  note e = flags_effect [OF w(3) t or_20_facts]
  have b: "m' (?x vb) = mem s (?x vb)" if "vb < KERNBASE" "mapped (mem s) pd vb" for vb
    by (rule changesD [OF ch]) (use aspace_frame [OF w(3) that] in simp)
  have "user_read (cr3 s) va (mem s) = Inr (plain (mem s) pd va, m')"
    using a b [OF w(5,6)] w(7) by (simp add: user_read_def w(2) plain_def)
  moreover have "clock_inv p (s\<lparr>mem := m'\<rparr>)"
    by (rule clock_inv_mem [OF inv e(1) e(7) [OF w(4)] e(6) pd])
  moreover have "user_kept pd (mem s) m'"
    unfolding user_kept_def plain_def e(2,3,4,5) using b by simp
  ultimately show ?thesis by blast
qed

lemma same_byte:
  assumes as: "aspace m pd" and "va < KERNBASE" "mapped m pd va" "vb < KERNBASE" "mapped m pd vb"
    and eq: "uframe m pd vb + OFFSET vb = uframe m pd va + OFFSET va"
  shows "vb = va"
proof -
  let ?x = "uframe m pd vb + OFFSET vb"
  have "PGROUNDDOWN ?x = uframe m pd va" "OFFSET ?x = OFFSET va" using byte_page [of "uframe m pd va" ?x va] eq by simp_all
  moreover have "PGROUNDDOWN ?x = uframe m pd vb" "OFFSET ?x = OFFSET vb" using byte_page [of "uframe m pd vb" ?x vb] by simp_all
  ultimately have "uframe m pd vb = uframe m pd va" "OFFSET vb = OFFSET va" by (simp_all only:)
  then show ?thesis using aspace_inj [OF as assms(4,2,5,3)] PGROUNDDOWN_OFFSET [of va] PGROUNDDOWN_OFFSET [of vb] by simp
qed

lemma user_write_plain:
  assumes inv: "clock_inv p s" and pd: "pd = pgdir (proc_at p s)" and d: "decrypted (mem s) pd va"
  shows "\<exists>m'. user_write (cr3 s) va v (mem s) = Inr m' \<and> clock_inv p (s\<lparr>mem := m'\<rparr>) \<and> user_stored pd va v (mem s) m'"
proof -
  note w = clock_inv_writable [OF inv pd d]
  let ?x = "\<lambda>vb. uframe (mem s) pd vb + OFFSET vb"
  obtain m1 where a: "mmu_access True (V2P pd) va (mem s) = Inr (?x va, m1)"
    and t: "touched 0x60 pd va (mem s) m1" and ch: "changes (table_frames (mem s) pd) (mem s) m1"
    using mmu_access_ok [OF w(1), of True] by auto
  note e = flags_effect [OF w(3) t or_60_facts]
  let ?m = "m1(?x va := v)"
  have "changes {uframe (mem s) pd va} m1 ?m" by (auto simp: changes_def)
  then have t2: "touched 0 pd va m1 ?m"
    by (rule frame_touched [OF aspace_pd [OF e(1)]]) (use aspace_frame [OF w(3,5,6)] e(8) in simp)
  note f = flags_effect [OF e(1) t2 or_0_facts]
  have b: "?m (?x vb) = (if vb = va then v else mem s (?x vb))" if "vb < KERNBASE" "mapped (mem s) pd vb" for vb
  proof (cases "vb = va")
    case False
    then have "?x vb \<noteq> ?x va" using same_byte [OF w(3,5,6) that] by blast
    moreover have "m1 (?x vb) = mem s (?x vb)" by (rule changesD [OF ch]) (use aspace_frame [OF w(3) that] in simp)
    ultimately show ?thesis using False by simp
  qed simp
  have "user_write (cr3 s) va v (mem s) = Inr ?m" using a by (simp add: user_write_def w(2))
  moreover have "clock_inv p (s\<lparr>mem := ?m\<rparr>)"
    by (rule clock_inv_mem [OF inv f(1) f(7) [OF e(7) [OF w(4)]] _ pd]) (simp only: e(6) f(6))
  moreover have "plain ?m pd vb = (if vb = va then v else plain (mem s) pd vb)" if "vb < KERNBASE" "mapped (mem s) pd vb" for vb
    unfolding plain_def f(2,5) e(2,5) Let_def b [OF that] using w(7) by (cases "vb = va") (simp_all only: if_True if_False simp_thms)
  then have "user_stored pd va v (mem s) ?m"
    unfolding user_stored_def f(3,4) e(3,4) by blast
  ultimately show ?thesis by blast
qed


section \<open>Accesses that may fault\<close>

text \<open>A page the kernel can read and write for the user: its plaintext does not begin with
  0xFF, the value on which \<open>mdecrypt\<close> gives up.\<close>

definition user_byte :: "memory \<Rightarrow> u32 \<Rightarrow> u32 \<Rightarrow> bool" where
  "user_byte m pd va \<longleftrightarrow> va < KERNBASE \<and> mapped m pd va \<and> has (pte_at m pd va) PTE_U \<and> plain m pd (PGROUNDDOWN va) \<noteq> 0xFF"

lemma mmu_access_encrypted:
  assumes inv: "clock_inv p s" and pd: "pd = pgdir (proc_at p s)" and va: "va < KERNBASE" "mapped (mem s) pd va"
    and e: "has (pte_at (mem s) pd va) PTE_E"
  shows "mmu_access wr (cr3 s) va (mem s) = Inl (PageFault va)"
proof -
  have as: "aspace (mem s) pd" and c: "cr3 s = V2P pd" and ur: "user_ready (mem s) pd"
    using inv pd by (simp_all add: clock_inv_def running_def)
  have np: "\<not> has (pte_at (mem s) pd va) PTE_P" using ur va e unfolding user_ready_def by blast
  have tab: "has_table (mem s) pd va" by (rule mapped_table [OF va(2)])
  have al: "PTE_ADDR (V2P pd) = V2P pd" using pd_wf_aligned [OF aspace_pd [OF as]] by (simp add: PTE_ADDR_eq)
  have "load32 (mem s) (pd + 4 * PDX va) = pde_at (mem s) pd va" by (simp add: pde_at_def)
  moreover have "load32 (mem s) (P2V (PTE_ADDR (pde_at (mem s) pd va)) + 4 * PTX va) = pte_at (mem s) pd va"
    using tab by (simp add: pte_at_def pte_slot_def pgtab_at_def)
  ultimately show ?thesis using np unfolding mmu_access_def Let_def c al by simp
qed

lemma with_decrypt_ok:
  assumes inv: "clock_inv p s" and pd: "pd = pgdir (proc_at p s)" and ub: "user_byte (mem s) pd va"
    and fault: "has (pte_at (mem s) pd va) PTE_E \<Longrightarrow> f s = Inl (PageFault va)"
    and run: "\<And>t. clock_inv p t \<Longrightarrow> same_proc (proc_at p s) (proc_at p t) \<Longrightarrow> decrypted (mem t) pd va \<Longrightarrow> user_kept pd (mem s) (mem t) \<Longrightarrow>
      \<exists>r. f t = Inr r \<and> Q r"
  shows "\<exists>r. with_decrypt f s = Inr r \<and> Q r"
proof (cases "has (pte_at (mem s) pd va) PTE_E")
  case True
  have va: "va < KERNBASE" "mapped (mem s) pd va" "has (pte_at (mem s) pd va) PTE_U" "plain (mem s) pd (PGROUNDDOWN va) \<noteq> 0xFF"
    using ub unfolding user_byte_def by blast+
  have rdy: "dec_ready (mem s) pd va"
    using inv va True pd unfolding clock_inv_def user_ready_def dec_ready_def by blast
  have "mem s (uframe (mem s) pd va) \<noteq> 0"
    using va(4) True by (auto simp: plain_def)
  then obtain t where t: "mdecrypt va s = Inr (0, t)" "clock_inv p t" "same_proc (proc_at p s) (proc_at p t)"
    "decrypted (mem t) pd va" "user_kept pd (mem s) (mem t)"
    using mdecrypt_clock [OF inv va(1)] rdy unfolding pd by blast
  obtain r where "f t = Inr r" "Q r" using run [OF t(2,3) t(4,5)] by blast
  then show ?thesis using fault [OF True] t(1) by (simp add: with_decrypt_def)
next
  case False
  then have "decrypted (mem s) pd va" using ub unfolding user_byte_def decrypted_def by blast
  from run [OF inv same_proc_refl this user_kept_refl] obtain r where "f s = Inr r" "Q r" by blast
  then show ?thesis by (simp add: with_decrypt_def)
qed

lemma kload8_plain:
  fixes s :: "'a kst_scheme"
  assumes inv: "clock_inv p s" and pd: "pd = pgdir (proc_at p s)" and ub: "user_byte (mem s) pd va"
  shows "\<exists>s'. kload8 va s = Inr (plain (mem s) pd va, s') \<and> clock_inv p s' \<and> same_proc (proc_at p s) (proc_at p s')
    \<and> user_kept pd (mem s) (mem s')"
proof -
  let ?Q = "\<lambda>(b, s'). b = plain (mem s) pd va \<and> clock_inv p s' \<and> same_proc (proc_at p s) (proc_at p s') \<and> user_kept pd (mem s) (mem s')"
  let ?f = "\<lambda>s. bindE (user_read (cr3 s) va (mem s)) (\<lambda>(b, m). Inr (b, s\<lparr>mem := m\<rparr>))"
  have va: "va < KERNBASE" "mapped (mem s) pd va" using ub by (simp_all add: user_byte_def)
  have "\<exists>r. with_decrypt ?f s = Inr r \<and> ?Q r"
  proof (rule with_decrypt_ok [OF inv pd ub])
    assume "has (pte_at (mem s) pd va) PTE_E"
    then show "?f s = Inl (PageFault va)"
      by (simp add: user_read_def mmu_access_encrypted [OF inv pd va])
  next
    fix t :: "'a kst_scheme" assume t: "clock_inv p t" "same_proc (proc_at p s) (proc_at p t)" "decrypted (mem t) pd va" "user_kept pd (mem s) (mem t)"
    have pt: "pd = pgdir (proc_at p t)" using same_procD(1) [OF t(2)] pd by simp
    obtain m' where m': "user_read (cr3 t) va (mem t) = Inr (plain (mem t) pd va, m')" "clock_inv p (t\<lparr>mem := m'\<rparr>)"
      "user_kept pd (mem t) m'"
      using user_read_plain [OF t(1) pt t(3)] by blast
    moreover have "plain (mem t) pd va = plain (mem s) pd va" using t(4) va unfolding user_kept_def by simp
    moreover have "proc_at p (t\<lparr>mem := m'\<rparr>) = proc_at p t" by (simp add: proc_at_def)
    ultimately show "\<exists>r. ?f t = Inr r \<and> ?Q r"
      using t(2) user_kept_trans [OF t(4) m'(3)] by simp
  qed
  then show ?thesis unfolding kload8_def by auto
qed

lemma kstore8_plain:
  fixes s :: "'a kst_scheme"
  assumes inv: "clock_inv p s" and pd: "pd = pgdir (proc_at p s)" and ub: "user_byte (mem s) pd va"
  shows "\<exists>s'. kstore8 va v s = Inr s' \<and> clock_inv p s' \<and> same_proc (proc_at p s) (proc_at p s') \<and> user_stored pd va v (mem s) (mem s')"
proof -
  let ?Q = "\<lambda>s'. clock_inv p s' \<and> same_proc (proc_at p s) (proc_at p s') \<and> user_stored pd va v (mem s) (mem s')"
  let ?f = "\<lambda>s. bindE (user_write (cr3 s) va v (mem s)) (\<lambda>m. Inr (s\<lparr>mem := m\<rparr>))"
  have va: "va < KERNBASE" "mapped (mem s) pd va" using ub by (simp_all add: user_byte_def)
  have "\<exists>r. with_decrypt ?f s = Inr r \<and> ?Q r"
  proof (rule with_decrypt_ok [OF inv pd ub])
    assume "has (pte_at (mem s) pd va) PTE_E"
    then show "?f s = Inl (PageFault va)"
      by (simp add: user_write_def mmu_access_encrypted [OF inv pd va])
  next
    fix t :: "'a kst_scheme" assume t: "clock_inv p t" "same_proc (proc_at p s) (proc_at p t)" "decrypted (mem t) pd va" "user_kept pd (mem s) (mem t)"
    have pt: "pd = pgdir (proc_at p t)" using same_procD(1) [OF t(2)] pd by simp
    obtain m' where m': "user_write (cr3 t) va v (mem t) = Inr m'" "clock_inv p (t\<lparr>mem := m'\<rparr>)" "user_stored pd va v (mem t) m'"
      using user_write_plain [OF t(1) pt t(3)] by blast
    moreover have "proc_at p (t\<lparr>mem := m'\<rparr>) = proc_at p t" by (simp add: proc_at_def)
    ultimately show "\<exists>r. ?f t = Inr r \<and> ?Q r"
      using t(2) user_kept_stored [OF t(4) m'(3)] by simp
  qed
  then show ?thesis unfolding kstore8_def by auto
qed


section \<open>Sequences of accesses\<close>

text \<open>The bytes from \<open>va\<close> on.\<close>

definition user_range :: "memory \<Rightarrow> u32 \<Rightarrow> u32 \<Rightarrow> nat \<Rightarrow> bool" where
  "user_range m pd va n \<longleftrightarrow> unat va + n \<le> unat KERNBASE \<and>
     (\<forall>vb. unat va \<le> unat vb \<longrightarrow> unat vb < unat va + n \<longrightarrow> user_byte m pd vb)"

lemma unat_add_of_nat: "unat va + i < 2 ^ 32 \<Longrightarrow> unat (va + of_nat i) = unat va + i" for va :: u32
  by (simp add: unat_word_ariths unat_of_nat)

lemma user_range_Suc:
  assumes "user_range m pd va (Suc n)"
  shows "user_byte m pd va" "user_range m pd (va + 1) n" "unat (va + 1) = Suc (unat va)"
proof -
  have "unat va + 1 < 2 ^ 32" using assms by (simp add: user_range_def)
  then show u: "unat (va + 1) = Suc (unat va)" by (simp add: unat_word_ariths)
  show "user_byte m pd va" using assms by (simp add: user_range_def)
  show "user_range m pd (va + 1) n" using assms unfolding user_range_def u by simp
qed

lemma user_kept_byte:
  assumes k: "user_kept pd m m'" and ub: "user_byte m pd vb"
  shows "user_byte m' pd vb"
proof -
  have "PGROUNDDOWN vb < KERNBASE" using ub PGROUNDDOWN_le [of vb] unfolding user_byte_def by (metis le_less_trans)
  then show ?thesis using k ub unfolding user_kept_def user_byte_def by simp
qed

lemma kloads_plain:
  fixes s :: "'a kst_scheme"
  assumes "clock_inv p s" and "pd = pgdir (proc_at p s)" and "user_range (mem s) pd va n"
  shows "\<exists>s'. kloads n va s = Inr (map (\<lambda>i. plain (mem s) pd (va + of_nat i)) [0..<n], s') \<and> clock_inv p s'
    \<and> same_proc (proc_at p s) (proc_at p s') \<and> user_kept pd (mem s) (mem s')"
  using assms
proof (induction n arbitrary: va s)
  case 0
  then show ?case using user_kept_refl same_proc_refl by simp
next
  case (Suc n)
  note r = user_range_Suc [OF Suc.prems(3)]
  obtain t where t: "kload8 va s = Inr (plain (mem s) pd va, t)" "clock_inv p t" "same_proc (proc_at p s) (proc_at p t)"
    "user_kept pd (mem s) (mem t)"
    using kload8_plain [OF Suc.prems(1,2) r(1)] by blast
  have pt: "pd = pgdir (proc_at p t)" using same_procD(1) [OF t(3)] Suc.prems(2) by simp
  have rt: "user_range (mem t) pd (va + 1) n"
    using r(2) user_kept_byte [OF t(4)] unfolding user_range_def by blast
  obtain s' where s': "kloads n (va + 1) t = Inr (map (\<lambda>i. plain (mem t) pd (va + 1 + of_nat i)) [0..<n], s')" "clock_inv p s'"
    "same_proc (proc_at p t) (proc_at p s')" "user_kept pd (mem t) (mem s')"
    using Suc.IH [OF t(2) pt rt] by blast
  have "plain (mem t) pd (va + 1 + of_nat i) = plain (mem s) pd (va + of_nat (Suc i))" if "i < n" for i
  proof -
    have "unat (va + 1 + of_nat i) = unat (va + 1) + i"
      using r(2) that by (intro unat_add_of_nat) (simp add: user_range_def)
    then have "user_byte (mem s) pd (va + 1 + of_nat i)" using r(2) that by (simp add: user_range_def)
    then show ?thesis using t(4) by (simp add: user_kept_def user_byte_def add.assoc)
  qed
  then have "map (\<lambda>i. plain (mem t) pd (va + 1 + of_nat i)) [0..<n] = map (\<lambda>i. plain (mem s) pd (va + of_nat (Suc i))) [0..<n]" by simp
  then have "kloads (Suc n) va s = Inr (map (\<lambda>i. plain (mem s) pd (va + of_nat i)) [0..<Suc n], s')"
    using t(1) s'(1) by (simp add: map_upt_Suc del: upt_Suc)
  with s' user_kept_trans [OF t(4)] same_proc_trans [OF t(3)] show ?case by blast
qed

text \<open>The bytes of a store that may start a page must not be 0xFF.\<close>

definition no_bad_start :: "u32 \<Rightarrow> u8 list \<Rightarrow> bool" where
  "no_bad_start va bs \<longleftrightarrow> (\<forall>i<length bs. OFFSET (va + of_nat i) = 0 \<longrightarrow> bs ! i \<noteq> 0xFF)"

lemma no_bad_start_Cons: "no_bad_start va (b # bs) \<longleftrightarrow> (OFFSET va = 0 \<longrightarrow> b \<noteq> 0xFF) \<and> no_bad_start (va + 1) bs"
proof -
  have "(\<forall>i<Suc n. P i) \<longleftrightarrow> P 0 \<and> (\<forall>i<n. P (Suc i))" for n and P :: "nat \<Rightarrow> bool" by (rule All_less_Suc2)
  then show ?thesis by (simp add: no_bad_start_def add.assoc)
qed

lemma user_stored_byte:
  assumes st: "user_stored pd va v m m'" and ub: "user_byte m pd vb" and v: "OFFSET va = 0 \<longrightarrow> v \<noteq> 0xFF"
  shows "user_byte m' pd vb"
proof -
  have "PGROUNDDOWN vb < KERNBASE" using ub PGROUNDDOWN_le [of vb] unfolding user_byte_def by (metis le_less_trans)
  moreover have "PGROUNDDOWN vb = va \<Longrightarrow> OFFSET va = 0" using aligned_OFFSET [of "PGROUNDDOWN vb"] by auto
  ultimately show ?thesis using st ub v unfolding user_stored_def user_byte_def by auto
qed

lemma kstores_plain:
  fixes s :: "'a kst_scheme"
  assumes "clock_inv p s" and "pd = pgdir (proc_at p s)" and "user_range (mem s) pd va (length bs)" and "no_bad_start va bs"
  shows "\<exists>s'. kstores bs va s = Inr s' \<and> clock_inv p s' \<and> same_proc (proc_at p s) (proc_at p s')
    \<and> (\<forall>vb. user_byte (mem s) pd vb \<longrightarrow> user_byte (mem s') pd vb)
    \<and> (\<forall>vb<KERNBASE. mapped (mem s) pd vb \<longrightarrow> mapped (mem s') pd vb \<and>
        plain (mem s') pd vb = (if unat va \<le> unat vb \<and> unat vb < unat va + length bs then bs ! (unat vb - unat va) else plain (mem s) pd vb))"
  using assms
proof (induction bs arbitrary: va s)
  case Nil
  then show ?case using same_proc_refl by auto
next
  case (Cons b bs)
  note r = user_range_Suc [OF Cons.prems(3) [unfolded list.size(4) add_Suc_right add_0_right]]
  have nb: "OFFSET va = 0 \<longrightarrow> b \<noteq> 0xFF" "no_bad_start (va + 1) bs" using Cons.prems(4) by (simp_all add: no_bad_start_Cons)
  obtain t where t: "kstore8 va b s = Inr t" "clock_inv p t" "same_proc (proc_at p s) (proc_at p t)" "user_stored pd va b (mem s) (mem t)"
    using kstore8_plain [OF Cons.prems(1,2) r(1)] by blast
  have pt: "pd = pgdir (proc_at p t)" using same_procD(1) [OF t(3)] Cons.prems(2) by simp
  have rt: "user_range (mem t) pd (va + 1) (length bs)"
    using r(2) user_stored_byte [OF t(4) _ nb(1)] unfolding user_range_def by blast
  obtain s' where s': "kstores bs (va + 1) t = Inr s'" "clock_inv p s'" "same_proc (proc_at p t) (proc_at p s')"
    and ub: "\<And>vb. user_byte (mem t) pd vb \<Longrightarrow> user_byte (mem s') pd vb"
    and pl: "\<And>vb. vb < KERNBASE \<Longrightarrow> mapped (mem t) pd vb \<Longrightarrow> mapped (mem s') pd vb \<and> plain (mem s') pd vb =
       (if unat (va + 1) \<le> unat vb \<and> unat vb < unat (va + 1) + length bs then bs ! (unat vb - unat (va + 1)) else plain (mem t) pd vb)"
    using Cons.IH [OF t(2) pt rt nb(2)] by blast
  have "mapped (mem s') pd vb \<and> plain (mem s') pd vb =
      (if unat va \<le> unat vb \<and> unat vb < unat va + length (b # bs) then (b # bs) ! (unat vb - unat va) else plain (mem s) pd vb)"
    if m: "vb < KERNBASE" "mapped (mem s) pd vb" for vb
  proof -
    have "mapped (mem t) pd vb" "plain (mem t) pd vb = (if vb = va then b else plain (mem s) pd vb)"
      using t(4) m unfolding user_stored_def by blast+
    moreover have "vb = va \<longleftrightarrow> unat vb = unat va" by (rule word_unat_eq_iff)
    ultimately show ?thesis using pl [OF m(1)] unfolding r(3) by (auto simp: nth_Cons')
  qed
  moreover have "user_byte (mem s') pd vb" if "user_byte (mem s) pd vb" for vb
    by (rule ub [OF user_stored_byte [OF t(4) that nb(1)]])
  ultimately show ?case using t(1) s' same_proc_trans [OF t(3) s'(3)] by auto
qed


section \<open>Transparency\<close>

text \<open>C3. The kernel reads the plaintext of user memory. Over a range below \<open>KERNBASE\<close> whose pages are mapped, have \<open>PTE_U\<close> and do not begin with the plaintext
  byte 0xFF, encrypted or not, a sequence of loads returns the plaintext bytes, changes the plaintext of no mapped byte and keeps the clock exact, although every fault on the way may
  decrypt one page and encrypt another.\<close>

theorem kloads_transparent:
  fixes s :: "'a kst_scheme"
  assumes inv: "clock_inv p s" and rg: "user_range (mem s) (pgdir (proc_at p s)) va n"
  shows "\<exists>s'. kloads n va s = Inr (map (\<lambda>i. plain (mem s) (pgdir (proc_at p s)) (va + of_nat i)) [0..<n], s')
    \<and> clock_inv p s' \<and> user_kept (pgdir (proc_at p s)) (mem s) (mem s')"
  using kloads_plain [OF inv refl rg] by blast

text \<open>C2. What the kernel stores in user memory it loads again. Into a range below \<open>KERNBASE\<close> whose pages are mapped, have \<open>PTE_U\<close> and do not begin with the plaintext
  byte 0xFF, a sequence of stores that does not itself begin a page with 0xFF, on which \<open>mdecrypt\<close> gives up, succeeds; loading the
  range then gives the stored bytes, every mapped byte outside the range has its plaintext, and the clock is exact.\<close>

theorem kstores_kloads:
  fixes s :: "'a kst_scheme"
  assumes inv: "clock_inv p s" and rg: "user_range (mem s) (pgdir (proc_at p s)) va (length bs)" and nb: "no_bad_start va bs"
  defines "pd \<equiv> pgdir (proc_at p s)"
  shows "\<exists>s1 s2. kstores bs va s = Inr s1 \<and> kloads (length bs) va s1 = Inr (bs, s2) \<and> clock_inv p s2
    \<and> (\<forall>vb<KERNBASE. mapped (mem s) pd vb \<longrightarrow> unat vb < unat va \<or> unat va + length bs \<le> unat vb \<longrightarrow>
        plain (mem s2) pd vb = plain (mem s) pd vb)"
proof -
  obtain s1 where s1: "kstores bs va s = Inr s1" "clock_inv p s1" "same_proc (proc_at p s) (proc_at p s1)"
    and ub: "\<And>vb. user_byte (mem s) pd vb \<Longrightarrow> user_byte (mem s1) pd vb"
    and pl: "\<And>vb. vb < KERNBASE \<Longrightarrow> mapped (mem s) pd vb \<Longrightarrow> mapped (mem s1) pd vb \<and> plain (mem s1) pd vb =
      (if unat va \<le> unat vb \<and> unat vb < unat va + length bs then bs ! (unat vb - unat va) else plain (mem s) pd vb)"
    using kstores_plain [OF inv refl rg nb] unfolding pd_def by blast
  have pd1: "pd = pgdir (proc_at p s1)" using same_procD(1) [OF s1(3)] by (simp add: pd_def)
  have rg1: "user_range (mem s1) pd va (length bs)" using rg ub unfolding user_range_def pd_def by blast
  obtain s2 where s2: "kloads (length bs) va s1 = Inr (map (\<lambda>i. plain (mem s1) pd (va + of_nat i)) [0..<length bs], s2)"
    "clock_inv p s2" "user_kept pd (mem s1) (mem s2)"
    using kloads_plain [OF s1(2) pd1 rg1] by blast
  have "plain (mem s1) pd (va + of_nat i) = bs ! i" if "i < length bs" for i
  proof -
    have u: "unat (va + of_nat i) = unat va + i" using rg that by (intro unat_add_of_nat) (simp add: user_range_def)
    then have "user_byte (mem s) pd (va + of_nat i)" using rg that by (simp add: user_range_def pd_def)
    then show ?thesis using pl u that by (simp add: user_byte_def)
  qed
  then have "map (\<lambda>i. plain (mem s1) pd (va + of_nat i)) [0..<length bs] = bs" by (auto intro: nth_equalityI)
  moreover have "plain (mem s2) pd vb = plain (mem s) pd vb"
    if "vb < KERNBASE" "mapped (mem s) pd vb" "unat vb < unat va \<or> unat va + length bs \<le> unat vb" for vb
    using pl [OF that(1,2)] that s2(3) by (auto simp: user_kept_def)
  ultimately show ?thesis using s1(1) s2(1,2) by auto
qed

lemma kst1_range: "user_range (mem (kst1 7)) 0x80300000 0x123 2"
proof -
  have r: "PGROUNDDOWN 0x123 = (0 :: u32)" by (simp add: PGROUNDDOWN_def)
  have "user_byte (mem (kst1 7)) 0x80300000 vb" if "0x123 \<le> unat vb" "unat vb < 0x125" for vb
  proof -
    have "unat vb = 0x123 \<or> unat vb = 0x124" using that by arith
    then have "vb = 0x123 \<or> vb = 0x124" by (auto simp: word_unat_eq_iff)
    then have c: "PGROUNDDOWN vb = PGROUNDDOWN 0x123" "vb < KERNBASE" by (auto simp: PGROUNDDOWN_def)
    note p = view_cong_page(5) [OF c(1), of "mem (kst1 7)" "0x80300000"]
    show ?thesis
      using kst1_inv(2) [of 7] kst1_inv(3) [of 7] dec_ready_mapped [OF kst1_inv(2) [of 7]] c(2)
      by (simp only: user_byte_def mapped_def dec_ready_def p c(1) r simp_thms) simp
  qed
  then show ?thesis by (simp add: user_range_def)
qed

lemma kst1_pgdir: "pgdir (proc_at 0 (kst1 b)) = 0x80300000"
  by (simp add: kst1_def)

theorem kloads_transparent_witness:
  "\<exists>s'. kloads 2 0x123 (kst1 7) = Inr (map (\<lambda>i. plain (mem (kst1 7)) 0x80300000 (0x123 + of_nat i)) [0..<2], s')
    \<and> clock_inv 0 s' \<and> user_kept 0x80300000 (mem (kst1 7)) (mem s')"
  using kloads_transparent [OF kst1_inv(1) [of 7], of "0x123" 2] kst1_range by (simp only: kst1_pgdir)

theorem kstores_kloads_witness:
  "\<exists>s1 s2. kstores [104, 105] 0x123 (kst1 7) = Inr s1 \<and> kloads 2 0x123 s1 = Inr ([104, 105], s2) \<and> clock_inv 0 s2"
proof -
  have l: "length [104, 105 :: u8] = 2" by simp
  have nb: "no_bad_start 0x123 [104, 105]" by (simp add: no_bad_start_Cons) (simp add: no_bad_start_def)
  show ?thesis
    using kstores_kloads [OF kst1_inv(1) [of 7] _ nb] kst1_range unfolding kst1_pgdir l by blast
qed

end
