(* ===== verification/Syscall_User.thy ===== *)
theory Syscall_User
  imports Syscall Crypt_User
begin

text \<open>
  The arguments of system calls over encrypted user memory: \<open>argint\<close>, \<open>argstr\<close> and \<open>argptr\<close> of theory \<open>Syscall\<close>
  deliver the plaintext that the process put on its stack and into its strings, and stay inside the process.
\<close>

lemma myproc_running: "clock_inv p s \<Longrightarrow> myproc s = Inr p"
  by (simp add: clock_inv_def running_def myproc_def)

text \<open>The plaintext from \<open>va\<close> on.\<close>

definition plains :: "memory \<Rightarrow> u32 \<Rightarrow> u32 \<Rightarrow> nat \<Rightarrow> u8 list" where
  "plains m pd va n = map (\<lambda>i. plain m pd (va + of_nat i)) [0..<n]"

text \<open>The string in a list of bytes, if it is terminated.\<close>

definition cstring :: "u8 list \<Rightarrow> u8 list option" where
  "cstring bs = (if 0 \<in> set bs then Some (takeWhile (\<lambda>b. b \<noteq> 0) bs) else None)"

lemma plains_Suc: "plains m pd va (Suc n) = plain m pd va # plains m pd (va + 1) n"
  by (simp add: plains_def map_upt_Suc add.assoc del: upt_Suc)

lemma cstring_Cons: "cstring (b # bs) = (if b = 0 then Some [] else map_option ((#) b) (cstring bs))"
  by (simp add: cstring_def)

lemma plains_kept:
  assumes "user_kept pd m m'" and "user_range m pd va n"
  shows "plains m' pd va n = plains m pd va n"
proof -
  have "plain m' pd (va + of_nat i) = plain m pd (va + of_nat i)" if "i < n" for i
  proof -
    have "unat (va + of_nat i) = unat va + i"
      using assms(2) that by (intro unat_add_of_nat) (simp add: user_range_def)
    then have "user_byte m pd (va + of_nat i)" using assms(2) that by (simp add: user_range_def)
    then show ?thesis using assms(1) by (simp add: user_kept_def user_byte_def)
  qed
  then show ?thesis by (simp add: plains_def)
qed

lemma user_range_kept: "user_kept pd m m' \<Longrightarrow> user_range m pd va n \<Longrightarrow> user_range m' pd va n"
  using user_kept_byte unfolding user_range_def by blast

text \<open>The loop of \<open>fetchstr\<close> over at most \<open>n\<close> bytes reads no further than the string's zero: only the first \<open>k\<close> bytes need to be
  user memory, when they hold a zero or are all \<open>n\<close>.\<close>

lemma fetchstr_loop_plain:
  fixes s :: "'a kst_scheme"
  assumes "clock_inv p s" and "pd = pgdir (proc_at p s)" and "user_range (mem s) pd va k" and "k \<le> n"
    and "0 \<in> set (plains (mem s) pd va k) \<or> k = n"
  shows "\<exists>s'. fetchstr_loop n va s = Inr (cstring (plains (mem s) pd va k), s') \<and> clock_inv p s'
    \<and> same_proc (proc_at p s) (proc_at p s') \<and> user_kept pd (mem s) (mem s')"
  using assms
proof (induction n arbitrary: va s k)
  case 0
  then show ?case using user_kept_refl same_proc_refl by (simp add: plains_def cstring_def)
next
  case (Suc n)
  obtain j where k: "k = Suc j" using Suc.prems(5) by (cases k) (auto simp: plains_def)
  note r = user_range_Suc [OF Suc.prems(3) [unfolded k]]
  obtain t where t: "kload8 va s = Inr (plain (mem s) pd va, t)" "clock_inv p t" "same_proc (proc_at p s) (proc_at p t)"
    "user_kept pd (mem s) (mem t)"
    using kload8_plain [OF Suc.prems(1,2) r(1)] by blast
  show ?case
  proof (cases "plain (mem s) pd va = 0")
    case True
    then show ?thesis using t by (simp add: k plains_Suc cstring_Cons)
  next
    case False
    have pt: "pd = pgdir (proc_at p t)" using same_procD(1) [OF t(3)] Suc.prems(2) by simp
    have z: "0 \<in> set (plains (mem t) pd (va + 1) j) \<or> j = n"
      using Suc.prems(5) False by (auto simp: k plains_Suc plains_kept [OF t(4) r(2)])
    have j: "j \<le> n" using Suc.prems(4) k by simp
    obtain s' where s': "fetchstr_loop n (va + 1) t = Inr (cstring (plains (mem t) pd (va + 1) j), s')" "clock_inv p s'"
      "same_proc (proc_at p t) (proc_at p s')" "user_kept pd (mem t) (mem s')"
      using Suc.IH [OF t(2) pt user_range_kept [OF t(4) r(2)] j z] by blast
    have "fetchstr_loop (Suc n) va s = Inr (cstring (plains (mem s) pd va k), s')"
      using t(1) s'(1) False by (simp add: k plains_Suc cstring_Cons plains_kept [OF t(4) r(2)])
    with s' user_kept_trans [OF t(4)] same_proc_trans [OF t(3)] show ?thesis by blast
  qed
qed

lemma fetchint_plain:
  fixes s :: "'a kst_scheme"
  assumes inv: "clock_inv p s" and pd: "pd = pgdir (proc_at p s)" and rg: "user_range (mem s) pd va 4"
    and sz: "unat va + 4 \<le> unat (sz (proc_at p s))"
  shows "\<exists>s'. fetchint va s = Inr (Some (get32 (plains (mem s) pd va 4) 0), s') \<and> clock_inv p s'
    \<and> same_proc (proc_at p s) (proc_at p s') \<and> user_kept pd (mem s) (mem s')"
proof -
  have "unat (va + of_nat 4) = unat va + 4" using rg by (intro unat_add_of_nat) (simp add: user_range_def)
  then have "\<not> (va \<ge> sz (proc_at p s) \<or> va + 4 > sz (proc_at p s))"
    using sz by (simp add: word_le_nat_alt word_less_nat_alt)
  then show ?thesis
    using kloads_plain [OF inv pd rg] unfolding plains_def fetchint_def by (auto simp: myproc_running [OF inv] simp del: upt_Suc)
qed

definition arg_slot :: "nat \<Rightarrow> proc \<Rightarrow> memory \<Rightarrow> u32" where
  "arg_slot n q m = load32 m (tf q + tf_esp) + 4 + 4 * of_nat n"

lemma argint_plain:
  fixes s :: "'a kst_scheme"
  assumes inv: "clock_inv p s" and pd: "pd = pgdir (proc_at p s)" and va: "va = arg_slot n (proc_at p s) (mem s)"
    and rg: "user_range (mem s) pd va 4" and sz: "unat va + 4 \<le> unat (sz (proc_at p s))"
  shows "\<exists>s'. argint n s = Inr (Some (get32 (plains (mem s) pd va 4) 0), s') \<and> clock_inv p s'
    \<and> same_proc (proc_at p s) (proc_at p s') \<and> user_kept pd (mem s) (mem s')"
  using fetchint_plain [OF inv pd rg sz] by (simp add: argint_def myproc_running [OF inv] va arg_slot_def)

text \<open>C26. A string argument of a system call. Let the argument's stack slot lie in the process, the string start below its size, and the
  pages of the slot and of the first \<open>k\<close> bytes of the string be mapped, have \<open>PTE_U\<close> and not begin with the plaintext byte 0xFF; pages after the zero of the string, such as
  the guard page of \<open>exec\<close>, may be anything. Then, whichever of these pages are encrypted, \<open>argstr\<close> delivers the string's plaintext up to its zero when it is among the \<open>k\<close> bytes, and fails
  when there is none up to the end of the process; it changes no user byte and keeps the clock exact.\<close>

theorem argstr_transparent:
  fixes s :: "'a kst_scheme"
  assumes inv: "clock_inv p s" and slot: "va = arg_slot n (proc_at p s) (mem s)" "unat va + 4 \<le> unat (sz (proc_at p s))"
    "user_range (mem s) (pgdir (proc_at p s)) va 4"
    and str: "a = get32 (plains (mem s) (pgdir (proc_at p s)) va 4) 0" "a < sz (proc_at p s)"
      "user_range (mem s) (pgdir (proc_at p s)) a k" "k \<le> unat (sz (proc_at p s) - a)"
      "0 \<in> set (plains (mem s) (pgdir (proc_at p s)) a k) \<or> k = unat (sz (proc_at p s) - a)"
  shows "\<exists>s'. argstr n s = Inr (cstring (plains (mem s) (pgdir (proc_at p s)) a k), s')
    \<and> clock_inv p s' \<and> user_kept (pgdir (proc_at p s)) (mem s) (mem s')"
proof -
  let ?pd = "pgdir (proc_at p s)" and ?n = "unat (sz (proc_at p s) - a)"
  obtain t where t: "argint n s = Inr (Some a, t)" "clock_inv p t" "same_proc (proc_at p s) (proc_at p t)" "user_kept ?pd (mem s) (mem t)"
    using argint_plain [OF inv refl slot(1,3,2)] str(1) by blast
  note q = same_procD [OF t(3)]
  note pk = plains_kept [OF t(4) str(3)]
  obtain s' where s': "fetchstr_loop ?n a t = Inr (cstring (plains (mem t) ?pd a k), s')" "clock_inv p s'" "user_kept ?pd (mem t) (mem s')"
    using fetchstr_loop_plain [OF t(2) q(1) [symmetric] user_range_kept [OF t(4) str(3)] str(4) str(5) [folded pk]] by blast
  have "argstr n s = Inr (cstring (plains (mem s) ?pd a k), s')"
    using t(1) s'(1) linorder_not_le [THEN iffD2, OF str(2)] by (simp add: argstr_def fetchstr_def myproc_running [OF t(2)] q(2) pk)
  with s' user_kept_trans [OF t(4)] show ?thesis by blast
qed

text \<open>An example: an encrypted page that holds at 4 the argument 16 and at 16 a string; the stack pointer is 0.\<close>

definition arg_page :: "u8 list" where
  "arg_page = [0, 0, 0, 0, 16, 0, 0, 0, 0, 0, 0, 0, 0, 0, 0, 0, 104, 105, 0]"

definition arg_mem :: memory where
  "arg_mem a =
    (if PGROUNDDOWN a = 0x80500000 then (if unat (OFFSET a) < 19 then arg_page ! unat (OFFSET a) XOR 0xFF else 0xFF)
     else if PGROUNDDOWN a = 0x80600000 then 0 else one_page 0x500406 a)"

definition arg_state :: kst where
  "arg_state = (kst0 0x500406)\<lparr>mem := arg_mem\<rparr>"

lemma arg_state_inv:
  "clock_inv 0 arg_state" "unat vb < 4096 \<Longrightarrow> user_byte (mem arg_state) 0x80300000 vb"
  "unat vb < 19 \<Longrightarrow> plain (mem arg_state) 0x80300000 vb = arg_page ! unat vb"
proof -
  have "changes {0x80500000, 0x80600000} (one_page 0x500406) arg_mem" by (simp add: changes_def arg_mem_def)
  note i = enc_page_inv [OF this]
  show "clock_inv 0 arg_state" using i(1) by (simp add: arg_state_def)
  have pg: "PGROUNDDOWN vb = 0" if "unat vb < 4096" for vb
    using that by (simp add: word_unat_eq_iff unat_PGROUNDDOWN)
  have pl: "plain (mem arg_state) 0x80300000 vb = arg_page ! unat vb" if "unat vb < 19" for vb
  proof -
    have "aligned (0x80500000 :: u32)" by (simp add: aligned_unat)
    note x = byte_page [OF this, of "0x80500000 + OFFSET vb" vb, simplified]
    have "unat (OFFSET vb) = unat vb" using that by (simp add: unat_OFFSET)
    then have "arg_mem (0x80500000 + OFFSET vb) = arg_page ! unat vb XOR 0xFF" using that x by (simp add: arg_mem_def)
    then show ?thesis using i(3) [OF pg [of vb]] that by (simp add: arg_state_def xor.assoc)
  qed
  show "unat vb < 19 \<Longrightarrow> plain (mem arg_state) 0x80300000 vb = arg_page ! unat vb" by (rule pl)
  assume vb: "unat vb < 4096"
  have d: "dec_ready arg_mem 0x80300000 vb" by (rule i(2) [OF pg [OF vb]])
  have "plain (mem arg_state) 0x80300000 0 \<noteq> 0xFF" using pl [of 0] by (simp add: arg_page_def)
  moreover have "vb < KERNBASE" using vb by (simp add: word_less_nat_alt)
  ultimately show "user_byte (mem arg_state) 0x80300000 vb"
    using d dec_ready_mapped [OF d] unfolding user_byte_def dec_ready_def pg [OF vb] by (simp add: arg_state_def)
qed

lemma arg_state_slot:
  "proc_at 0 arg_state = proc0" "4 = arg_slot 0 proc0 (mem arg_state)" "16 = get32 (plains (mem arg_state) 0x80300000 4 4) 0"
proof -
  show "proc_at 0 arg_state = proc0" by (simp add: arg_state_def)
  have "load32 (mem arg_state) (tf proc0 + tf_esp) = 0"
    by (simp add: arg_state_def arg_mem_def load32_def PGROUNDDOWN_def proc0_def)
  then show "4 = arg_slot 0 proc0 (mem arg_state)" by (simp add: arg_slot_def)
  have "plains (mem arg_state) 0x80300000 4 4 = [16, 0, 0, 0]"
    by (simp add: plains_def upt_rec arg_state_inv(3) arg_page_def)
  then show "16 = get32 (plains (mem arg_state) 0x80300000 4 4) 0" by (simp add: get32_def)
qed

lemma arg_state_range: "unat va + n \<le> 4096 \<Longrightarrow> user_range (mem arg_state) 0x80300000 va n"
  unfolding user_range_def by (simp add: arg_state_inv(2))

theorem argstr_transparent_witness:
  "\<exists>s'. argstr 0 arg_state = Inr (Some [104, 105], s') \<and> clock_inv 0 s'"
proof -
  have p: "plains (mem arg_state) 0x80300000 16 3 = [104, 105, 0]"
    by (simp add: plains_def upt_rec arg_state_inv(3) arg_page_def)
  show ?thesis
    using argstr_transparent [OF arg_state_inv(1), of 4 0 16 3] arg_state_range [of 4 4] arg_state_range [of 16 3]
    unfolding arg_state_slot(1) proc0_simps p using arg_state_slot(2,3) by (auto simp: cstring_def)
qed

text \<open>C27. A pointer argument is inside the process: when \<open>argptr\<close> accepts a block of \<open>len\<close> bytes, a C int, the block lies below the size of a process whose
  size is at most \<open>KERNBASE\<close>: the sum that the code compares cannot wrap around.\<close>

theorem argptr_inside:
  assumes a: "argptr n len s = Inr (Some i, s')" and p: "myproc s' = Inr p" and sz: "sz (proc_at p s') \<le> KERNBASE" and len: "len < 2 ^ 31"
  shows "0 \<le> len \<and> unat i + nat len \<le> unat (sz (proc_at p s')) \<and> i < sz (proc_at p s')"
proof -
  obtain r t where t: "argint n s = Inr (r, t)" using a by (cases "argint n s") (auto simp: argptr_def)
  then obtain j where "r = Some j" using a by (cases r) (auto simp: argptr_def)
  then have c: "\<not> (len < 0 \<or> i \<ge> sz (proc_at p s') \<or> i + of_int len > sz (proc_at p s'))"
    using a t p by (cases "myproc t") (auto simp: argptr_def split: if_splits)
  then have lt: "unat i < unat (sz (proc_at p s'))" "0 \<le> len" by (auto simp: not_le word_less_nat_alt)
  have k: "unat (sz (proc_at p s')) \<le> 2 ^ 31" using sz by (simp add: word_le_nat_alt)
  have "(of_int len :: u32) = of_nat (nat len)" using lt(2) by (metis of_int_of_nat_eq nat_0_le)
  then have "unat (i + of_int len) = unat i + nat len"
    using unat_add_of_nat [of i "nat len"] lt k len by simp
  then show ?thesis using c lt by (simp add: word_le_nat_alt word_less_nat_alt)
qed


theorem argptr_inside_witness:
  "\<exists>s'. argptr 0 5 arg_state = Inr (Some 16, s') \<and> unat (16 :: u32) + nat 5 \<le> unat (sz (proc_at 0 s'))"
proof -
  have r: "user_range (mem arg_state) (pgdir (proc_at 0 arg_state)) 4 4" using arg_state_range [of 4 4] by (simp add: arg_state_slot(1))
  have l: "unat (4 :: u32) + 4 \<le> unat (sz (proc_at 0 arg_state))" by (simp add: arg_state_slot(1))
  have sl: "4 = arg_slot 0 (proc_at 0 arg_state) (mem arg_state)" unfolding arg_state_slot(1) by (rule arg_state_slot(2))
  obtain t where t: "argint 0 arg_state = Inr (Some 16, t)" "clock_inv 0 t" "same_proc (proc_at 0 arg_state) (proc_at 0 t)"
    using argint_plain [OF arg_state_inv(1) refl sl r l] arg_state_slot(3) by (auto simp: arg_state_slot(1))
  have z: "sz (proc_at 0 t) = 4096" using same_procD(2) [OF t(3)] by (simp add: arg_state_slot(1))
  have p: "argptr 0 5 arg_state = Inr (Some 16, t)" using t(1) by (simp add: argptr_def myproc_running [OF t(2)] z)
  then show ?thesis using argptr_inside [OF p myproc_running [OF t(2)]] by (simp add: z)
qed

end
