(* ===== verification/Exec.thy ===== *)
theory Exec
  imports Syscall
begin

text \<open>
  Loading programs: \<open>loaduvm\<close> of \<^verbatim>\<open>src/src/vm.c\<close> and \<open>exec\<close> of \<^verbatim>\<open>src/src/exec.c\<close>. The ELF headers are read at their byte offsets; the \<open>goto bad\<close>
  paths are the function \<open>exec_bad\<close>. The kernel's copy of the argument strings is the list of them.
\<close>

section \<open>Loading a segment\<close>

fun loaduvm_loop :: "nat \<Rightarrow> u32 \<Rightarrow> u32 \<Rightarrow> u32 \<Rightarrow> nat \<Rightarrow> u32 \<Rightarrow> u32 \<Rightarrow> 'a fsst_scheme \<Rightarrow> err + (int \<times> 'a fsst_scheme)" where
  "loaduvm_loop 0 i pd addr ip offset n s = Inr (0, s)"
| "loaduvm_loop (Suc k) i pd addr ip offset n s =
    (case walkpgdir pd (addr + i) False s of (pte, s) \<Rightarrow>
     if pte = 0 then Inl (Panic ''loaduvm: address should exist'')
     else
       let pa = PTE_ADDR (load32 (mem s) pte); m = (if n - i < PGSIZE then n - i else PGSIZE) in
       bindE (readi ip (offset + i) m s) (\<lambda>(r, d, s).
       let s = s\<lparr>mem := fold (\<lambda>j mm. mm(P2V pa + of_nat j := d ! j)) [0..<length d] (mem s)\<rparr> in
       if r \<noteq> sint m then Inr (-1, s)
       else loaduvm_loop k (i + PGSIZE) pd addr ip offset n s))"

text \<open>The loop runs once for every page that \<open>n\<close> bytes need.\<close>

definition loaduvm :: "u32 \<Rightarrow> u32 \<Rightarrow> nat \<Rightarrow> u32 \<Rightarrow> u32 \<Rightarrow> 'a fsst_scheme \<Rightarrow> err + (int \<times> 'a fsst_scheme)" where
  "loaduvm pd addr ip offset n s =
    (if addr mod PGSIZE \<noteq> 0 then Inl (Panic ''loaduvm: addr must be page aligned'')
     else loaduvm_loop ((unat n + 4095) div 4096) 0 pd addr ip offset n s)"

section \<open>exec\<close>

lemma page_off_lt: "unat (va - PGROUNDDOWN va) < 4096"
proof -
  have "va - PGROUNDDOWN va = OFFSET va" using PGROUNDDOWN_OFFSET [of va] by (metis add_diff_cancel_left')
  then show ?thesis by simp
qed

definition ELF_MAGIC :: u32 where [simp]: "ELF_MAGIC = 0x464C457F"
definition ELF_PROG_LOAD :: u32 where [simp]: "ELF_PROG_LOAD = 1"
definition MAXARG :: nat where [simp]: "MAXARG = 32"

record elfhdr =
  elf_magic :: u32
  elf_entry :: u32
  elf_phoff :: u32
  elf_phnum :: u16

record proghdr =
  ph_type :: u32
  ph_off :: u32
  ph_vaddr :: u32
  ph_filesz :: u32
  ph_memsz :: u32

definition parse_elfhdr :: "u8 list \<Rightarrow> elfhdr" where
  "parse_elfhdr d = \<lparr>elf_magic = get32 d 0, elf_entry = get32 d 24, elf_phoff = get32 d 28, elf_phnum = get16 d 44\<rparr>"

definition parse_proghdr :: "u8 list \<Rightarrow> proghdr" where
  "parse_proghdr d = \<lparr>ph_type = get32 d 0, ph_off = get32 d 4, ph_vaddr = get32 d 8, ph_filesz = get32 d 16, ph_memsz = get32 d 20\<rparr>"

text \<open>The loop over the program headers: the size reached, or \<open>None\<close> for \<open>goto bad\<close>.\<close>

fun load_segments :: "nat \<Rightarrow> u32 \<Rightarrow> nat \<Rightarrow> u32 \<Rightarrow> u32 \<Rightarrow> 'a fsst_scheme \<Rightarrow> err + (u32 option \<times> 'a fsst_scheme)" where
  "load_segments 0 off ip pd n s = Inr (Some n, s)"
| "load_segments (Suc k) off ip pd n s =
    bindE (readi ip off 32 s) (\<lambda>(r, d, s).
    if r \<noteq> 32 then Inr (None, s)
    else
      let ph = parse_proghdr d in
      if ph_type ph \<noteq> ELF_PROG_LOAD then load_segments k (off + 32) ip pd n s
      else if ph_memsz ph < ph_filesz ph then Inr (None, s)
      else if ph_vaddr ph + ph_memsz ph < ph_vaddr ph then Inr (None, s)
      else
        bindE (allocuvm pd n (ph_vaddr ph + ph_memsz ph) s) (\<lambda>(n, s).
        if n = 0 then Inr (None, s)
        else if ph_vaddr ph mod PGSIZE \<noteq> 0 then Inr (None, s)
        else
          bindE (loaduvm pd (ph_vaddr ph) ip (ph_off ph) (ph_filesz ph) s) (\<lambda>(r, s).
          if r < 0 then Inr (None, s)
          else load_segments k (off + 32) ip pd n s)))"

text \<open>\<open>copyout\<close> from a buffer given as the list of its bytes.\<close>

function copyout_buf :: "u32 \<Rightarrow> u32 \<Rightarrow> u8 list \<Rightarrow> 'a phys_scheme \<Rightarrow> err + (int \<times> 'a phys_scheme)" where
  "copyout_buf pd va buf s =
    (if buf = [] then Inr (0, s)
     else
       let va0 = PGROUNDDOWN va in
       bindE (uva2ka pd va0 s) (\<lambda>pa0.
       if pa0 = 0 then Inr (-1, s)
       else
         let n = min (4096 - unat (va - va0)) (length buf);
             s = s\<lparr>mem := fold (\<lambda>j mm. mm(pa0 + (va - va0) + of_nat j := buf ! j)) [0..<n] (mem s)\<rparr>
         in copyout_buf pd (va0 + PGSIZE) (drop n buf) s))"
  by pat_completeness auto
termination by (relation "measure (\<lambda>(pd, va, buf, s). length buf)") (auto simp: page_off_lt)

declare copyout_buf.simps [simp del]

text \<open>Pushing the argument strings: the stack pointer and the addresses pushed so far.\<close>

fun push_args :: "u8 list list \<Rightarrow> nat \<Rightarrow> u32 \<Rightarrow> u32 \<Rightarrow> u32 list \<Rightarrow> 'a phys_scheme \<Rightarrow> err + ((u32 \<times> u32 list) option \<times> 'a phys_scheme)" where
  "push_args [] argc pd sp us s = Inr (Some (sp, us), s)"
| "push_args (a # args) argc pd sp us s =
    (if argc \<ge> MAXARG then Inr (None, s)
     else
       let sp = (sp - (of_nat (length a) + 1)) AND NOT 3 in
       bindE (copyout_buf pd sp (a @ [0]) s) (\<lambda>(r, s).
       if r < 0 then Inr (None, s)
       else push_args args (Suc argc) pd sp (us @ [sp]) s))"

definition exec_bad :: "u32 \<Rightarrow> nat option \<Rightarrow> 'a fsst_scheme \<Rightarrow> err + (int \<times> 'a fsst_scheme)" where
  "exec_bad pd ipo s =
    bindE (if pd \<noteq> 0 then freevm pd s else Inr s) (\<lambda>s.
    bindE (case ipo of None \<Rightarrow> Inr s | Some ip \<Rightarrow> bindE (iunlockput ip s) end_op) (\<lambda>s.
    Inr (-1, s)))"

text \<open>The program name: what follows the last slash, cut to 15 bytes.\<close>

definition base_name :: "u8 list \<Rightarrow> u8 list" where
  "base_name path = rev (takeWhile (\<lambda>c. c \<noteq> slash) (rev path))"

text \<open>From the arguments on: the stack, the new image, the switch.\<close>

definition exec_commit :: "u8 list \<Rightarrow> u8 list list \<Rightarrow> nat \<Rightarrow> u32 \<Rightarrow> u32 \<Rightarrow> u32 \<Rightarrow> 'a fsst_scheme \<Rightarrow> err + (int \<times> 'a fsst_scheme)" where
  "exec_commit path argv cur pd n entry s =
    bindE (push_args argv 0 pd n [] s) (\<lambda>(r, s).
    case r of
      None \<Rightarrow> exec_bad pd None s
    | Some (sp, us) \<Rightarrow>
        let argc = of_nat (length us) :: u32;
            ustack = [0xffffffff, argc, sp - (argc + 1) * 4] @ us @ [0];
            sp = sp - (3 + argc + 1) * 4 in
        bindE (copyout_buf pd sp (concat (map bytes32 ustack)) s) (\<lambda>(r, s).
        if r < 0 then exec_bad pd None s
        else
          let s = upd_proc cur (\<lambda>p. p\<lparr>pname := take 15 (base_name path)\<rparr>) s;
              oldpd = pgdir (proc_at cur s);
              s = upd_proc cur (\<lambda>p. p\<lparr>pgdir := pd, sz := n\<rparr>) s;
              t = tf (proc_at cur s);
              s = s\<lparr>mem := store32 (store32 (mem s) (t + tf_eip) entry) (t + tf_esp) sp\<rparr> in
          bindE (switchuvm (Some cur) s) (\<lambda>s.
          bindE (mencrypt 0 (if n mod PGSIZE = 0 then sint (n div PGSIZE) else sint (n div PGSIZE + 1)) s) (\<lambda>(_, s).
          let s = upd_proc cur (\<lambda>p. p\<lparr>inClock := 0, currInd := 0\<rparr>) s in
          bindE (freevm oldpd s) (\<lambda>s.
          Inr (0, s))))))"

definition exec :: "u8 list \<Rightarrow> u8 list list \<Rightarrow> 'a fsst_scheme \<Rightarrow> err + (int \<times> 'a fsst_scheme)" where
  "exec path argv s =
    bindE (myproc s) (\<lambda>cur.
    bindE (begin_op s) (\<lambda>s.
    bindE (namei path s) (\<lambda>(ipo, s).
    case ipo of
      None \<Rightarrow> bindE (end_op s) (\<lambda>s. Inr (-1, s))
    | Some ip \<Rightarrow>
        bindE (ilock ip s) (\<lambda>s.
        bindE (readi ip 0 52 s) (\<lambda>(r, d, s).
        if r \<noteq> 52 then exec_bad 0 (Some ip) s
        else
          let elf = parse_elfhdr d in
          if elf_magic elf \<noteq> ELF_MAGIC then exec_bad 0 (Some ip) s
          else
            bindE (setupkvm s) (\<lambda>(pd, s).
            if pd = 0 then exec_bad 0 (Some ip) s
            else
              bindE (load_segments (unat (elf_phnum elf)) (elf_phoff elf) ip pd 0 s) (\<lambda>(no, s).
              case no of
                None \<Rightarrow> exec_bad pd (Some ip) s
              | Some n \<Rightarrow>
                  bindE (iunlockput ip s) (\<lambda>s.
                  bindE (end_op s) (\<lambda>s.
                  let n = PGROUNDUP n in
                  bindE (allocuvm pd n (n + 2 * PGSIZE) s) (\<lambda>(n, s).
                  if n = 0 then exec_bad pd None s
                  else
                    bindE (clearpteu pd (n - 2 * PGSIZE) s) (\<lambda>s.
                    exec_commit path argv cur pd n (elf_entry elf) s)))))))))))"

end
