(* ===== verification/Procs.thy ===== *)
theory Procs
  imports Exec
begin

text \<open>
  The life of processes, \<^verbatim>\<open>src/src/proc.c\<close>: the first process, \<open>fork\<close>, \<open>exit\<close> and the first return of a child. The clock part of
  \<open>fork\<close> is \<open>fork_clock\<close> of theory \<open>Crypt\<close>. \<open>exit\<close> ends in the switch to the scheduler, which is when its
  process gives up the processor.
\<close>

section \<open>userinit\<close>

text \<open>The linker provides the address and the size of the first program.\<close>

definition userinit :: "u32 \<Rightarrow> u32 \<Rightarrow> 'a fsst_scheme \<Rightarrow> err + 'a fsst_scheme" where
  "userinit initcode initsize s =
    bindE (allocproc s) (\<lambda>(po, s).
    let s = s\<lparr>initproc := po\<rparr> in
    case po of
      None \<Rightarrow> Inl NullDeref
    | Some p \<Rightarrow>
        bindE (setupkvm s) (\<lambda>(pd, s).
        let s = upd_proc p (\<lambda>q. q\<lparr>pgdir := pd\<rparr>) s in
        if pd = 0 then Inl (Panic ''userinit: out of memory?'')
        else
          bindE (inituvm pd initcode initsize s) (\<lambda>s.
          let s = upd_proc p (\<lambda>q. q\<lparr>sz := PGSIZE\<rparr>) s;
              t = tf (proc_at p s);
              m = memset (mem s) t 0 tf_size;
              uc = push_bit 3 SEG_UCODE OR DPL_USER;
              ud = push_bit 3 SEG_UDATA OR DPL_USER;
              m = store32 m (t + tf_cs) uc;
              m = store32 m (t + tf_ds) ud;
              m = store32 m (t + tf_es) ud;
              m = store32 m (t + tf_ss) ud;
              m = store32 m (t + tf_eflags) FL_IF;
              m = store32 m (t + tf_esp) PGSIZE;
              m = store32 m (t + tf_eip) 0;
              s = s\<lparr>mem := m\<rparr>;
              s = upd_proc p (\<lambda>q. q\<lparr>pname := [105, 110, 105, 116, 99, 111, 100, 101]\<rparr>) s in
          bindE (namei [slash] s) (\<lambda>(ipo, s).
          Inr (upd_proc p (\<lambda>q. q\<lparr>cwd := ipo, pstate := RUNNABLE\<rparr>) s)))))"

section \<open>fork\<close>

fun fork_files :: "nat list \<Rightarrow> nat \<Rightarrow> nat \<Rightarrow> 'a filest_scheme \<Rightarrow> err + 'a filest_scheme" where
  "fork_files [] cur np s = Inr s"
| "fork_files (i # is) cur np s =
    (case ofile (proc_at cur s) ! i of
       None \<Rightarrow> fork_files is cur np s
     | Some f \<Rightarrow>
         bindE (filedup f s) (\<lambda>s.
         fork_files is cur np (upd_proc np (\<lambda>q. q\<lparr>ofile := (ofile q)[i := Some f]\<rparr>) s)))"

definition fork :: "'a filest_scheme \<Rightarrow> err + (int \<times> 'a filest_scheme)" where
  "fork s =
    bindE (myproc s) (\<lambda>cur.
    bindE (allocproc s) (\<lambda>(npo, s).
    case npo of
      None \<Rightarrow> Inr (-1, s)
    | Some np \<Rightarrow>
        bindE (copyuvm (pgdir (proc_at cur s)) (sz (proc_at cur s)) s) (\<lambda>(d, s).
        let s = upd_proc np (\<lambda>q. q\<lparr>pgdir := d\<rparr>) s in
        if d = 0 then
          bindE (kfree (kstack (proc_at np s)) s) (\<lambda>s.
          Inr (-1, upd_proc np (\<lambda>q. q\<lparr>kstack := 0, pstate := UNUSED\<rparr>) s))
        else
          bindE (fork_clock cur np s) (\<lambda>s.
          let s = upd_proc np (\<lambda>q. q\<lparr>sz := sz (proc_at cur s), parent := Some cur\<rparr>) s;
              s = s\<lparr>mem := memmove (mem s) (tf (proc_at np s)) (tf (proc_at cur s)) tf_size\<rparr>;
              s = s\<lparr>mem := store32 (mem s) (tf (proc_at np s) + tf_eax) 0\<rparr> in
          bindE (fork_files [0..<NOFILE] cur np s) (\<lambda>s.
          case cwd (proc_at cur s) of
            None \<Rightarrow> Inl NullDeref
          | Some i \<Rightarrow>
              let s = upd_proc np (\<lambda>q. q\<lparr>cwd := Some i\<rparr>) (idup i s);
                  s = upd_proc np (\<lambda>q. q\<lparr>pname := take 15 (pname (proc_at cur s))\<rparr>) s
              in Inr (pid (proc_at np s), upd_proc np (\<lambda>q. q\<lparr>pstate := RUNNABLE\<rparr>) s))))))"

section \<open>exit\<close>

fun exit_files :: "nat list \<Rightarrow> nat \<Rightarrow> 'a filest_scheme \<Rightarrow> err + 'a filest_scheme" where
  "exit_files [] cur s = Inr s"
| "exit_files (fd # fds) cur s =
    (case ofile (proc_at cur s) ! fd of
       None \<Rightarrow> exit_files fds cur s
     | Some f \<Rightarrow>
         bindE (fileclose f s) (\<lambda>s.
         exit_files fds cur (upd_proc cur (\<lambda>q. q\<lparr>ofile := (ofile q)[fd := None]\<rparr>) s)))"

text \<open>\<open>wakeup1\<close> of a process pointer; nobody sleeps on a null channel.\<close>

definition wakeup_proc :: "nat option \<Rightarrow> 'a kst_scheme \<Rightarrow> 'a kst_scheme" where
  "wakeup_proc po s = (case po of None \<Rightarrow> s | Some p \<Rightarrow> wakeup1 (ChanProc p) s)"

fun reparent :: "nat list \<Rightarrow> nat \<Rightarrow> 'a kst_scheme \<Rightarrow> 'a kst_scheme" where
  "reparent [] cur s = s"
| "reparent (p # ps) cur s =
    (if parent (proc_at p s) = Some cur then
       let s = upd_proc p (\<lambda>q. q\<lparr>parent := initproc s\<rparr>) s
       in reparent ps cur (if pstate (proc_at p s) = ZOMBIE then wakeup_proc (initproc s) s else s)
     else reparent ps cur s)"

text \<open>The part of \<open>exit\<close> under \<open>ptable.lock\<close>.\<close>

definition exit_table :: "nat \<Rightarrow> 'a kst_scheme \<Rightarrow> 'a kst_scheme" where
  "exit_table cur s =
    (let s = wakeup_proc (parent (proc_at cur s)) s;
         s = reparent [0..<NPROC] cur s;
         s = upd_proc cur (\<lambda>q. q\<lparr>pstate := ZOMBIE\<rparr>) s
     in s\<lparr>cpu_proc := None\<rparr>)"

definition exit :: "'a filest_scheme \<Rightarrow> err + 'a filest_scheme" where
  "exit s =
    bindE (myproc s) (\<lambda>cur.
    if initproc s = Some cur then Inl (Panic ''init exiting'')
    else
      bindE (exit_files [0..<NOFILE] cur s) (\<lambda>s.
      bindE (begin_op s) (\<lambda>s.
      case cwd (proc_at cur s) of
        None \<Rightarrow> Inl NullDeref
      | Some i \<Rightarrow>
          bindE (iput i s) (\<lambda>s.
          bindE (end_op s) (\<lambda>s.
          Inr (exit_table cur (upd_proc cur (\<lambda>q. q\<lparr>cwd := None\<rparr>) s)))))))"

text \<open>\<open>forkret\<close>: the first process of all initialises the file system. \<open>first\<close> is the static variable.\<close>

definition forkret :: "bool \<Rightarrow> 'a fsst_scheme \<Rightarrow> err + (bool \<times> 'a fsst_scheme)" where
  "forkret first s =
    (if first then
       bindE (iinit ROOTDEV s) (\<lambda>s.
       bindE (initlog ROOTDEV s) (\<lambda>s.
       Inr (False, s)))
     else Inr (first, s))"

section \<open>Adoption\<close>

text \<open>What waking the channel of process \<open>po\<close> does to one process.\<close>

definition wake :: "nat option \<Rightarrow> proc \<Rightarrow> proc" where
  "wake po q = (if pstate q = SLEEPING \<and> po \<noteq> None \<and> pchan q = map_option ChanProc po then q\<lparr>pstate := RUNNABLE\<rparr> else q)"

lemma wakeup_proc_frame:
  "length (ptable (wakeup_proc po s)) = length (ptable s)"
  "initproc (wakeup_proc po s) = initproc s"
  "i < length (ptable s) \<Longrightarrow> proc_at i (wakeup_proc po s) = wake po (proc_at i s)"
  by (auto simp: wakeup_proc_def wakeup1_def proc_at_def wake_def split: option.splits)

lemma wake_facts:
  "parent (wake po q) = parent q" "pstate (wake po q) = ZOMBIE \<longleftrightarrow> pstate q = ZOMBIE" "wake po (wake po q) = wake po q"
  "wake po (q\<lparr>parent := x\<rparr>) = (wake po q)\<lparr>parent := x\<rparr>" "pchan (wake po q) = pchan q"
  by (simp_all add: wake_def)

text \<open>The loop over the table hands every child of \<open>cur\<close> to the initial process and wakes that one if a child is a zombie.\<close>

abbreviation zombie_child :: "nat set \<Rightarrow> nat \<Rightarrow> 'a kst_scheme \<Rightarrow> bool" where
  "zombie_child ps cur s \<equiv> (\<exists>j\<in>ps. parent (proc_at j s) = Some cur \<and> pstate (proc_at j s) = ZOMBIE)"

definition handed :: "nat set \<Rightarrow> nat \<Rightarrow> 'a kst_scheme \<Rightarrow> nat \<Rightarrow> proc" where
  "handed ps cur s i =
    (let q = (if zombie_child ps cur s then wake (initproc s) (proc_at i s) else proc_at i s)
     in if i \<in> ps \<and> parent (proc_at i s) = Some cur then q\<lparr>parent := initproc s\<rparr> else q)"

lemma handed_step:
  assumes t: "\<And>i. i < n \<Longrightarrow> proc_at i t = (if pstate (proc_at p s) = ZOMBIE then wake (initproc s) else id)
        (if i = p then (proc_at p s)\<lparr>parent := initproc s\<rparr> else proc_at i s)"
    and ip: "initproc t = initproc s" and p: "parent (proc_at p s) = Some cur" "p \<notin> ps" and ps: "ps \<subseteq> {..<n}" and i: "i < n"
  shows "handed ps cur t i = handed (insert p ps) cur s i"
proof -
  have ch: "parent (proc_at j t) = parent (proc_at j s)" "pstate (proc_at j t) = ZOMBIE \<longleftrightarrow> pstate (proc_at j s) = ZOMBIE" if "j \<in> ps" for j
  proof -
    have "j \<noteq> p" "j < n" using that p(2) ps by auto
    then show "parent (proc_at j t) = parent (proc_at j s)" "pstate (proc_at j t) = ZOMBIE \<longleftrightarrow> pstate (proc_at j s) = ZOMBIE"
      using t [of j] by (auto simp: wake_facts)
  qed
  then have z: "zombie_child ps cur t = zombie_child ps cur s" by auto
  show ?thesis
  proof (cases "i = p")
    case True
    then show ?thesis using t [OF i] p z unfolding handed_def Let_def ip by (auto simp: wake_facts)
  next
    case False
    then show ?thesis using t [OF i] p z ch [of i] unfolding handed_def Let_def ip by (auto simp: wake_facts)
  qed
qed

lemma reparent_handed:
  "distinct ps \<Longrightarrow> set ps \<subseteq> {..<length (ptable s)} \<Longrightarrow>
   length (ptable (reparent ps cur s)) = length (ptable s) \<and>
   (\<forall>i<length (ptable s). proc_at i (reparent ps cur s) = handed (set ps) cur s i)"
proof (induction ps cur s rule: reparent.induct)
  case (1 cur s)
  then show ?case by (simp add: handed_def)
next
  case (2 p ps cur s)
  let ?s1 = "upd_proc p (\<lambda>q. q\<lparr>parent := initproc s\<rparr>) s"
  define t where "t = (if pstate (proc_at p ?s1) = ZOMBIE then wakeup_proc (initproc ?s1) ?s1 else ?s1)"
  have p: "p < length (ptable s)" "p \<notin> set ps" "set ps \<subseteq> {..<length (ptable s)}" using 2(3,4) by auto
  have s1: "length (ptable ?s1) = length (ptable s)" "initproc ?s1 = initproc s"
    "proc_at i ?s1 = (if i = p then (proc_at p s)\<lparr>parent := initproc s\<rparr> else proc_at i s)" for i
    using p by (auto simp: upd_proc_def proc_at_def)
  have s2: "length (ptable t) = length (ptable s)" "initproc t = initproc s"
    "i < length (ptable s) \<Longrightarrow> proc_at i t = (if pstate (proc_at p s) = ZOMBIE then wake (initproc s) else id)
      (if i = p then (proc_at p s)\<lparr>parent := initproc s\<rparr> else proc_at i s)" for i
    using wakeup_proc_frame [where po = "initproc ?s1" and s = ?s1] s1 by (auto simp: t_def)
  show ?case
  proof (cases "parent (proc_at p s) = Some cur")
    case True
    have r: "reparent (p # ps) cur s = reparent ps cur t" using True by (simp add: Let_def t_def)
    have "distinct ps" "set ps \<subseteq> {..<length (ptable t)}" using 2(3) p s2(1) by simp_all
    note ih = 2(1) [OF True refl, folded t_def, OF this]
    show ?thesis unfolding r
      using ih s2(1) handed_step [of "length (ptable s)" t p s cur "set ps", OF s2(3,2) True p(2,3)] by simp
  next
    case False
    then have "handed (set (p # ps)) cur s i = handed (set ps) cur s i" for i by (auto simp: handed_def Let_def)
    then show ?thesis using False 2(2) 2(3) p(3) by simp
  qed
qed


text \<open>An example: process 2 exits; its parent 1 and the initial process sleep in \<open>wait\<close>, 3 and the zombie 4 are its children, 5 is a child of 1.\<close>

definition exitst0 :: pipest where
  "exitst0 = pipest0\<lparr>initproc := Some 0, ptable := (replicate 64 (pproc UNUSED None False))
     [0 := pproc SLEEPING (Some (ChanProc 0)) False,
      1 := pproc SLEEPING (Some (ChanProc 1)) False,
      2 := (pproc RUNNING None False)\<lparr>parent := Some 1\<rparr>,
      3 := (pproc SLEEPING (Some ChanTicks) False)\<lparr>parent := Some 2\<rparr>,
      4 := (pproc ZOMBIE None False)\<lparr>parent := Some 2\<rparr>,
      5 := (pproc SLEEPING (Some ChanTicks) False)\<lparr>parent := Some 1\<rparr>]\<rparr>"


end
