(* ===== verification/Sysfile.thy ===== *)
theory Sysfile
  imports Procs
begin

text \<open>
  The file system calls, \<^verbatim>\<open>src/src/sysfile.c\<close>. A call returns a value (\<open>Ret\<close>) or leaves its process asleep in the kernel
  (\<open>Asleep\<close>). Data that a call copies between user memory and a file is copied through the page tables before or
  after the transfer; the source interleaves the two.
\<close>

datatype sysret = Ret int | Asleep

section \<open>Descriptors\<close>

definition argfd :: "nat \<Rightarrow> 'a filest_scheme \<Rightarrow> err + ((nat \<times> nat) option \<times> 'a filest_scheme)" where
  "argfd n s = bindE (argint n s) (\<lambda>(r, s).
     case r of
       None \<Rightarrow> Inr (None, s)
     | Some fd \<Rightarrow>
         if sint fd < 0 \<or> sint fd \<ge> int NOFILE then Inr (None, s)
         else bindE (myproc s) (\<lambda>p.
           Inr (map_option (Pair (unat fd)) (ofile (proc_at p s) ! unat fd), s)))"

definition fdalloc :: "nat \<Rightarrow> 'a kst_scheme \<Rightarrow> err + (nat option \<times> 'a kst_scheme)" where
  "fdalloc f s = bindE (myproc s) (\<lambda>p.
     case find (\<lambda>fd. ofile (proc_at p s) ! fd = None) [0..<NOFILE] of
       None \<Rightarrow> Inr (None, s)
     | Some fd \<Rightarrow> Inr (Some fd, upd_proc p (\<lambda>q. q\<lparr>ofile := (ofile q)[fd := Some f]\<rparr>) s))"

definition sys_dup :: "'a filest_scheme \<Rightarrow> err + (sysret \<times> 'a filest_scheme)" where
  "sys_dup s = bindE (argfd 0 s) (\<lambda>(r, s).
     case r of
       None \<Rightarrow> Inr (Ret (-1), s)
     | Some (_, f) \<Rightarrow>
         bindE (fdalloc f s) (\<lambda>(r, s).
         case r of
           None \<Rightarrow> Inr (Ret (-1), s)
         | Some fd \<Rightarrow> bindE (filedup f s) (\<lambda>s. Inr (Ret (int fd), s))))"

text \<open>The arguments of \<open>read\<close> and \<open>write\<close>: file, buffer and length.\<close>

definition rw_args :: "'a filest_scheme \<Rightarrow> err + ((nat \<times> u32 \<times> int) option \<times> 'a filest_scheme)" where
  "rw_args s = bindE (argfd 0 s) (\<lambda>(r, s).
     case r of
       None \<Rightarrow> Inr (None, s)
     | Some (_, f) \<Rightarrow>
         bindE (argint 2 s) (\<lambda>(r, s).
         case r of
           None \<Rightarrow> Inr (None, s)
         | Some n \<Rightarrow>
             bindE (argptr 1 (sint n) s) (\<lambda>(r, s).
             Inr (map_option (\<lambda>p. (f, p, sint n)) r, s))))"

definition sys_read :: "'a filest_scheme \<Rightarrow> err + (sysret \<times> 'a filest_scheme)" where
  "sys_read s = bindE (rw_args s) (\<lambda>(r, s).
     case r of
       None \<Rightarrow> Inr (Ret (-1), s)
     | Some (f, p, n) \<Rightarrow>
         bindE (fileread f n s) (\<lambda>(r, s).
         case r of
           None \<Rightarrow> Inr (Asleep, s)
         | Some (v, bs) \<Rightarrow> bindE (kstores bs p s) (\<lambda>s. Inr (Ret v, s))))"

definition sys_write :: "'a filest_scheme \<Rightarrow> err + (sysret \<times> 'a filest_scheme)" where
  "sys_write s = bindE (rw_args s) (\<lambda>(r, s).
     case r of
       None \<Rightarrow> Inr (Ret (-1), s)
     | Some (f, p, n) \<Rightarrow>
         bindE (kloads (nat n) p s) (\<lambda>(bs, s).
         bindE (filewrite f bs n s) (\<lambda>(w, s).
         Inr (case w of Wrote v \<Rightarrow> Ret v | WriteSleeps _ \<Rightarrow> Asleep, s))))"

definition sys_close :: "'a filest_scheme \<Rightarrow> err + (sysret \<times> 'a filest_scheme)" where
  "sys_close s = bindE (argfd 0 s) (\<lambda>(r, s).
     case r of
       None \<Rightarrow> Inr (Ret (-1), s)
     | Some (fd, f) \<Rightarrow>
         bindE (myproc s) (\<lambda>p.
         bindE (fileclose f (upd_proc p (\<lambda>q. q\<lparr>ofile := (ofile q)[fd := None]\<rparr>) s)) (\<lambda>s.
         Inr (Ret 0, s))))"

definition bytes16 :: "u16 \<Rightarrow> u8 list" where
  "bytes16 v = put16 (replicate 2 0) 0 v"

text \<open>The members of \<open>struct stat\<close> at their offsets.\<close>

definition kstore_stat :: "stat \<Rightarrow> u32 \<Rightarrow> 'a kst_scheme \<Rightarrow> err + 'a kst_scheme" where
  "kstore_stat st p s =
    bindE (kstores (bytes32 (st_dev st)) (p + 4) s) (\<lambda>s.
    bindE (kstores (bytes32 (st_ino st)) (p + 8) s) (\<lambda>s.
    bindE (kstores (bytes16 (st_type st)) p s) (\<lambda>s.
    bindE (kstores (bytes16 (st_nlink st)) (p + 12) s) (\<lambda>s.
    kstores (bytes32 (st_size st)) (p + 16) s))))"

definition sys_fstat :: "'a filest_scheme \<Rightarrow> err + (sysret \<times> 'a filest_scheme)" where
  "sys_fstat s = bindE (argfd 0 s) (\<lambda>(r, s).
     case r of
       None \<Rightarrow> Inr (Ret (-1), s)
     | Some (_, f) \<Rightarrow>
         bindE (argptr 1 20 s) (\<lambda>(r, s).
         case r of
           None \<Rightarrow> Inr (Ret (-1), s)
         | Some p \<Rightarrow>
             bindE (filestat f s) (\<lambda>(r, s).
             case r of
               None \<Rightarrow> Inr (Ret (-1), s)
             | Some st \<Rightarrow> bindE (kstore_stat st p s) (\<lambda>s. Inr (Ret 0, s)))))"

section \<open>Links\<close>

definition link_bad :: "nat \<Rightarrow> 'a filest_scheme \<Rightarrow> err + (sysret \<times> 'a filest_scheme)" where
  "link_bad ip s =
    bindE (ilock ip s) (\<lambda>s.
    bindE (iupdate ip (upd_inode ip (\<lambda>x. x\<lparr>nlink := nlink x - 1\<rparr>) s)) (\<lambda>s.
    bindE (iunlockput ip s) (\<lambda>s.
    bindE (end_op s) (\<lambda>s.
    Inr (Ret (-1), s)))))"

definition sys_link :: "'a filest_scheme \<Rightarrow> err + (sysret \<times> 'a filest_scheme)" where
  "sys_link s =
    bindE (argstr 0 s) (\<lambda>(ro, s).
    case ro of None \<Rightarrow> Inr (Ret (-1), s) | Some old \<Rightarrow>
    bindE (argstr 1 s) (\<lambda>(rn, s).
    case rn of None \<Rightarrow> Inr (Ret (-1), s) | Some new \<Rightarrow>
    bindE (begin_op s) (\<lambda>s.
    bindE (namei old s) (\<lambda>(ipo, s).
    case ipo of
      None \<Rightarrow> bindE (end_op s) (\<lambda>s. Inr (Ret (-1), s))
    | Some ip \<Rightarrow>
        bindE (ilock ip s) (\<lambda>s.
        if itype (inode_at ip s) = T_DIR then
          bindE (iunlockput ip s) (\<lambda>s. bindE (end_op s) (\<lambda>s. Inr (Ret (-1), s)))
        else
          bindE (iupdate ip (upd_inode ip (\<lambda>x. x\<lparr>nlink := nlink x + 1\<rparr>) s)) (\<lambda>s.
          bindE (iunlock ip s) (\<lambda>s.
          bindE (nameiparent new s) (\<lambda>(dpo, s).
          case dpo of
            None \<Rightarrow> link_bad ip s
          | Some (dp, name) \<Rightarrow>
              bindE (ilock dp s) (\<lambda>s.
              bindE (if idev (inode_at dp s) \<noteq> idev (inode_at ip s) then Inr (-1, s)
                     else dirlink dp name (inum (inode_at ip s)) s) (\<lambda>(r, s).
              if r < 0 then bindE (iunlockput dp s) (link_bad ip)
              else
                bindE (iunlockput dp s) (\<lambda>s.
                bindE (iput ip s) (\<lambda>s.
                bindE (end_op s) (\<lambda>s.
                Inr (Ret 0, s))))))))))))))"

fun isdirempty_loop :: "nat \<Rightarrow> u32 list \<Rightarrow> 'a fsst_scheme \<Rightarrow> err + (bool \<times> 'a fsst_scheme)" where
  "isdirempty_loop dp [] s = Inr (True, s)"
| "isdirempty_loop dp (off # offs) s =
    bindE (read_dirent ''isdirempty: readi'' dp off s) (\<lambda>(de, s).
    if de_inum de \<noteq> 0 then Inr (False, s) else isdirempty_loop dp offs s)"

definition isdirempty :: "nat \<Rightarrow> 'a fsst_scheme \<Rightarrow> err + (bool \<times> 'a fsst_scheme)" where
  "isdirempty dp s = isdirempty_loop dp (dir_offs 32 (isize (inode_at dp s))) s"

definition unlink_bad :: "nat \<Rightarrow> 'a filest_scheme \<Rightarrow> err + (sysret \<times> 'a filest_scheme)" where
  "unlink_bad dp s = bindE (iunlockput dp s) (\<lambda>s. bindE (end_op s) (\<lambda>s. Inr (Ret (-1), s)))"

text \<open>From the locked inode of the entry on.\<close>

definition unlink_entry :: "nat \<Rightarrow> nat \<Rightarrow> u32 \<Rightarrow> 'a filest_scheme \<Rightarrow> err + (sysret \<times> 'a filest_scheme)" where
  "unlink_entry dp ip off s =
    (if sint (nlink (inode_at ip s)) < 1 then Inl (Panic ''unlink: nlink < 1'')
     else
       bindE (if itype (inode_at ip s) = T_DIR then isdirempty ip s else Inr (True, s)) (\<lambda>(em, s).
       if \<not> em then bindE (iunlockput ip s) (unlink_bad dp)
       else
         bindE (writei dp (replicate 16 0) off 16 s) (\<lambda>(r, s).
         if r \<noteq> 16 then Inl (Panic ''unlink: writei'')
         else
           bindE (if itype (inode_at ip s) = T_DIR
                  then iupdate dp (upd_inode dp (\<lambda>x. x\<lparr>nlink := nlink x - 1\<rparr>) s) else Inr s) (\<lambda>s.
           bindE (iunlockput dp s) (\<lambda>s.
           bindE (iupdate ip (upd_inode ip (\<lambda>x. x\<lparr>nlink := nlink x - 1\<rparr>) s)) (\<lambda>s.
           bindE (iunlockput ip s) (\<lambda>s.
           bindE (end_op s) (\<lambda>s.
           Inr (Ret 0, s)))))))))"

definition sys_unlink :: "'a filest_scheme \<Rightarrow> err + (sysret \<times> 'a filest_scheme)" where
  "sys_unlink s =
    bindE (argstr 0 s) (\<lambda>(r, s).
    case r of None \<Rightarrow> Inr (Ret (-1), s) | Some path \<Rightarrow>
    bindE (begin_op s) (\<lambda>s.
    bindE (nameiparent path s) (\<lambda>(dpo, s).
    case dpo of
      None \<Rightarrow> bindE (end_op s) (\<lambda>s. Inr (Ret (-1), s))
    | Some (dp, name) \<Rightarrow>
        bindE (ilock dp s) (\<lambda>s.
        if namecmp name [46] = 0 \<or> namecmp name [46, 46] = 0 then unlink_bad dp s
        else
          bindE (dirlookup dp name s) (\<lambda>(r, s).
          case r of
            None \<Rightarrow> unlink_bad dp s
          | Some (ip, off) \<Rightarrow> bindE (ilock ip s) (unlink_entry dp ip off))))))"

section \<open>Creating and opening\<close>

definition create_dots :: "nat \<Rightarrow> nat \<Rightarrow> 'a fsst_scheme \<Rightarrow> err + 'a fsst_scheme" where
  "create_dots dp ip s =
    bindE (iupdate dp (upd_inode dp (\<lambda>x. x\<lparr>nlink := nlink x + 1\<rparr>) s)) (\<lambda>s.
    bindE (dirlink ip [46] (inum (inode_at ip s)) s) (\<lambda>(r, s).
    if r < 0 then Inl (Panic ''create dots'')
    else bindE (dirlink ip [46, 46] (inum (inode_at dp s)) s) (\<lambda>(r, s).
      if r < 0 then Inl (Panic ''create dots'') else Inr s)))"

definition create :: "u8 list \<Rightarrow> u16 \<Rightarrow> u16 \<Rightarrow> u16 \<Rightarrow> 'a fsst_scheme \<Rightarrow> err + (nat option \<times> 'a fsst_scheme)" where
  "create path ty major minor s =
    bindE (nameiparent path s) (\<lambda>(dpo, s).
    case dpo of
      None \<Rightarrow> Inr (None, s)
    | Some (dp, name) \<Rightarrow>
        bindE (ilock dp s) (\<lambda>s.
        bindE (dirlookup dp name s) (\<lambda>(r, s).
        case r of
          Some (ip, _) \<Rightarrow>
            bindE (iunlockput dp s) (\<lambda>s.
            bindE (ilock ip s) (\<lambda>s.
            if ty = T_FILE \<and> itype (inode_at ip s) = T_FILE then Inr (Some ip, s)
            else bindE (iunlockput ip s) (\<lambda>s. Inr (None, s))))
        | None \<Rightarrow>
            bindE (ialloc (idev (inode_at dp s)) ty s) (\<lambda>(ip, s).
            bindE (ilock ip s) (\<lambda>s.
            bindE (iupdate ip (upd_inode ip (\<lambda>x. x\<lparr>imajor := major, iminor := minor, nlink := 1\<rparr>) s)) (\<lambda>s.
            bindE (if ty = T_DIR then create_dots dp ip s else Inr s) (\<lambda>s.
            bindE (dirlink dp name (inum (inode_at ip s)) s) (\<lambda>(r, s).
            if r < 0 then Inl (Panic ''create: dirlink'')
            else bindE (iunlockput dp s) (\<lambda>s. Inr (Some ip, s))))))))))"

definition O_WRONLY :: u32 where [simp]: "O_WRONLY = 1"
definition O_RDWR :: u32 where [simp]: "O_RDWR = 2"
definition O_CREATE :: u32 where [simp]: "O_CREATE = 0x200"

text \<open>A locked inode to open, or \<open>None\<close> for the early failures.\<close>

definition open_inode :: "u8 list \<Rightarrow> u32 \<Rightarrow> 'a fsst_scheme \<Rightarrow> err + (nat option \<times> 'a fsst_scheme)" where
  "open_inode path omode s =
    (if omode AND O_CREATE \<noteq> 0 then create path T_FILE 0 0 s
     else
       bindE (namei path s) (\<lambda>(ipo, s).
       case ipo of
         None \<Rightarrow> Inr (None, s)
       | Some ip \<Rightarrow>
           bindE (ilock ip s) (\<lambda>s.
           if itype (inode_at ip s) = T_DIR \<and> omode \<noteq> 0 then bindE (iunlockput ip s) (\<lambda>s. Inr (None, s))
           else Inr (Some ip, s))))"

definition open_fail :: "nat option \<Rightarrow> nat \<Rightarrow> 'a filest_scheme \<Rightarrow> err + (sysret \<times> 'a filest_scheme)" where
  "open_fail fo ip s =
    bindE (case fo of None \<Rightarrow> Inr s | Some f \<Rightarrow> fileclose f s) (\<lambda>s.
    bindE (iunlockput ip s) (\<lambda>s.
    bindE (end_op s) (\<lambda>s.
    Inr (Ret (-1), s))))"

definition sys_open :: "'a filest_scheme \<Rightarrow> err + (sysret \<times> 'a filest_scheme)" where
  "sys_open s =
    bindE (argstr 0 s) (\<lambda>(r, s).
    case r of None \<Rightarrow> Inr (Ret (-1), s) | Some path \<Rightarrow>
    bindE (argint 1 s) (\<lambda>(r, s).
    case r of None \<Rightarrow> Inr (Ret (-1), s) | Some omode \<Rightarrow>
    bindE (begin_op s) (\<lambda>s.
    bindE (open_inode path omode s) (\<lambda>(ipo, s).
    case ipo of
      None \<Rightarrow> bindE (end_op s) (\<lambda>s. Inr (Ret (-1), s))
    | Some ip \<Rightarrow>
        (case filealloc s of
           (None, s) \<Rightarrow> open_fail None ip s
         | (Some f, s) \<Rightarrow>
             bindE (fdalloc f s) (\<lambda>(r, s).
             case r of
               None \<Rightarrow> open_fail (Some f) ip s
             | Some fd \<Rightarrow>
                 bindE (iunlock ip s) (\<lambda>s.
                 bindE (end_op s) (\<lambda>s.
                 Inr (Ret (int fd), upd_file f (\<lambda>x. x\<lparr>ftype := FD_INODE, fip := ip, foff := 0,
                   freadable := (omode AND O_WRONLY = 0),
                   fwritable := (omode AND O_WRONLY \<noteq> 0 \<or> omode AND O_RDWR \<noteq> 0)\<rparr>) s)))))))))"

definition make_and_put :: "nat option \<times> 'a fsst_scheme \<Rightarrow> err + (sysret \<times> 'a fsst_scheme)" where
  "make_and_put r =
    (case r of
       (None, s) \<Rightarrow> bindE (end_op s) (\<lambda>s. Inr (Ret (-1), s))
     | (Some ip, s) \<Rightarrow> bindE (iunlockput ip s) (\<lambda>s. bindE (end_op s) (\<lambda>s. Inr (Ret 0, s))))"

definition sys_mkdir :: "'a fsst_scheme \<Rightarrow> err + (sysret \<times> 'a fsst_scheme)" where
  "sys_mkdir s =
    bindE (begin_op s) (\<lambda>s.
    bindE (argstr 0 s) (\<lambda>(r, s).
    case r of
      None \<Rightarrow> make_and_put (None, s)
    | Some path \<Rightarrow> bindE (create path T_DIR 0 0 s) make_and_put))"

definition sys_mknod :: "'a fsst_scheme \<Rightarrow> err + (sysret \<times> 'a fsst_scheme)" where
  "sys_mknod s =
    bindE (begin_op s) (\<lambda>s.
    bindE (argstr 0 s) (\<lambda>(r, s).
    case r of None \<Rightarrow> make_and_put (None, s) | Some path \<Rightarrow>
    bindE (argint 1 s) (\<lambda>(r, s).
    case r of None \<Rightarrow> make_and_put (None, s) | Some major \<Rightarrow>
    bindE (argint 2 s) (\<lambda>(r, s).
    case r of None \<Rightarrow> make_and_put (None, s) | Some minor \<Rightarrow>
    bindE (create path T_DEV (ucast major) (ucast minor) s) make_and_put))))"

definition sys_chdir :: "'a fsst_scheme \<Rightarrow> err + (sysret \<times> 'a fsst_scheme)" where
  "sys_chdir s =
    bindE (myproc s) (\<lambda>cur.
    bindE (begin_op s) (\<lambda>s.
    bindE (argstr 0 s) (\<lambda>(r, s).
    bindE (case r of None \<Rightarrow> Inr (None, s) | Some path \<Rightarrow> namei path s) (\<lambda>(ipo, s).
    case ipo of
      None \<Rightarrow> bindE (end_op s) (\<lambda>s. Inr (Ret (-1), s))
    | Some ip \<Rightarrow>
        bindE (ilock ip s) (\<lambda>s.
        if itype (inode_at ip s) \<noteq> T_DIR then
          bindE (iunlockput ip s) (\<lambda>s. bindE (end_op s) (\<lambda>s. Inr (Ret (-1), s)))
        else
          bindE (iunlock ip s) (\<lambda>s.
          case cwd (proc_at cur s) of
            None \<Rightarrow> Inl NullDeref
          | Some old \<Rightarrow>
              bindE (iput old s) (\<lambda>s.
              bindE (end_op s) (\<lambda>s.
              Inr (Ret 0, upd_proc cur (\<lambda>q. q\<lparr>cwd := Some ip\<rparr>) s)))))))))"

section \<open>exec and pipe\<close>

text \<open>The loop over \<open>argv\<close>, which has \<open>MAXARG\<close> places: the argument strings, or \<open>None\<close> for \<open>-1\<close>.\<close>

fun exec_args :: "nat \<Rightarrow> u32 \<Rightarrow> 'a kst_scheme \<Rightarrow> err + (u8 list list option \<times> 'a kst_scheme)" where
  "exec_args 0 uargv s = Inr (None, s)"
| "exec_args (Suc n) uargv s =
    bindE (fetchint uargv s) (\<lambda>(r, s).
    case r of
      None \<Rightarrow> Inr (None, s)
    | Some uarg \<Rightarrow>
        if uarg = 0 then Inr (Some [], s)
        else
          bindE (fetchstr uarg s) (\<lambda>(r, s).
          case r of
            None \<Rightarrow> Inr (None, s)
          | Some a \<Rightarrow> bindE (exec_args n (uargv + 4) s) (\<lambda>(r, s). Inr (map_option ((#) a) r, s))))"

definition sys_exec :: "'a fsst_scheme \<Rightarrow> err + (sysret \<times> 'a fsst_scheme)" where
  "sys_exec s =
    bindE (argstr 0 s) (\<lambda>(r, s).
    case r of None \<Rightarrow> Inr (Ret (-1), s) | Some path \<Rightarrow>
    bindE (argint 1 s) (\<lambda>(r, s).
    case r of None \<Rightarrow> Inr (Ret (-1), s) | Some uargv \<Rightarrow>
    bindE (exec_args MAXARG uargv s) (\<lambda>(r, s).
    case r of
      None \<Rightarrow> Inr (Ret (-1), s)
    | Some argv \<Rightarrow> bindE (exec path argv s) (\<lambda>(v, s). Inr (Ret v, s)))))"

definition pipe_fail :: "nat option \<Rightarrow> nat \<Rightarrow> nat \<Rightarrow> 'a filest_scheme \<Rightarrow> err + (sysret \<times> 'a filest_scheme)" where
  "pipe_fail fdo rf wfl s =
    bindE (myproc s) (\<lambda>p.
    let s = (case fdo of None \<Rightarrow> s | Some fd \<Rightarrow> upd_proc p (\<lambda>q. q\<lparr>ofile := (ofile q)[fd := None]\<rparr>) s) in
    bindE (fileclose rf s) (\<lambda>s.
    bindE (fileclose wfl s) (\<lambda>s.
    Inr (Ret (-1), s))))"

definition sys_pipe :: "'a filest_scheme \<Rightarrow> err + (sysret \<times> 'a filest_scheme)" where
  "sys_pipe s =
    bindE (argptr 0 8 s) (\<lambda>(r, s).
    case r of None \<Rightarrow> Inr (Ret (-1), s) | Some p \<Rightarrow>
    bindE (pipealloc s) (\<lambda>(r, s).
    case r of None \<Rightarrow> Inr (Ret (-1), s) | Some (rf, wfl) \<Rightarrow>
    bindE (fdalloc rf s) (\<lambda>(r0, s).
    case r0 of None \<Rightarrow> pipe_fail None rf wfl s | Some fd0 \<Rightarrow>
    bindE (fdalloc wfl s) (\<lambda>(r1, s).
    case r1 of None \<Rightarrow> pipe_fail (Some fd0) rf wfl s | Some fd1 \<Rightarrow>
    bindE (kstores (bytes32 (of_nat fd0)) p s) (\<lambda>s.
    bindE (kstores (bytes32 (of_nat fd1)) (p + 4) s) (\<lambda>s.
    Inr (Ret 0, s)))))))"

end
