(* ===== verification/Traps.thy ===== *)
theory Traps
  imports Prelude
begin

text \<open>The numbers of the traps and of the interrupt lines that the kernel uses, \<^verbatim>\<open>src/src/traps.h\<close>.\<close>

definition T_PGFLT :: u32 where [simp]: "T_PGFLT = 14"
definition T_SYSCALL :: u32 where [simp]: "T_SYSCALL = 64"
definition T_IRQ0 :: u32 where [simp]: "T_IRQ0 = 32"
definition IRQ_TIMER :: u32 where [simp]: "IRQ_TIMER = 0"
definition IRQ_KBD :: u32 where [simp]: "IRQ_KBD = 1"
definition IRQ_COM1 :: u32 where [simp]: "IRQ_COM1 = 4"
definition IRQ_IDE :: u32 where [simp]: "IRQ_IDE = 14"
definition IRQ_ERROR :: u32 where [simp]: "IRQ_ERROR = 19"
definition IRQ_SPURIOUS :: u32 where [simp]: "IRQ_SPURIOUS = 31"

end
