(* ===== verification/Trap.thy ===== *)
theory Trap
  imports Sysfile Traps
begin

text \<open>
  The remaining system calls, \<^verbatim>\<open>src/src/sysproc.c\<close>, the dispatch on the call number in \<^verbatim>\<open>src/src/syscall.c\<close>, and the trap handler and descriptor table of
  \<^verbatim>\<open>src/src/trap.c\<close>. The signals to the interrupt controller are left out; the characters a
  keyboard or serial interrupt delivers are an argument of the handler, as is the processor's
  number. The code addresses in \<open>vectors\<close> come from the linker.
\<close>

section \<open>System calls on processes\<close>

definition ret_int :: "err + (int \<times> 's) \<Rightarrow> err + (sysret \<times> 's)" where
  "ret_int r = bindE r (\<lambda>(v, s). Inr (Ret v, s))"

definition sys_fork :: "'a filest_scheme \<Rightarrow> err + (sysret \<times> 'a filest_scheme)" where
  "sys_fork s = ret_int (fork s)"

definition sys_exit :: "'a filest_scheme \<Rightarrow> err + (sysret \<times> 'a filest_scheme)" where
  "sys_exit s = bindE (exit s) (\<lambda>s. Inr (Asleep, s))"

definition sys_wait :: "'a kst_scheme \<Rightarrow> err + (sysret \<times> 'a kst_scheme)" where
  "sys_wait s = bindE (wait s) (\<lambda>(r, s). Inr (case r of None \<Rightarrow> Asleep | Some v \<Rightarrow> Ret v, s))"

definition sys_kill :: "'a kst_scheme \<Rightarrow> err + (sysret \<times> 'a kst_scheme)" where
  "sys_kill s = bindE (argint 0 s) (\<lambda>(r, s).
     case r of None \<Rightarrow> Inr (Ret (-1), s) | Some n \<Rightarrow> (case kill (sint n) s of (v, s) \<Rightarrow> Inr (Ret v, s)))"

definition sys_getpid :: "'a kst_scheme \<Rightarrow> err + (sysret \<times> 'a kst_scheme)" where
  "sys_getpid s = bindE (myproc s) (\<lambda>p. Inr (Ret (pid (proc_at p s)), s))"

definition sys_sbrk :: "'a kst_scheme \<Rightarrow> err + (sysret \<times> 'a kst_scheme)" where
  "sys_sbrk s = bindE (argint 0 s) (\<lambda>(r, s).
     case r of
       None \<Rightarrow> Inr (Ret (-1), s)
     | Some n \<Rightarrow>
         bindE (myproc s) (\<lambda>p.
         let addr = sint (sz (proc_at p s)) in
         bindE (growproc (sint n) s) (\<lambda>(v, s).
         Inr (Ret (if v < 0 then -1 else addr), s))))"

text \<open>One turn of the waiting loop of \<open>sys_sleep\<close>, started at \<open>ticks0\<close>. The comparison of \<open>ticks - ticks0\<close> with the signed
  \<open>n\<close> is unsigned.\<close>

definition sleep_turn :: "u32 \<Rightarrow> u32 \<Rightarrow> 'a kst_scheme \<Rightarrow> err + (sysret \<times> 'a kst_scheme)" where
  "sleep_turn n ticks0 s =
    (if ticks s - ticks0 < n then
       bindE (myproc s) (\<lambda>p.
       if killed (proc_at p s) then Inr (Ret (-1), s)
       else bindE (sleep_enter ChanTicks True s) (\<lambda>s. Inr (Asleep, s)))
     else Inr (Ret 0, s))"

definition sys_sleep :: "'a kst_scheme \<Rightarrow> err + (sysret \<times> 'a kst_scheme)" where
  "sys_sleep s = bindE (argint 0 s) (\<lambda>(r, s).
     case r of None \<Rightarrow> Inr (Ret (-1), s) | Some n \<Rightarrow> sleep_turn n (ticks s) s)"

definition sys_uptime :: "'a kst_scheme \<Rightarrow> err + (sysret \<times> 'a kst_scheme)" where
  "sys_uptime s = Inr (Ret (sint (ticks s)), s)"

definition sys_mencrypt :: "'a kst_scheme \<Rightarrow> err + (sysret \<times> 'a kst_scheme)" where
  "sys_mencrypt s = bindE (argint 1 s) (\<lambda>(r, s).
     case r of
       None \<Rightarrow> Inr (Ret (-1), s)
     | Some len \<Rightarrow>
         if sint len \<le> 0 then Inr (Ret (-1), s)
         else
           bindE (argptr 0 1 s) (\<lambda>(r, s).
           case r of
             None \<Rightarrow> Inr (Ret (-1), s)
           | Some va \<Rightarrow>
               if va \<ge> P2V PHYSTOP then Inr (Ret (-1), s)
               else ret_int (mencrypt va (sint len) s)))"

definition sys_getpgtable :: "'a kst_scheme \<Rightarrow> err + (sysret \<times> 'a kst_scheme)" where
  "sys_getpgtable s = bindE (argint 2 s) (\<lambda>(r, s).
     case r of None \<Rightarrow> Inr (Ret (-1), s) | Some wsetOnly \<Rightarrow>
     bindE (argint 1 s) (\<lambda>(r, s).
     case r of None \<Rightarrow> Inr (Ret (-1), s) | Some num \<Rightarrow>
     bindE (argptr 0 (sint (num * 8)) s) (\<lambda>(r, s).
     case r of
       None \<Rightarrow> Inr (Ret (-1), s)
     | Some p \<Rightarrow> ret_int (getpgtable p (sint num) (sint wsetOnly) s))))"

definition sys_dump_rawphymem :: "'a kst_scheme \<Rightarrow> err + (sysret \<times> 'a kst_scheme)" where
  "sys_dump_rawphymem s = bindE (argptr 1 4096 s) (\<lambda>(r, s).
     case r of
       None \<Rightarrow> Inr (Ret (-1), s)
     | Some buffer \<Rightarrow>
         bindE (argint 0 s) (\<lambda>(r, s).
         case r of
           None \<Rightarrow> Inr (Ret (-1), s)
         | Some pa \<Rightarrow> ret_int (dump_rawphymem pa buffer s)))"

section \<open>Dispatch\<close>

text \<open>The table of system calls.\<close>

definition syscalls :: "int \<Rightarrow> ('a filest_scheme \<Rightarrow> err + (sysret \<times> 'a filest_scheme)) option" where
  "syscalls n =
    (if n = 1 then Some sys_fork else if n = 2 then Some sys_exit else if n = 3 then Some sys_wait
     else if n = 4 then Some sys_pipe else if n = 5 then Some sys_read else if n = 6 then Some sys_kill
     else if n = 7 then Some sys_exec else if n = 8 then Some sys_fstat else if n = 9 then Some sys_chdir
     else if n = 10 then Some sys_dup else if n = 11 then Some sys_getpid else if n = 12 then Some sys_sbrk
     else if n = 13 then Some sys_sleep else if n = 14 then Some sys_uptime else if n = 15 then Some sys_open
     else if n = 16 then Some sys_write else if n = 17 then Some sys_mknod else if n = 18 then Some sys_unlink
     else if n = 19 then Some sys_link else if n = 20 then Some sys_mkdir else if n = 21 then Some sys_close
     else if n = 22 then Some sys_mencrypt else if n = 23 then Some sys_getpgtable
     else if n = 24 then Some sys_dump_rawphymem else None)"

definition set_eax :: "nat \<Rightarrow> int \<Rightarrow> 'a kst_scheme \<Rightarrow> 'a kst_scheme" where
  "set_eax p v s = s\<lparr>mem := store32 (mem s) (tf (proc_at p s) + tf_eax) (of_int v)\<rparr>"

text \<open>\<open>False\<close>: the process sleeps in the kernel, or is gone.\<close>

definition syscall :: "'a filest_scheme \<Rightarrow> err + (bool \<times> 'a filest_scheme)" where
  "syscall s = bindE (myproc s) (\<lambda>p.
     let num = sint (load32 (mem s) (tf (proc_at p s) + tf_eax)) in
     case syscalls num of
       None \<Rightarrow> Inr (True, set_eax p (-1) s)
     | Some f \<Rightarrow>
         bindE (f s) (\<lambda>(r, s).
         case r of Asleep \<Rightarrow> Inr (False, s) | Ret v \<Rightarrow> Inr (True, set_eax p v s)))"

section \<open>Traps\<close>

definition tvinit :: "(nat \<Rightarrow> u32) \<Rightarrow> gatedesc list" where
  "tvinit vectors =
    (map (\<lambda>i. SETGATE False (push_bit 3 SEG_KCODE) (vectors i) 0) [0..<256])
      [64 := SETGATE True (push_bit 3 SEG_KCODE) (vectors 64) DPL_USER]"

text \<open>A page fault or an unexpected trap that is not resolved: a panic if there is no process or the trap came from the
  kernel, otherwise the process is marked killed.\<close>

definition bad_trap :: "u32 \<Rightarrow> 'a kst_scheme \<Rightarrow> err + 'a kst_scheme" where
  "bad_trap cs s =
    (case cpu_proc s of
       None \<Rightarrow> Inl (Panic ''trap'')
     | Some p \<Rightarrow>
         if cs AND 3 = 0 then Inl (Panic ''trap'')
         else Inr (upd_proc p (\<lambda>q. q\<lparr>killed := True\<rparr>) s))"

definition dies :: "u32 \<Rightarrow> 'a kst_scheme \<Rightarrow> bool" where
  "dies cs s = (case cpu_proc s of None \<Rightarrow> False | Some p \<Rightarrow> killed (proc_at p s) \<and> cs AND 3 = DPL_USER)"

definition drop_flag :: "err + (bool \<times> 's) \<Rightarrow> err + 's" where
  "drop_flag r = bindE r (\<lambda>(_, s). Inr s)"

text \<open>The switch on the trap number. \<open>cr2\<close> is the faulting address, \<open>chars\<close> what the input device delivers.\<close>

definition trap_switch :: "nat \<Rightarrow> u32 \<Rightarrow> u32 \<Rightarrow> u32 \<Rightarrow> int list \<Rightarrow> 'a filest_scheme \<Rightarrow> err + 'a filest_scheme" where
  "trap_switch cpu trapno cs cr2 chars s =
    (if trapno = T_IRQ0 + IRQ_TIMER then
       Inr (if cpu = 0 then wakeup ChanTicks (s\<lparr>ticks := ticks s + 1\<rparr>) else s)
     else if trapno = T_IRQ0 + IRQ_IDE then ideintr s
     else if trapno = T_IRQ0 + IRQ_IDE + 1 then Inr s
     else if trapno = T_IRQ0 + IRQ_KBD then drop_flag (consoleintr chars (False, s))
     else if trapno = T_IRQ0 + IRQ_COM1 then drop_flag (consoleintr chars (False, s))
     else if trapno = T_IRQ0 + 7 \<or> trapno = T_IRQ0 + IRQ_SPURIOUS then Inr s
     else if trapno = T_PGFLT then
       bindE (mdecrypt cr2 s) (\<lambda>(r, s). if r = 0 then Inr s else bad_trap cs s)
     else bad_trap cs s)"

text \<open>\<open>trap\<close>: the result says whether the interrupted code goes on (\<open>True\<close>), or its process gave up the
  processor for now or for good.\<close>

definition trap :: "nat \<Rightarrow> u32 \<Rightarrow> u32 \<Rightarrow> u32 \<Rightarrow> u32 \<Rightarrow> int list \<Rightarrow> 'a filest_scheme \<Rightarrow> err + (bool \<times> 'a filest_scheme)" where
  "trap cpu frame trapno cs cr2 chars s =
    (if trapno = T_SYSCALL then
       bindE (myproc s) (\<lambda>p.
       if killed (proc_at p s) then bindE (exit s) (\<lambda>s. Inr (False, s))
       else
         bindE (syscall (upd_proc p (\<lambda>q. q\<lparr>tf := frame\<rparr>) s)) (\<lambda>(goes_on, s).
         if \<not> goes_on then Inr (False, s)
         else if killed (proc_at p s) then bindE (exit s) (\<lambda>s. Inr (False, s))
         else Inr (True, s)))
     else
       bindE (trap_switch cpu trapno cs cr2 chars s) (\<lambda>s.
       if dies cs s then bindE (exit s) (\<lambda>s. Inr (False, s))
       else
         (case cpu_proc s of
            None \<Rightarrow> Inr (True, s)
          | Some p \<Rightarrow>
              if pstate (proc_at p s) = RUNNING \<and> trapno = T_IRQ0 + IRQ_TIMER
              then bindE (yield s) (\<lambda>s. Inr (False, s)) else Inr (True, s))))"

end
