(* ===== verification/Bio.thy ===== *)
theory Bio
  imports Disk
begin

text \<open>
  Correctness of the driver and of the buffer cache of theory \<open>Disk\<close>, for the device of the
  file system. The content of a block is what a reader gets: the cached data if there is a valid buffer for it, else the sector. \<open>bread\<close>, \<open>bwrite\<close> and \<open>brelse\<close> keep the cache
  coherent, and only \<open>bwrite\<close> reaches the disk.
\<close>

section \<open>Words in blocks\<close>

lemma length_put32 [simp]: "length (put32 d i v) = length d" by (simp add: put32_def)

lemma word_of_bytes:
  "ucast (ucast v :: u8) OR push_bit 8 (ucast (ucast (drop_bit 8 v) :: u8))
     OR push_bit 16 (ucast (ucast (drop_bit 16 v) :: u8)) OR push_bit 24 (ucast (ucast (drop_bit 24 v) :: u8)) = (v :: u32)"
  using load32_store32_same [of "\<lambda>_. 0" 0 v] by (simp only: load32_def store32_def fun_upd_apply) simp

lemma get32_put32: "i + 4 \<le> length d \<Longrightarrow> get32 (put32 d i v) i = v"
  by (simp add: get32_def put32_def nth_list_update word_of_bytes)

lemma get32_put32_other: "i + 4 \<le> j \<or> j + 4 \<le> i \<Longrightarrow> get32 (put32 d i v) j = get32 d j"
  by (auto simp: get32_def put32_def)

section \<open>The driver\<close>

text \<open>The pid of the running process.\<close>

definition me_pid :: "'a kst_scheme \<Rightarrow> int" where
  "me_pid s = map pid (ptable s) ! the (cpu_proc s)"

definition running_ok :: "'a kst_scheme \<Rightarrow> bool" where
  "running_ok s \<longleftrightarrow> (\<exists>p. cpu_proc s = Some p \<and> p < length (ptable s))"

definition mine :: "nat \<Rightarrow> 'a slst_scheme \<Rightarrow> bool" where
  "mine l s \<longleftrightarrow> slocked (sleeplocks s l) \<and> slpid (sleeplocks s l) = me_pid s"

lemma holdingsleep_mine: "running_ok s \<Longrightarrow> holdingsleep l s = Inr (mine l s)"
  by (auto simp: running_ok_def holdingsleep_def myproc_def mine_def me_pid_def proc_at_def)

definition idle_disk :: "'a diskst_scheme \<Rightarrow> bool" where
  "idle_disk s \<longleftrightarrow> running_ok s \<and> length (bufs s) = 30 \<and> idequeue s = [] \<and> \<not> ide_err s \<and> havedisk1 s"

lemma buf_at_upd: "b < length (bufs s) \<Longrightarrow> buf_at i (upd_buf b f s) = (if i = b then f (buf_at b s) else buf_at i s)"
  by (simp add: buf_at_def upd_buf_def)

lemma wakeup_sel [simp]:
  "bufs (wakeup c s) = bufs s" "sectors (wakeup c s) = sectors s" "dtrace (wakeup c s) = dtrace s"
  "idequeue (wakeup c s) = idequeue s" "ide_err (wakeup c s) = ide_err s" "havedisk1 (wakeup c s) = havedisk1 s"
  "blru (wakeup c s) = blru s" "diskst.more (wakeup c s) = diskst.more s"
  by (simp_all add: wakeup_def wakeup1_def)

lemma wakeup_sel_kernel [simp]:
  "sleeplocks (wakeup c t) = sleeplocks t" "cpu_proc (wakeup c u) = cpu_proc u"
  "map pid (ptable (wakeup c u)) = map pid (ptable u)" "length (ptable (wakeup c u)) = length (ptable u)"
  by (simp_all add: wakeup_def wakeup1_def)

lemma iderw_read:
  assumes "idle_disk s" and "b < 30" and "mine b s" and "\<not> bvalid (buf_at b s)" and "\<not> bdirty (buf_at b s)"
    and "bdev (buf_at b s) = 1" and "blockno (buf_at b s) < 1000"
  shows "iderw b s = Inr (wakeup (ChanBuf b) ((upd_buf b (\<lambda>p. p\<lparr>bdata := sectors s 1 (blockno p), bvalid := True, bdirty := False\<rparr>) s)
    \<lparr>idequeue := [], ide_sel := (1, blockno (buf_at b s))\<rparr>))"
  using assms
  by (auto simp: idle_disk_def iderw_def holdingsleep_mine idestart_eq ideintr_def buf_at_def upd_buf_def Let_def not_le
      intro!: arg_cong [of _ _ "wakeup (ChanBuf b)"])

lemma iderw_write:
  assumes "idle_disk s" and "b < 30" and "mine b s" and "bdirty (buf_at b s)"
    and "bdev (buf_at b s) = 1" and "blockno (buf_at b s) < 1000"
  shows "iderw b s = Inr (wakeup (ChanBuf b) ((upd_buf b (\<lambda>p. p\<lparr>bvalid := True, bdirty := False\<rparr>) s)
    \<lparr>idequeue := [], sectors := (sectors s)(1 := (sectors s 1)(blockno (buf_at b s) := bdata (buf_at b s))),
     dtrace := dtrace s @ [(1, blockno (buf_at b s), bdata (buf_at b s))]\<rparr>))"
  using assms
  by (auto simp: idle_disk_def iderw_def holdingsleep_mine idestart_eq ideintr_def buf_at_def upd_buf_def Let_def not_le
      intro!: arg_cong [of _ _ "wakeup (ChanBuf b)"])

section \<open>The state of the cache\<close>

definition slot :: "'a diskst_scheme \<Rightarrow> u32 \<Rightarrow> nat \<Rightarrow> bool" where
  "slot s n i \<longleftrightarrow> i < 30 \<and> bdev (buf_at i s) = 1 \<and> blockno (buf_at i s) = n"

definition cache_ok :: "'a diskst_scheme \<Rightarrow> bool" where
  "cache_ok s \<longleftrightarrow> idle_disk s \<and> distinct (blru s) \<and> set (blru s) = {..<30} \<and>
     (\<forall>n i. slot s n i \<longrightarrow> (bdirty (buf_at i s) \<longrightarrow> bvalid (buf_at i s)) \<and>
        (bvalid (buf_at i s) \<longrightarrow> \<not> bdirty (buf_at i s) \<longrightarrow> bdata (buf_at i s) = sectors s 1 n)) \<and>
     (\<forall>n i j. slot s n i \<longrightarrow> slot s n j \<longrightarrow> i = j)"

definition content :: "'a diskst_scheme \<Rightarrow> u32 \<Rightarrow> u8 list" where
  "content s n = (case find (\<lambda>i. slot s n i \<and> bvalid (buf_at i s)) [0..<30] of
     None \<Rightarrow> sectors s 1 n | Some i \<Rightarrow> bdata (buf_at i s))"

definition dirty_block :: "'a diskst_scheme \<Rightarrow> u32 \<Rightarrow> bool" where
  "dirty_block s n \<longleftrightarrow> (\<exists>i. slot s n i \<and> bdirty (buf_at i s))"

text \<open>Buffers that \<open>bget\<close> may recycle.\<close>

definition spare :: "'a diskst_scheme \<Rightarrow> nat \<Rightarrow> bool" where
  "spare s i \<longleftrightarrow> i < 30 \<and> refcnt (buf_at i s) = 0 \<and> \<not> bdirty (buf_at i s)"

text \<open>What no cache operation changes: the rest of the kernel, and the locks of other things.\<close>

definition same_rest :: "'a diskst_scheme \<Rightarrow> 'a diskst_scheme \<Rightarrow> bool" where
  "same_rest s s' \<longleftrightarrow> diskst.more s' = diskst.more s \<and> cpu_proc s' = cpu_proc s \<and> map pid (ptable s') = map pid (ptable s)
     \<and> (\<forall>l\<ge>30. sleeplocks s' l = sleeplocks s l)"

lemma same_rest_refl [simp]: "same_rest s s" by (simp add: same_rest_def)

lemma same_rest_trans: "same_rest s s' \<Longrightarrow> same_rest s' s'' \<Longrightarrow> same_rest s s''"
  by (simp add: same_rest_def)

lemma same_rest_pid: "same_rest s s' \<Longrightarrow> me_pid s' = me_pid s"
  unfolding same_rest_def me_pid_def by (elim conjE) (simp only:)

lemma same_rest_running: "same_rest s s' \<Longrightarrow> running_ok s' \<longleftrightarrow> running_ok s"
  unfolding same_rest_def running_ok_def by (metis length_map)

lemma content_cached:
  assumes "cache_ok s" and "slot s n i" and "bvalid (buf_at i s)"
  shows "content s n = bdata (buf_at i s)"
proof -
  have "i \<in> set [0..<30]" using assms(2) by (simp add: slot_def)
  then obtain j where j: "find (\<lambda>i. slot s n i \<and> bvalid (buf_at i s)) [0..<30] = Some j"
    using assms(2,3) by (cases "find (\<lambda>i. slot s n i \<and> bvalid (buf_at i s)) [0..<30]") (auto simp: find_None_iff)
  then have "slot s n j" by (auto simp: find_Some_iff)
  then have "j = i" using assms(1,2) unfolding cache_ok_def by blast
  then show ?thesis using j by (simp add: content_def)
qed

lemma content_uncached: "(\<And>i. slot s n i \<Longrightarrow> \<not> bvalid (buf_at i s)) \<Longrightarrow> content s n = sectors s 1 n"
  by (auto simp: content_def find_Some_iff split: option.splits)

lemma content_clean:
  assumes "cache_ok s" and "\<not> dirty_block s n"
  shows "content s n = sectors s 1 n"
proof (cases "\<exists>i. slot s n i \<and> bvalid (buf_at i s)")
  case True
  then obtain i where i: "slot s n i" "bvalid (buf_at i s)" by blast
  then have "\<not> bdirty (buf_at i s)" using assms(2) by (auto simp: dirty_block_def)
  then have "bdata (buf_at i s) = sectors s 1 n" using assms(1) i unfolding cache_ok_def by blast
  then show ?thesis using content_cached [OF assms(1) i] by simp
qed (auto intro: content_uncached)

section \<open>Changing one buffer\<close>

text \<open>Buffer \<open>b\<close> becomes \<open>q\<close>, a buffer for a block that no other buffer holds; it was a buffer for the same block or
  had nothing to lose; only that block's sector may change.\<close>

definition one_buffer :: "'a diskst_scheme \<Rightarrow> 'a diskst_scheme \<Rightarrow> nat \<Rightarrow> buf \<Rightarrow> bool" where
  "one_buffer s s' b q \<longleftrightarrow> cache_ok s \<and> b < 30 \<and> bufs s' = (bufs s)[b := q] \<and> idle_disk s' \<and>
     distinct (blru s') \<and> set (blru s') = {..<30} \<and> bdev q = 1 \<and> (bdirty q \<longrightarrow> bvalid q) \<and>
     (bvalid q \<longrightarrow> \<not> bdirty q \<longrightarrow> bdata q = sectors s' 1 (blockno q)) \<and>
     (\<forall>i. slot s (blockno q) i \<longrightarrow> i = b) \<and> (\<forall>m. m \<noteq> blockno q \<longrightarrow> sectors s' 1 m = sectors s 1 m) \<and>
     (\<not> bdirty (buf_at b s) \<or> slot s (blockno q) b)"

lemma one_bufferI:
  assumes "cache_ok s" "b < 30" "bufs s' = (bufs s)[b := q]" "idle_disk s'" "distinct (blru s')" "set (blru s') = {..<30}"
    "bdev q = 1" "blockno q = n" "bdirty q \<longrightarrow> bvalid q" "bvalid q \<longrightarrow> \<not> bdirty q \<longrightarrow> bdata q = sectors s' 1 n"
    "\<forall>i. slot s n i \<longrightarrow> i = b" "\<forall>m. m \<noteq> n \<longrightarrow> sectors s' 1 m = sectors s 1 m" "\<not> bdirty (buf_at b s) \<or> slot s n b"
  shows "one_buffer s s' b q"
  unfolding one_buffer_def assms(8) using assms by blast

lemma slot_unique: "cache_ok s \<Longrightarrow> slot s m i \<Longrightarrow> slot s m j \<Longrightarrow> i = j"
  unfolding cache_ok_def by blast

lemma slot_coherent:
  "cache_ok s \<Longrightarrow> slot s m i \<Longrightarrow> (bdirty (buf_at i s) \<longrightarrow> bvalid (buf_at i s)) \<and>
     (bvalid (buf_at i s) \<longrightarrow> \<not> bdirty (buf_at i s) \<longrightarrow> bdata (buf_at i s) = sectors s 1 m)"
  unfolding cache_ok_def by blast

lemma one_buffer_at:
  assumes "one_buffer s s' b q"
  shows "buf_at i s' = (if i = b then q else buf_at i s)"
    and "slot s' m i \<longleftrightarrow> (if i = b then m = blockno q else slot s m i)"
proof -
  have len: "length (bufs s) = 30" and o: "b < 30" "bufs s' = (bufs s)[b := q]" "bdev q = 1"
    using assms by (simp_all add: one_buffer_def cache_ok_def idle_disk_def)
  show at: "buf_at i s' = (if i = b then q else buf_at i s)" for i using len o by (simp add: buf_at_def)
  show "slot s' m i \<longleftrightarrow> (if i = b then m = blockno q else slot s m i)" using o by (auto simp: slot_def at)
qed

lemma one_buffer_alone: "one_buffer s s' b q \<Longrightarrow> slot s (blockno q) i \<Longrightarrow> i = b"
  unfolding one_buffer_def by blast

lemma one_buffer_ok:
  assumes o: "one_buffer s s' b q"
  shows "cache_ok s'"
proof -
  have ok: "cache_ok s" using o by (simp add: one_buffer_def)
  have "(bdirty (buf_at i s') \<longrightarrow> bvalid (buf_at i s')) \<and>
      (bvalid (buf_at i s') \<longrightarrow> \<not> bdirty (buf_at i s') \<longrightarrow> bdata (buf_at i s') = sectors s' 1 m)" if sl: "slot s' m i" for m i
  proof (cases "i = b")
    case True
    then have "m = blockno q" "buf_at i s' = q" using sl one_buffer_at [OF o] by simp_all
    then show ?thesis using o unfolding one_buffer_def by simp
  next
    case False
    then have sm: "slot s m i" "buf_at i s' = buf_at i s" using sl one_buffer_at [OF o] by simp_all
    then have "m \<noteq> blockno q" using one_buffer_alone [OF o] False by blast
    then have "sectors s' 1 m = sectors s 1 m" using o by (simp add: one_buffer_def)
    then show ?thesis using slot_coherent [OF ok sm(1)] sm(2) by simp
  qed
  moreover have "i = j" if "slot s' m i" "slot s' m j" for m i j
    using that slot_unique [OF ok, of m i j] one_buffer_alone [OF o] one_buffer_at(2) [OF o] by metis
  moreover have "idle_disk s'" "distinct (blru s')" "set (blru s') = {..<30}" using o by (simp_all add: one_buffer_def)
  ultimately show ?thesis unfolding cache_ok_def by blast
qed

lemma one_buffer_content:
  assumes o: "one_buffer s s' b q"
  shows "content s' (blockno q) = (if bvalid q then bdata q else sectors s' 1 (blockno q))"
proof (cases "bvalid q")
  case True
  then show ?thesis using content_cached [OF one_buffer_ok [OF o], of "blockno q" b] by (simp add: one_buffer_at [OF o])
next
  case False
  have "\<not> bvalid (buf_at i s')" if "slot s' (blockno q) i" for i
    using that one_buffer_alone [OF o, of i] False by (simp add: one_buffer_at [OF o] split: if_splits)
  then show ?thesis using content_uncached [of s' "blockno q"] False by simp
qed

lemma one_buffer_content_other:
  assumes o: "one_buffer s s' b q" and m: "m \<noteq> blockno q"
  shows "content s' m = content s m"
proof -
  have ok: "cache_ok s" and sec: "sectors s' 1 m = sectors s 1 m"
    and idem: "\<not> bdirty (buf_at b s) \<or> slot s (blockno q) b" using o m by (simp_all add: one_buffer_def)
  show ?thesis
  proof (cases "slot s m b")
    case True
    have "\<not> bdirty (buf_at b s)" using idem True m by (auto simp: slot_def)
    then have "\<not> dirty_block s m" using slot_unique [OF ok True] by (auto simp: dirty_block_def)
    then have "content s m = sectors s 1 m" by (rule content_clean [OF ok])
    moreover have "\<not> bvalid (buf_at i s')" if "slot s' m i" for i
    proof -
      have "i \<noteq> b" "slot s m i" using that m by (simp_all add: one_buffer_at [OF o] split: if_splits)
      then show ?thesis using slot_unique [OF ok True] by blast
    qed
    ultimately show ?thesis using content_uncached [of s' m] sec by simp
  next
    case False
    have e: "slot s' m i \<and> bvalid (buf_at i s') \<longleftrightarrow> slot s m i \<and> bvalid (buf_at i s)" for i
      using False m by (simp add: one_buffer_at [OF o])
    have "bdata (buf_at i s') = bdata (buf_at i s)"
      if "find (\<lambda>i. slot s m i \<and> bvalid (buf_at i s)) [0..<30] = Some i" for i
      using that False by (auto simp: find_Some_iff one_buffer_at [OF o])
    then show ?thesis unfolding content_def e using sec by (simp split: option.split)
  qed
qed

lemma one_buffer_dirty:
  assumes o: "one_buffer s s' b q"
  shows "dirty_block s' m \<longleftrightarrow> (if m = blockno q then bdirty q else dirty_block s m)"
proof -
  have idem: "\<not> bdirty (buf_at b s) \<or> slot s (blockno q) b" using o by (simp add: one_buffer_def)
  show ?thesis
  proof (cases "m = blockno q")
    case True
    then show ?thesis unfolding dirty_block_def one_buffer_at [OF o] using one_buffer_alone [OF o] by auto
  next
    case False
    have "\<not> (slot s m b \<and> bdirty (buf_at b s))" using idem False by (auto simp: slot_def)
    then show ?thesis using False unfolding dirty_block_def one_buffer_at [OF o] by auto
  qed
qed

section \<open>Reading a block\<close>

text \<open>\<open>bread\<close> for block \<open>n\<close> took \<open>s\<close> to \<open>s'\<close> and returned buffer \<open>b\<close>.\<close>

definition read_by :: "'a diskst_scheme \<Rightarrow> u32 \<Rightarrow> nat \<Rightarrow> 'a diskst_scheme \<Rightarrow> bool" where
  "read_by s n b s' \<longleftrightarrow> cache_ok s' \<and> slot s' n b \<and> bvalid (buf_at b s') \<and> \<not> slocked (sleeplocks s b) \<and>
     sleeplocks s' = (sleeplocks s)(b := \<lparr>slocked = True, slpid = me_pid s\<rparr>) \<and> same_rest s s' \<and>
     sectors s' = sectors s \<and> dtrace s' = dtrace s \<and> content s' = content s \<and> dirty_block s' = dirty_block s \<and>
     (\<forall>i. i \<noteq> b \<longrightarrow> buf_at i s' = buf_at i s) \<and>
     (if slot s n b then refcnt (buf_at b s') = refcnt (buf_at b s) + 1 \<and> bdirty (buf_at b s') = bdirty (buf_at b s)
      else spare s b \<and> refcnt (buf_at b s') = 1 \<and> \<not> bdirty (buf_at b s'))"

lemma lockE_free:
  "running_ok s \<Longrightarrow> \<not> slocked (sleeplocks s l) \<Longrightarrow>
   lockE l s = Inr (s\<lparr>sleeplocks := (sleeplocks s)(l := \<lparr>slocked = True, slpid = me_pid s\<rparr>)\<rparr>)"
  by (auto simp: lockE_def acquiresleep_def running_ok_def myproc_def me_pid_def proc_at_def)

definition lock_buf :: "nat \<Rightarrow> buf \<Rightarrow> 'a diskst_scheme \<Rightarrow> 'a diskst_scheme" where
  "lock_buf b q s = s\<lparr>bufs := (bufs s)[b := q], sleeplocks := (sleeplocks s)(b := \<lparr>slocked = True, slpid = me_pid s\<rparr>)\<rparr>"

definition unlocked_free :: "'a diskst_scheme \<Rightarrow> bool" where
  "unlocked_free s \<longleftrightarrow> (\<forall>i<30. refcnt (buf_at i s) = 0 \<longrightarrow> \<not> slocked (sleeplocks s i))"

lemma me_pid_upd_buf [simp]: "me_pid (upd_buf b f s) = me_pid s" "running_ok (upd_buf b f s) = running_ok s"
  "sleeplocks (upd_buf b f s) = sleeplocks s"
  by (simp_all add: me_pid_def upd_buf_def running_ok_def)

lemma bget_spec:
  assumes ok: "cache_ok s" and uf: "unlocked_free s" and ul: "\<forall>i. slot s n i \<longrightarrow> \<not> slocked (sleeplocks s i)"
    and av: "(\<exists>i. slot s n i) \<or> (\<exists>i. spare s i)"
  shows "\<exists>b q. bget 1 n s = Inr (b, lock_buf b q s) \<and> b < 30 \<and> \<not> slocked (sleeplocks s b) \<and>
    (slot s n b \<and> q = (buf_at b s)\<lparr>refcnt := refcnt (buf_at b s) + 1\<rparr> \<or>
     (\<forall>i. \<not> slot s n i) \<and> spare s b \<and> q = (buf_at b s)\<lparr>bdev := 1, blockno := n, bvalid := False, bdirty := False, refcnt := 1\<rparr>)"
proof -
  have run: "running_ok s" and lru: "set (blru s) = {..<30}" using ok by (simp_all add: cache_ok_def idle_disk_def)
  let ?P = "\<lambda>i. bdev (buf_at i s) = 1 \<and> blockno (buf_at i s) = n"
  show ?thesis
  proof (cases "find ?P (blru s)")
    case (Some b)
    then have "b \<in> set (blru s)" "?P b" by (auto simp: find_Some_iff)
    then have sl: "slot s n b" "b < 30" using lru by (auto simp: slot_def)
    have "bget 1 n s = Inr (b, lock_buf b ((buf_at b s)\<lparr>refcnt := refcnt (buf_at b s) + 1\<rparr>) s)"
      using Some ul sl run by (simp add: bget_def lockE_free lock_buf_def) (simp add: upd_buf_def buf_at_def me_pid_def)
    then show ?thesis using sl ul by blast
  next
    case None
    then have no: "\<not> slot s n i" for i using lru by (auto simp: find_None_iff slot_def)
    let ?Q = "\<lambda>i. refcnt (buf_at i s) = 0 \<and> \<not> bdirty (buf_at i s)"
    obtain i where "spare s i" using av no by blast
    then obtain b where b: "find ?Q (rev (blru s)) = Some b"
      using lru by (cases "find ?Q (rev (blru s))") (auto simp: find_None_iff spare_def)
    then have "b \<in> set (rev (blru s))" "?Q b" by (auto simp: find_Some_iff simp del: set_rev dest: nth_mem)
    then have sp: "spare s b" "b < 30" using lru by (auto simp: spare_def)
    then have ulb: "\<not> slocked (sleeplocks s b)" using uf by (simp add: unlocked_free_def spare_def)
    have "bget 1 n s = Inr (b, lock_buf b ((buf_at b s)\<lparr>bdev := 1, blockno := n, bvalid := False, bdirty := False, refcnt := 1\<rparr>) s)"
      using None b ulb run by (simp add: bget_def lockE_free lock_buf_def) (simp add: upd_buf_def buf_at_def me_pid_def)
    then show ?thesis using sp no ulb by blast
  qed
qed

lemma idle_lock_buf: "idle_disk (lock_buf b q s) = idle_disk s"
  by (simp add: idle_disk_def lock_buf_def running_ok_def)

lemma lock_buf_sel [simp]:
  "sectors (lock_buf b q s) = sectors s" "dtrace (lock_buf b q s) = dtrace s" "blru (lock_buf b q s) = blru s"
  "bufs (lock_buf b q s) = (bufs s)[b := q]" "me_pid (lock_buf b q s) = me_pid s"
  "sleeplocks (lock_buf b q s) = (sleeplocks s)(b := \<lparr>slocked = True, slpid = me_pid s\<rparr>)"
  by (simp_all add: lock_buf_def me_pid_def)

lemma same_rest_lock_buf: "b < 30 \<Longrightarrow> same_rest s (lock_buf b q s)"
  by (simp add: same_rest_def lock_buf_def)

text \<open>The read by the driver: a buffer not valid yet gets its sector's data.\<close>

lemma fill_spec:
  assumes ok: "cache_ok s" and b: "slot s n b" and m: "mine b s" and nv: "\<not> bvalid (buf_at b s)" and n: "n < 1000"
  obtains s' where "iderw b s = Inr s'" "one_buffer s s' b ((buf_at b s)\<lparr>bdata := sectors s 1 n, bvalid := True, bdirty := False\<rparr>)"
    "same_rest s s'" "sleeplocks s' = sleeplocks s" "sectors s' = sectors s" "dtrace s' = dtrace s"
proof -
  have nd: "\<not> bdirty (buf_at b s)" using slot_coherent [OF ok b] nv by blast
  have bb: "b < 30" "bdev (buf_at b s) = 1" "blockno (buf_at b s) = n" using b by (simp_all add: slot_def)
  have idle: "idle_disk s" "distinct (blru s)" "set (blru s) = {..<30}" using ok by (simp_all add: cache_ok_def)
  let ?q = "(buf_at b s)\<lparr>bdata := sectors s 1 n, bvalid := True, bdirty := False\<rparr>"
  let ?s' = "wakeup (ChanBuf b) ((upd_buf b (\<lambda>p. p\<lparr>bdata := sectors s 1 (blockno p), bvalid := True, bdirty := False\<rparr>) s)
    \<lparr>idequeue := [], ide_sel := (1, blockno (buf_at b s))\<rparr>)"
  have r: "iderw b s = Inr ?s'" using iderw_read [OF idle(1) bb(1) m nv nd bb(2)] n bb(3) by simp
  have bs: "bufs ?s' = (bufs s)[b := ?q]" using bb(3) by (simp add: upd_buf_def buf_at_def)
  have "idle_disk ?s'" using idle(1) by (simp add: idle_disk_def upd_buf_def running_ok_def)
  moreover have "\<forall>i. slot s n i \<longrightarrow> i = b" using slot_unique [OF ok _ b] by blast
  ultimately have "one_buffer s ?s' b ?q"
    unfolding one_buffer_def using ok bb bs idle nd by (simp add: upd_buf_def)
  then show ?thesis using that [OF r] by (simp add: same_rest_def upd_buf_def)
qed

lemma bread_spec:
  assumes ok: "cache_ok s" and n: "n < 1000" and uf: "unlocked_free s" and ul: "\<forall>i. slot s n i \<longrightarrow> \<not> slocked (sleeplocks s i)"
    and av: "(\<exists>i. slot s n i) \<or> (\<exists>i. spare s i)"
  obtains b s' where "bread 1 n s = Inr (b, s')" "read_by s n b s'"
proof -
  obtain b q where g: "bget 1 n s = Inr (b, lock_buf b q s)" and b: "b < 30" "\<not> slocked (sleeplocks s b)"
    and q: "slot s n b \<and> q = (buf_at b s)\<lparr>refcnt := refcnt (buf_at b s) + 1\<rparr> \<or>
     (\<forall>i. \<not> slot s n i) \<and> spare s b \<and> q = (buf_at b s)\<lparr>bdev := 1, blockno := n, bvalid := False, bdirty := False, refcnt := 1\<rparr>"
    using bget_spec [OF ok uf ul av] by blast
  let ?s1 = "lock_buf b q s"
  have qn: "blockno q = n" "bdev q = 1" using q by (auto simp: slot_def)
  have al: "\<forall>i. slot s n i \<longrightarrow> i = b" using q slot_unique [OF ok] by blast
  have idle: "idle_disk s" "distinct (blru s)" "set (blru s) = {..<30}" using ok by (simp_all add: cache_ok_def)
  have co: "(bdirty q \<longrightarrow> bvalid q) \<and> (bvalid q \<longrightarrow> \<not> bdirty q \<longrightarrow> bdata q = sectors s 1 n)"
    "\<not> bdirty (buf_at b s) \<or> slot s n b"
    using q slot_coherent [OF ok, of n b] by (auto simp: spare_def)
  have o1: "one_buffer s ?s1 b q"
    unfolding one_buffer_def qn using ok b(1) al co qn(2) idle by (simp add: idle_lock_buf)
  have ok1: "cache_ok ?s1" by (rule one_buffer_ok [OF o1])
  have cn: "content s n = (if bvalid q then bdata q else sectors s 1 n)"
  proof (cases "slot s n b")
    case True
    then have "bvalid q = bvalid (buf_at b s)" "bdata q = bdata (buf_at b s)" using q by auto
    then show ?thesis using content_cached [OF ok True] content_uncached [of s n] al by auto
  next
    case False
    then have "\<not> bvalid q" using q by auto
    then show ?thesis using content_uncached [of s n] False al by auto
  qed
  have c1: "content ?s1 = content s"
  proof
    fix m show "content ?s1 m = content s m"
    proof (cases "m = n")
      case True
      then show ?thesis using one_buffer_content [OF o1, unfolded qn(1) lock_buf_sel] cn by simp
    next
      case False
      then show ?thesis by (rule one_buffer_content_other [OF o1, unfolded qn(1)])
    qed
  qed
  have dn: "dirty_block s n = bdirty q"
  proof (cases "slot s n b")
    case True
    then have "bdirty q = bdirty (buf_at b s)" using q by auto
    then show ?thesis unfolding dirty_block_def using True al by blast
  next
    case False
    then have "\<not> bdirty q" "\<forall>i. \<not> slot s n i" using q by auto
    then show ?thesis unfolding dirty_block_def by blast
  qed
  have d1: "dirty_block ?s1 = dirty_block s"
  proof
    fix m show "dirty_block ?s1 m = dirty_block s m" using one_buffer_dirty [OF o1, of m, unfolded qn(1)] dn by (cases "m = n") simp_all
  qed
  have at1: "buf_at i ?s1 = (if i = b then q else buf_at i s)" "slot ?s1 n b" for i using one_buffer_at [OF o1] qn by simp_all
  have rest: "if slot s n b then refcnt q = refcnt (buf_at b s) + 1 \<and> bdirty q = bdirty (buf_at b s)
      else spare s b \<and> refcnt q = 1 \<and> \<not> bdirty q" using q by auto
  have r1: "same_rest s ?s1" by (rule same_rest_lock_buf [OF b(1)])
  show ?thesis
  proof (cases "bvalid q")
    case True
    have "bread 1 n s = Inr (b, ?s1)" using g True at1(1) by (simp add: bread_def)
    moreover have "read_by s n b ?s1"
      unfolding read_by_def using ok1 at1 True b(2) r1 c1 d1 rest by simp
    ultimately show ?thesis by (rule that)
  next
    case False
    have nv: "\<not> bvalid (buf_at b ?s1)" using False at1(1) by simp
    have mn: "mine b ?s1" by (simp add: mine_def)
    obtain s' where i: "iderw b ?s1 = Inr s'"
      and o2: "one_buffer ?s1 s' b ((buf_at b ?s1)\<lparr>bdata := sectors ?s1 1 n, bvalid := True, bdirty := False\<rparr>)" (is "one_buffer _ _ _ ?q2")
      and s': "same_rest ?s1 s'" "sleeplocks s' = sleeplocks ?s1" "sectors s' = sectors ?s1" "dtrace s' = dtrace ?s1"
      by (rule fill_spec [OF ok1 at1(2) mn nv n])
    have nd: "\<not> bdirty q" using slot_coherent [OF ok1 at1(2)] at1(1) False by simp
    have q2: "blockno ?q2 = n" using at1(1) qn by simp
    have c2: "content s' = content s"
    proof
      fix m show "content s' m = content s m"
      proof (cases "m = n")
        case True
        then show ?thesis using one_buffer_content [OF o2, unfolded q2] cn False by simp
      next
        case m: False
        then show ?thesis using one_buffer_content_other [OF o2, unfolded q2, OF m] c1 by simp
      qed
    qed
    have d2: "dirty_block s' = dirty_block s"
    proof
      fix m show "dirty_block s' m = dirty_block s m"
        using one_buffer_dirty [OF o2, of m, unfolded q2] dn nd d1 by (cases "m = n") simp_all
    qed
    have at2: "\<forall>i. i \<noteq> b \<longrightarrow> buf_at i s' = buf_at i s" "buf_at b s' = ?q2" "slot s' n b"
      using one_buffer_at [OF o2] at1 q2 by simp_all
    have qb: "bvalid (buf_at b s')" "refcnt (buf_at b s') = refcnt q" "bdirty (buf_at b s') = bdirty q"
      unfolding at2(2) using at1(1) nd by simp_all
    have "bread 1 n s = Inr (b, s')" using g nv i by (simp add: bread_def)
    moreover have "read_by s n b s'"
      unfolding read_by_def qb(2,3)
      by (intro conjI one_buffer_ok [OF o2] at2(1,3) qb(1) b(2) c2 d2 rest same_rest_trans [OF r1 s'(1)]) (simp_all add: s'(2-4))
    ultimately show ?thesis by (rule that)
  qed
qed

section \<open>Writing and releasing a block\<close>

lemma bwrite_spec:
  assumes ok: "cache_ok s" and sl: "slot s n b" and m: "mine b s" and n: "n < 1000"
    and s0: "s0 = s\<lparr>bufs := (bufs s)[b := (buf_at b s)\<lparr>bdata := d\<rparr>]\<rparr>"
  obtains s' where "bwrite b s0 = Inr s'"
    "one_buffer s s' b ((buf_at b s)\<lparr>bdata := d, bvalid := True, bdirty := False\<rparr>)" "same_rest s s'"
    "sleeplocks s' = sleeplocks s" "sectors s' = (sectors s)(1 := (sectors s 1)(n := d))" "dtrace s' = dtrace s @ [(1, n, d)]"
proof -
  have bb: "b < 30" "bdev (buf_at b s) = 1" "blockno (buf_at b s) = n" using sl by (simp_all add: slot_def)
  have idle: "idle_disk s" "distinct (blru s)" "set (blru s) = {..<30}" "length (bufs s) = 30"
    using ok by (simp_all add: cache_ok_def idle_disk_def)
  let ?t = "upd_buf b (\<lambda>p. p\<lparr>bdirty := True\<rparr>) s0"
  have bt: "buf_at b ?t = (buf_at b s)\<lparr>bdata := d, bdirty := True\<rparr>"
    using bb(1) idle(4) by (simp add: s0 upd_buf_def buf_at_def)
  have it: "idle_disk ?t" "mine b ?t" "running_ok s0" "mine b s0"
    using idle(1) m by (simp_all add: idle_disk_def s0 upd_buf_def running_ok_def mine_def me_pid_def)
  let ?s' = "wakeup (ChanBuf b) ((upd_buf b (\<lambda>p. p\<lparr>bvalid := True, bdirty := False\<rparr>) ?t)
    \<lparr>idequeue := [], sectors := (sectors ?t)(1 := (sectors ?t 1)(n := d)), dtrace := dtrace ?t @ [(1, n, d)]\<rparr>)"
  have r: "bwrite b s0 = Inr ?s'"
    using iderw_write [OF it(1) bb(1) it(2)] bt bb n by (simp add: bwrite_def holdingsleep_mine [OF it(3)] it(4))
  let ?q = "(buf_at b s)\<lparr>bdata := d, bvalid := True, bdirty := False\<rparr>"
  define s' where "s' = ?s'"
  have bs: "bufs s' = (bufs s)[b := ?q]" using bb(1) idle(4) by (simp add: s'_def s0 upd_buf_def buf_at_def)
  have sc: "sectors s' = (sectors s)(1 := (sectors s 1)(n := d))" by (simp add: s'_def s0 upd_buf_def)
  have id: "idle_disk s'" using idle(1) by (simp add: s'_def idle_disk_def s0 upd_buf_def running_ok_def)
  have al: "\<forall>i. slot s n i \<longrightarrow> i = b" using slot_unique [OF ok _ sl] by blast
  have bl: "blru s' = blru s" by (simp add: s'_def s0 upd_buf_def)
  have lru: "distinct (blru s')" "set (blru s') = {..<30}" using idle(2,3) unfolding bl .
  have q: "bdev ?q = 1" "blockno ?q = n" "bdirty ?q \<longrightarrow> bvalid ?q" "bvalid ?q \<longrightarrow> \<not> bdirty ?q \<longrightarrow> bdata ?q = sectors s' 1 n"
    using bb sc by simp_all
  have "\<forall>m. m \<noteq> n \<longrightarrow> sectors s' 1 m = sectors s 1 m" using sc by simp
  from one_bufferI [OF ok bb(1) bs id lru q al this] have "one_buffer s s' b ?q" using sl by blast
  moreover have "same_rest s s'" "sleeplocks s' = sleeplocks s" "dtrace s' = dtrace s @ [(1, n, d)]"
    by (simp_all add: s'_def same_rest_def s0 upd_buf_def)
  ultimately show ?thesis using that [OF r [folded s'_def]] sc by blast
qed

lemma brelse_spec:
  assumes ok: "cache_ok s" and sl: "slot s n b" and m: "mine b s"
  obtains s' where "brelse b s = Inr s'" "one_buffer s s' b ((buf_at b s)\<lparr>refcnt := refcnt (buf_at b s) - 1\<rparr>)" "same_rest s s'"
    "sleeplocks s' = (sleeplocks s)(b := \<lparr>slocked = False, slpid = 0\<rparr>)" "sectors s' = sectors s" "dtrace s' = dtrace s"
    "content s' = content s" "dirty_block s' = dirty_block s"
proof -
  have bb: "b < 30" "bdev (buf_at b s) = 1" "blockno (buf_at b s) = n" using sl by (simp_all add: slot_def)
  have idle: "idle_disk s" "distinct (blru s)" "set (blru s) = {..<30}" "length (bufs s) = 30" "running_ok s"
    using ok by (simp_all add: cache_ok_def idle_disk_def)
  let ?t = "upd_buf b (\<lambda>p. p\<lparr>refcnt := refcnt p - 1\<rparr>) (releasesleep b s)"
  let ?s' = "if refcnt (buf_at b ?t) = 0 then ?t\<lparr>blru := b # remove1 b (blru ?t)\<rparr> else ?t"
  let ?q = "(buf_at b s)\<lparr>refcnt := refcnt (buf_at b s) - 1\<rparr>"
  define s' where "s' = ?s'"
  have r: "brelse b s = Inr s'" using m by (simp add: s'_def brelse_def holdingsleep_mine [OF idle(5)] Let_def)
  have t: "bufs ?t = (bufs s)[b := ?q]" "sectors ?t = sectors s" "dtrace ?t = dtrace s" "blru ?t = blru s"
    "idequeue ?t = idequeue s" "ide_err ?t = ide_err s" "havedisk1 ?t = havedisk1 s" "cpu_proc ?t = cpu_proc s"
    "sleeplocks ?t = (sleeplocks s)(b := \<lparr>slocked = False, slpid = 0\<rparr>)" "same_rest s ?t"
    using bb(1) by (simp_all add: upd_buf_def releasesleep_def buf_at_def same_rest_def)
  have e: "bufs s' = (bufs s)[b := ?q]" "sectors s' = sectors s" "dtrace s' = dtrace s"
    "sleeplocks s' = (sleeplocks s)(b := \<lparr>slocked = False, slpid = 0\<rparr>)" "same_rest s s'"
    "idequeue s' = idequeue s" "ide_err s' = ide_err s" "havedisk1 s' = havedisk1 s"
    using t by (simp_all add: s'_def same_rest_def)
  have lru: "distinct (blru s')" "set (blru s') = {..<30}"
    using idle(2,3) t(4) bb(1) by (auto simp: s'_def)
  have idl: "idle_disk s'" using idle(1) e same_rest_running [OF e(5)] by (simp add: idle_disk_def)
  have al: "\<forall>i. slot s n i \<longrightarrow> i = b" using slot_unique [OF ok _ sl] by blast
  have q: "bdev ?q = 1" "blockno ?q = n" "bdirty ?q \<longrightarrow> bvalid ?q" "bvalid ?q \<longrightarrow> \<not> bdirty ?q \<longrightarrow> bdata ?q = sectors s' 1 n"
    using bb(2,3) slot_coherent [OF ok sl] e(2) by simp_all
  have "\<forall>m. m \<noteq> n \<longrightarrow> sectors s' 1 m = sectors s 1 m" using e(2) by simp
  from one_bufferI [OF ok bb(1) e(1) idl lru q al this] have o: "one_buffer s s' b ?q" using sl by blast
  have cb: "content s' m = content s m" for m
  proof (cases "m = n")
    case True
    have c: "content s' n = (if bvalid (buf_at b s) then bdata (buf_at b s) else sectors s 1 n)"
      using one_buffer_content [OF o, unfolded q(2)] e(2) by simp
    show ?thesis
    proof (cases "bvalid (buf_at b s)")
      case v: True
      then show ?thesis using True c content_cached [OF ok sl v] by simp
    next
      case v: False
      have "\<not> bvalid (buf_at i s)" if "slot s n i" for i using al v that by blast
      then show ?thesis using True c v content_uncached [of s n] by simp
    qed
  next
    case False
    then show ?thesis by (rule one_buffer_content_other [OF o, unfolded q(2)])
  qed
  have dn: "dirty_block s n = bdirty (buf_at b s)" unfolding dirty_block_def using al sl by blast
  have db: "dirty_block s' = dirty_block s"
  proof
    fix m show "dirty_block s' m = dirty_block s m"
      using one_buffer_dirty [OF o, of m, unfolded q(2)] dn by (cases "m = n") simp_all
  qed
  show ?thesis by (rule that [OF r o e(5,4,2,3) ext db]) (rule cb)
qed

section \<open>Blocks as the users of the cache see them\<close>

text \<open>Between operations: nobody holds a buffer.\<close>

definition quiet :: "'a diskst_scheme \<Rightarrow> bool" where
  "quiet s \<longleftrightarrow> cache_ok s \<and> (\<forall>i<30. refcnt (buf_at i s) = 0 \<and> \<not> slocked (sleeplocks s i))"

text \<open>The running process holds exactly the buffers in \<open>B\<close>, each once.\<close>

definition holds :: "'a diskst_scheme \<Rightarrow> nat set \<Rightarrow> bool" where
  "holds s B \<longleftrightarrow> cache_ok s \<and> (\<forall>i<30. if i \<in> B then refcnt (buf_at i s) = 1 \<and> mine i s
     else refcnt (buf_at i s) = 0 \<and> \<not> slocked (sleeplocks s i))"

lemma holdsD:
  assumes "holds s B" and "i < 30"
  shows "i \<in> B \<Longrightarrow> refcnt (buf_at i s) = 1" "i \<in> B \<Longrightarrow> mine i s"
    "i \<notin> B \<Longrightarrow> refcnt (buf_at i s) = 0" "i \<notin> B \<Longrightarrow> \<not> slocked (sleeplocks s i)"
proof -
  have "if i \<in> B then refcnt (buf_at i s) = 1 \<and> mine i s else refcnt (buf_at i s) = 0 \<and> \<not> slocked (sleeplocks s i)"
    using assms unfolding holds_def by blast
  then show "i \<in> B \<Longrightarrow> refcnt (buf_at i s) = 1" "i \<in> B \<Longrightarrow> mine i s"
    "i \<notin> B \<Longrightarrow> refcnt (buf_at i s) = 0" "i \<notin> B \<Longrightarrow> \<not> slocked (sleeplocks s i)" by simp_all
qed

lemma holdsI:
  assumes "cache_ok s" and "\<And>i. i < 30 \<Longrightarrow> i \<in> B \<Longrightarrow> refcnt (buf_at i s) = 1 \<and> mine i s"
    and "\<And>i. i < 30 \<Longrightarrow> i \<notin> B \<Longrightarrow> refcnt (buf_at i s) = 0 \<and> \<not> slocked (sleeplocks s i)"
  shows "holds s B"
  unfolding holds_def using assms by simp

lemma quiet_holds: "quiet s \<longleftrightarrow> holds s {}"
  by (simp add: quiet_def holds_def)

lemma holds_ok: "holds s B \<Longrightarrow> cache_ok s" by (simp add: holds_def)

lemma slot_lt: "slot s n b \<Longrightarrow> b < 30" by (simp add: slot_def)

lemma holds_unlocked_free: "holds s B \<Longrightarrow> unlocked_free s"
  unfolding unlocked_free_def using holdsD(1,4) [of s B] by (metis one_neq_zero)

lemma holds_slot_unlocked: "holds s B \<Longrightarrow> \<forall>b\<in>B. \<not> slot s n b \<Longrightarrow> \<forall>i. slot s n i \<longrightarrow> \<not> slocked (sleeplocks s i)"
  using holdsD(4) slot_lt by blast

lemma mine_same: "mine i s \<longleftrightarrow> mine i s'" if "same_rest s s'" "sleeplocks s' i = sleeplocks s i"
  using that by (simp add: mine_def same_rest_pid)

lemma read_by_holds:
  assumes h: "holds s B" and B: "\<forall>b\<in>B. \<not> slot s n b" and r: "read_by s n b s'"
  shows "holds s' (insert b B)" and "b \<notin> B" and "\<And>i. spare s i \<Longrightarrow> \<not> bdirty (buf_at i s')"
    and "\<And>i m. i \<in> B \<Longrightarrow> slot s' m i \<longleftrightarrow> slot s m i" and "\<And>i. i \<in> B \<Longrightarrow> buf_at i s' = buf_at i s"
proof -
  have b: "b < 30" and sl: "slot s' n b" and ok: "cache_ok s'" and ul: "\<not> slocked (sleeplocks s b)"
    and lk: "sleeplocks s' = (sleeplocks s)(b := \<lparr>slocked = True, slpid = me_pid s\<rparr>)"
    and sr: "same_rest s s'" and ot: "\<forall>i. i \<noteq> b \<longrightarrow> buf_at i s' = buf_at i s"
    and rf: "if slot s n b then refcnt (buf_at b s') = refcnt (buf_at b s) + 1 \<and> bdirty (buf_at b s') = bdirty (buf_at b s)
      else spare s b \<and> refcnt (buf_at b s') = 1 \<and> \<not> bdirty (buf_at b s')"
    using r slot_lt unfolding read_by_def by blast+
  show nb: "b \<notin> B" using holdsD(2) [OF h b] ul unfolding mine_def by blast
  then have r0: "refcnt (buf_at b s) = 0" by (rule holdsD(3) [OF h b])
  have r1: "refcnt (buf_at b s') = 1" using rf r0 by (cases "slot s n b") simp_all
  have mb: "mine b s'" using lk same_rest_pid [OF sr] by (simp add: mine_def)
  have mo: "mine i s' = mine i s" if "i \<noteq> b" for i using mine_same [OF sr, of i] lk that by simp
  show "holds s' (insert b B)"
  proof (rule holdsI [OF ok])
    fix i assume i: "i < 30" "i \<in> insert b B"
    show "refcnt (buf_at i s') = 1 \<and> mine i s'"
    proof (cases "i = b")
      case False
      then have "i \<in> B" "buf_at i s' = buf_at i s" using i ot by simp_all
      then show ?thesis using holdsD(1,2) [OF h i(1)] mo [OF False] by simp
    qed (simp add: r1 mb)
  next
    fix i assume i: "i < 30" "i \<notin> insert b B"
    then have "i \<notin> B" "buf_at i s' = buf_at i s" "sleeplocks s' i = sleeplocks s i" using ot lk by simp_all
    then show "refcnt (buf_at i s') = 0 \<and> \<not> slocked (sleeplocks s' i)" using holdsD(3,4) [OF h i(1)] by simp
  qed
  show "\<not> bdirty (buf_at i s')" if "spare s i" for i
    using that rf ot by (cases "i = b"; cases "slot s n b") (auto simp: spare_def)
  show at: "buf_at i s' = buf_at i s" if "i \<in> B" for i using that nb ot by metis
  show "slot s' m i \<longleftrightarrow> slot s m i" if "i \<in> B" for i m using at [OF that] by (simp add: slot_def)
qed

lemma relse_holds:
  assumes h: "holds s B" and bB: "b \<in> B" and sl: "slot s n b"
  obtains s' where "brelse b s = Inr s'" "holds s' (B - {b})" "same_rest s s'" "sectors s' = sectors s" "dtrace s' = dtrace s"
    "content s' = content s" "dirty_block s' = dirty_block s" "\<forall>i m. slot s' m i \<longleftrightarrow> slot s m i"
    "\<forall>i. bdirty (buf_at i s') = bdirty (buf_at i s)"
proof -
  have b: "b < 30" using slot_lt [OF sl] .
  note m = holdsD(2) [OF h b bB] and r1 = holdsD(1) [OF h b bB]
  obtain s' where r: "brelse b s = Inr s'" and o: "one_buffer s s' b ((buf_at b s)\<lparr>refcnt := refcnt (buf_at b s) - 1\<rparr>)" (is "one_buffer _ _ _ ?q")
    and e: "same_rest s s'" "sleeplocks s' = (sleeplocks s)(b := \<lparr>slocked = False, slpid = 0\<rparr>)" "sectors s' = sectors s" "dtrace s' = dtrace s"
      "content s' = content s" "dirty_block s' = dirty_block s"
    by (rule brelse_spec [OF holds_ok [OF h] sl m])
  have ot: "buf_at i s' = buf_at i s" if "i \<noteq> b" for i using one_buffer_at(1) [OF o] that by simp
  have qb: "buf_at b s' = ?q" using one_buffer_at(1) [OF o] by simp
  have fb: "refcnt (buf_at b s') = 0" "\<not> slocked (sleeplocks s' b)" using qb r1 e(2) by simp_all
  have mo: "mine i s' = mine i s" if "i \<noteq> b" for i using mine_same [OF e(1), of i] e(2) that by simp
  have "holds s' (B - {b})"
  proof (rule holdsI [OF one_buffer_ok [OF o]])
    fix i assume i: "i < 30" "i \<in> B - {b}"
    then show "refcnt (buf_at i s') = 1 \<and> mine i s'" using holdsD(1,2) [OF h i(1)] ot [of i] mo [of i] by simp
  next
    fix i assume i: "i < 30" "i \<notin> B - {b}"
    show "refcnt (buf_at i s') = 0 \<and> \<not> slocked (sleeplocks s' i)"
    proof (cases "i = b")
      case False
      then show ?thesis using holdsD(3,4) [OF h i(1)] i(2) ot [of i] e(2) by simp
    qed (simp add: fb)
  qed
  moreover have "slot s' m i \<longleftrightarrow> slot s m i" "bdirty (buf_at i s') = bdirty (buf_at i s)" for i m
    using ot [of i] qb by (cases "i = b"; simp add: slot_def)+
  ultimately show ?thesis using that [OF r _ e(1,3,4,5,6)] by blast
qed

lemma write_holds:
  assumes h: "holds s B" and bB: "b \<in> B" and sl: "slot s n b" and n: "n < 1000"
    and s0: "s0 = s\<lparr>bufs := (bufs s)[b := (buf_at b s)\<lparr>bdata := d\<rparr>]\<rparr>"
  obtains s' where "bwrite b s0 = Inr s'" "holds s' B" "same_rest s s'" "sectors s' = (sectors s)(1 := (sectors s 1)(n := d))"
    "dtrace s' = dtrace s @ [(1, n, d)]" "content s' = (content s)(n := d)" "\<forall>m. dirty_block s' m \<longleftrightarrow> m \<noteq> n \<and> dirty_block s m"
    "\<forall>i m. slot s' m i \<longleftrightarrow> slot s m i" "\<forall>i. bdirty (buf_at i s') \<longleftrightarrow> i \<noteq> b \<and> bdirty (buf_at i s)"
proof -
  have b: "b < 30" using slot_lt [OF sl] .
  note m = holdsD(2) [OF h b bB]
  obtain s' where r: "bwrite b s0 = Inr s'" and o: "one_buffer s s' b ((buf_at b s)\<lparr>bdata := d, bvalid := True, bdirty := False\<rparr>)" (is "one_buffer _ _ _ ?q")
    and e: "same_rest s s'" "sleeplocks s' = sleeplocks s" "sectors s' = (sectors s)(1 := (sectors s 1)(n := d))" "dtrace s' = dtrace s @ [(1, n, d)]"
    by (rule bwrite_spec [OF holds_ok [OF h] sl m n s0])
  have ot: "buf_at i s' = buf_at i s" if "i \<noteq> b" for i using one_buffer_at(1) [OF o] that by simp
  have qb: "buf_at b s' = ?q" using one_buffer_at(1) [OF o] by simp
  have qn: "blockno ?q = n" using sl by (simp add: slot_def)
  have "refcnt (buf_at i s') = refcnt (buf_at i s)" "mine i s' = mine i s" for i
    using ot [of i] qb mine_same [OF e(1), of i] e(2) by (cases "i = b"; simp)+
  then have "holds s' B"
    using holdsD [OF h] e(2) by (intro holdsI one_buffer_ok [OF o]) simp_all
  moreover have "slot s' m i \<longleftrightarrow> slot s m i" "bdirty (buf_at i s') \<longleftrightarrow> i \<noteq> b \<and> bdirty (buf_at i s)" for i m
    using ot [of i] qb by (cases "i = b"; simp add: slot_def)+
  moreover have "content s' = (content s)(n := d)"
  proof
    fix m show "content s' m = ((content s)(n := d)) m"
      using one_buffer_content [OF o, unfolded qn] one_buffer_content_other [OF o, unfolded qn, of m] by (cases "m = n") simp_all
  qed
  moreover have "dirty_block s' m \<longleftrightarrow> m \<noteq> n \<and> dirty_block s m" for m
    using one_buffer_dirty [OF o, of m, unfolded qn] by (cases "m = n") simp_all
  ultimately show ?thesis using that [OF r _ e(1,3,4)] by blast
qed

lemma read_holds:
  assumes h: "holds s B" and B: "\<forall>b\<in>B. \<not> slot s n b" and n: "n < 1000" and av: "(\<exists>i. slot s n i) \<or> (\<exists>i. spare s i)"
  obtains b s' where "bread 1 n s = Inr (b, s')" "read_by s n b s'"
  using bread_spec [OF holds_ok [OF h] n holds_unlocked_free [OF h] holds_slot_unlocked [OF h B] av] that by blast

end
