(* ===== verification/Log_Crash.thy ===== *)
theory Log_Crash
  imports Log Bio
begin

text \<open>
  Crash safety of the log. Every operation of the log is characterised by the sequence of
  sector writes it makes; a power failure leaves the disk with a prefix of them. The
  last section shows that recovery after a failure at any point of a commit gives either
  none or all of the transaction.
\<close>

section \<open>Effects on the disk\<close>

definition upds :: "(u32 \<times> u8 list) list \<Rightarrow> (u32 \<Rightarrow> u8 list) \<Rightarrow> u32 \<Rightarrow> u8 list" where
  "upds ws f = fold (\<lambda>(n, d) f. f(n := d)) ws f"

lemma upds_simps [simp]: "upds [] f = f" "upds ((n, d) # ws) f = upds ws (f(n := d))" "upds (ws @ vs) f = upds vs (upds ws f)"
  by (simp_all add: upds_def)

lemma upds_other: "n \<notin> fst ` set ws \<Longrightarrow> upds ws f n = f n"
  by (induction ws arbitrary: f) auto

definition effect :: "'a diskst_scheme \<Rightarrow> 'a diskst_scheme \<Rightarrow> (u32 \<times> u8 list) list \<Rightarrow> bool" where
  "effect s s' ws \<longleftrightarrow> quiet s' \<and> same_rest s s' \<and> dtrace s' = dtrace s @ map (Pair 1) ws \<and>
     sectors s' = (sectors s)(1 := upds ws (sectors s 1)) \<and> content s' = upds ws (content s) \<and>
     (\<forall>m. dirty_block s' m \<longleftrightarrow> dirty_block s m \<and> m \<notin> fst ` set ws) \<and> (\<forall>i. spare s i \<longrightarrow> spare s' i)"

lemma effect_refl: "quiet s \<Longrightarrow> effect s s []" by (simp add: effect_def)

lemma effect_trans: "effect s s' ws \<Longrightarrow> effect s' s'' vs \<Longrightarrow> effect s s'' (ws @ vs)"
  by (auto simp: effect_def intro: same_rest_trans)

lemma effectD:
  assumes "effect s s' ws"
  shows "quiet s'" "same_rest s s'" "content s' = upds ws (content s)" "\<And>i. spare s i \<Longrightarrow> spare s' i"
    "sectors s' 1 = upds ws (sectors s 1)" "dtrace s' = dtrace s @ map (Pair 1) ws"
    "\<And>m. dirty_block s' m \<longleftrightarrow> dirty_block s m \<and> m \<notin> fst ` set ws"
  using assms by (simp_all add: effect_def)

definition two_spares :: "'a diskst_scheme \<Rightarrow> bool" where
  "two_spares s \<longleftrightarrow> (\<exists>i j. i \<noteq> j \<and> spare s i \<and> spare s j)"

lemma two_spares_effect: "effect s s' ws \<Longrightarrow> two_spares s \<Longrightarrow> two_spares s'"
  unfolding two_spares_def using effectD(4) by blast

section \<open>Copying a block\<close>

lemma read_by_data: "read_by s n b s' \<Longrightarrow> bdata (buf_at b s') = content s n"
  using content_cached [of s' n b] by (simp add: read_by_def)

lemma two_reads:
  assumes q: "quiet s" and x: "x < 1000" "y < 1000" "x \<noteq> y" and sp: "two_spares s"
  obtains b1 s1 b2 s2 where "bread 1 x s = Inr (b1, s1)" "bread 1 y s1 = Inr (b2, s2)" "same_rest s s1" "same_rest s s2"
    "holds s2 {b1, b2}" "b1 \<noteq> b2" "slot s2 x b1" "slot s2 y b2" "bdata (buf_at b1 s2) = content s x" "bdata (buf_at b2 s2) = content s y"
    "content s2 = content s" "dirty_block s2 = dirty_block s" "sectors s2 = sectors s" "dtrace s2 = dtrace s"
    "\<forall>i. spare s i \<longrightarrow> \<not> bdirty (buf_at i s2)"
proof -
  have h0: "holds s {}" using q by (simp add: quiet_holds)
  obtain i j where ij: "i \<noteq> j" "spare s i" "spare s j" using sp by (auto simp: two_spares_def)
  obtain b1 s1 where r1: "bread 1 x s = Inr (b1, s1)" "read_by s x b1 s1"
    using read_holds [OF h0 _ x(1)] ij by blast
  have h1: "holds s1 {b1}" and d1: "\<And>k. spare s k \<Longrightarrow> \<not> bdirty (buf_at k s1)"
    using read_by_holds(1,3) [OF h0 _ r1(2)] by simp_all
  have sl1: "slot s1 x b1" and c1: "content s1 = content s" "dirty_block s1 = dirty_block s" "sectors s1 = sectors s"
      "dtrace s1 = dtrace s" "same_rest s s1"
    using r1(2) by (simp_all add: read_by_def)
  have ns: "\<forall>b\<in>{b1}. \<not> slot s1 y b" using sl1 x(3) by (auto simp: slot_def)
  obtain k where k: "k \<noteq> b1" "spare s k" using ij by metis
  then have "spare s1 k" using h1 d1 [OF k(2)] holdsD(3) [OF h1, of k] by (simp add: spare_def)
  then obtain b2 s2 where r2: "bread 1 y s1 = Inr (b2, s2)" "read_by s1 y b2 s2"
    using read_holds [OF h1 ns x(2)] by blast
  note hh = read_by_holds [OF h1 ns r2(2)]
  have c2: "content s2 = content s1" "dirty_block s2 = dirty_block s1" "sectors s2 = sectors s1" "dtrace s2 = dtrace s1"
      "same_rest s1 s2" "slot s2 y b2" and o2: "\<forall>i. i \<noteq> b2 \<longrightarrow> buf_at i s2 = buf_at i s1"
    using r2(2) by (simp_all add: read_by_def)
  have b12: "b1 \<noteq> b2" using hh(2) by auto
  have dirt: "\<not> bdirty (buf_at i s2)" if sp: "spare s i" for i
  proof (cases "i = b2")
    case False
    then show ?thesis using o2 d1 [OF sp] by simp
  next
    case True
    have "i \<notin> {b1}" using True b12 by simp
    then have "refcnt (buf_at i s1) = 0" using holdsD(3) [OF h1, of i] sp by (simp add: spare_def)
    then have "spare s1 i" using d1 [OF sp] sp by (simp add: spare_def)
    then show ?thesis by (rule hh(3))
  qed
  have "slot s2 x b1" using hh(4) sl1 by simp
  moreover have "bdata (buf_at b1 s2) = content s x" using read_by_data [OF r1(2)] hh(5) by simp
  moreover have "bdata (buf_at b2 s2) = content s y" using read_by_data [OF r2(2)] c1(1) by simp
  moreover have "holds s2 {b1, b2}" using hh(1) by (simp add: insert_commute)
  ultimately show ?thesis
    using that [OF r1(1) r2(1) c1(5) same_rest_trans [OF c1(5) c2(5)]] b12 c1 c2 dirt by simp
qed

text \<open>Writing one of two held buffers and giving both back, in either order.\<close>

lemma write_release:
  assumes h: "holds s {c, e}" and ce: "c \<noteq> e" and slc: "slot s xc c" and sle: "slot s xe e" and n: "n < 1000"
    and b: "b \<in> {c, e}" "slot s n b" and s0: "s0 = s\<lparr>bufs := (bufs s)[b := (buf_at b s)\<lparr>bdata := d\<rparr>]\<rparr>"
  obtains s3 s4 s5 where "bwrite b s0 = Inr s3" "brelse c s3 = Inr s4" "brelse e s4 = Inr s5" "quiet s5" "same_rest s s5"
    "same_rest s s3" "same_rest s s4"
    "dtrace s5 = dtrace s @ [(1, n, d)]" "sectors s5 = (sectors s)(1 := (sectors s 1)(n := d))" "content s5 = (content s)(n := d)"
    "\<forall>m. dirty_block s5 m \<longleftrightarrow> m \<noteq> n \<and> dirty_block s m" "\<forall>i. \<not> bdirty (buf_at i s) \<longrightarrow> \<not> bdirty (buf_at i s5)"
proof -
  obtain s3 where w: "bwrite b s0 = Inr s3" "holds s3 {c, e}" "same_rest s s3" "sectors s3 = (sectors s)(1 := (sectors s 1)(n := d))"
    "dtrace s3 = dtrace s @ [(1, n, d)]" "content s3 = (content s)(n := d)" "\<forall>m. dirty_block s3 m \<longleftrightarrow> m \<noteq> n \<and> dirty_block s m"
    "\<forall>i m. slot s3 m i \<longleftrightarrow> slot s m i" "\<forall>i. bdirty (buf_at i s3) \<longleftrightarrow> i \<noteq> b \<and> bdirty (buf_at i s)"
    by (rule write_holds [OF h b(1,2) n s0])
  obtain s4 where r: "brelse c s3 = Inr s4" "holds s4 ({c, e} - {c})" "same_rest s3 s4" "sectors s4 = sectors s3" "dtrace s4 = dtrace s3"
    "content s4 = content s3" "dirty_block s4 = dirty_block s3" "\<forall>i m. slot s4 m i \<longleftrightarrow> slot s3 m i"
    "\<forall>i. bdirty (buf_at i s4) = bdirty (buf_at i s3)"
    by (rule relse_holds [OF w(2) _ w(8) [rule_format, THEN iffD2, OF slc]]) simp_all
  obtain s5 where r5: "brelse e s4 = Inr s5" "holds s5 ({c, e} - {c} - {e})" "same_rest s4 s5" "sectors s5 = sectors s4" "dtrace s5 = dtrace s4"
    "content s5 = content s4" "dirty_block s5 = dirty_block s4" "\<forall>i m. slot s5 m i \<longleftrightarrow> slot s4 m i"
    "\<forall>i. bdirty (buf_at i s5) = bdirty (buf_at i s4)"
    by (rule relse_holds [OF r(2) _ r(8) [rule_format, THEN iffD2, OF w(8) [rule_format, THEN iffD2, OF sle]]]) (use ce in simp_all)
  have em: "{c, e} - {c} - {e} = {}" by auto
  have q: "quiet s5" using r5(2) unfolding em quiet_holds .
  have rest: "same_rest s s4" "same_rest s s5" using same_rest_trans w(3) r(3) r5(3) by blast+
  show ?thesis
    by (rule that [OF w(1) r(1) r5(1) q rest(2) w(3) rest(1)])
      (simp_all add: w(4-7,9) r(4-7,9) r5(4-7,9))
qed

text \<open>The two ways the log copies a block, as \<open>install_trans\<close> and as \<open>write_log\<close> do it.\<close>

lemma copy_to_second:
  assumes q: "quiet s" and x: "x < 1000" "y < 1000" "x \<noteq> y" and sp: "two_spares s"
  obtains b1 s1 b2 s2 s3 s4 s5 where "bread 1 x s = Inr (b1, s1)" "same_rest s s1" "bread 1 y s1 = Inr (b2, s2)" "same_rest s s2"
    "bwrite b2 (upd_buf b2 (\<lambda>p. p\<lparr>bdata := bdata (buf_at b1 s2)\<rparr>) s2) = Inr s3"
    "brelse b1 s3 = Inr s4" "brelse b2 s4 = Inr s5" "effect s s5 [(y, content s x)]"
proof -
  obtain b1 s1 b2 s2 where r: "bread 1 x s = Inr (b1, s1)" "bread 1 y s1 = Inr (b2, s2)" "same_rest s s1" "same_rest s s2"
    "holds s2 {b1, b2}" "b1 \<noteq> b2" "slot s2 x b1" "slot s2 y b2" "bdata (buf_at b1 s2) = content s x" "bdata (buf_at b2 s2) = content s y"
    "content s2 = content s" "dirty_block s2 = dirty_block s" "sectors s2 = sectors s" "dtrace s2 = dtrace s"
    "\<forall>i. spare s i \<longrightarrow> \<not> bdirty (buf_at i s2)"
    by (rule two_reads [OF q x sp])
  have s0: "upd_buf b2 (\<lambda>p. p\<lparr>bdata := bdata (buf_at b1 s2)\<rparr>) s2 = s2\<lparr>bufs := (bufs s2)[b2 := (buf_at b2 s2)\<lparr>bdata := content s x\<rparr>]\<rparr>"
    by (simp add: upd_buf_def r(9)) (simp add: buf_at_def)
  obtain s3 s4 s5 where w: "bwrite b2 (upd_buf b2 (\<lambda>p. p\<lparr>bdata := bdata (buf_at b1 s2)\<rparr>) s2) = Inr s3"
    "brelse b1 s3 = Inr s4" "brelse b2 s4 = Inr s5" "quiet s5" "same_rest s2 s5" "same_rest s2 s3" "same_rest s2 s4"
    "dtrace s5 = dtrace s2 @ [(1, y, content s x)]" "sectors s5 = (sectors s2)(1 := (sectors s2 1)(y := content s x))"
    "content s5 = (content s2)(y := content s x)" "\<forall>m. dirty_block s5 m \<longleftrightarrow> m \<noteq> y \<and> dirty_block s2 m"
    "\<forall>i. \<not> bdirty (buf_at i s2) \<longrightarrow> \<not> bdirty (buf_at i s5)"
    by (rule write_release [OF r(5,6,7,8) x(2) _ r(8) s0]) simp
  have "spare s5 i" if "spare s i" for i
    using that w(4) w(12) r(15) by (simp add: spare_def quiet_def)
  then have "effect s s5 [(y, content s x)]"
    unfolding effect_def using w(4) same_rest_trans [OF r(4) w(5)] w(8-11) r(11-14) by auto
  with that r w show ?thesis by blast
qed

lemma copy_to_first:
  assumes q: "quiet s" and x: "x < 1000" "y < 1000" "x \<noteq> y" and sp: "two_spares s"
  obtains b1 s1 b2 s2 s3 s4 s5 where "bread 1 x s = Inr (b1, s1)" "same_rest s s1" "bread 1 y s1 = Inr (b2, s2)" "same_rest s s2"
    "bwrite b1 (upd_buf b1 (\<lambda>p. p\<lparr>bdata := bdata (buf_at b2 s2)\<rparr>) s2) = Inr s3"
    "brelse b2 s3 = Inr s4" "brelse b1 s4 = Inr s5" "effect s s5 [(x, content s y)]"
proof -
  obtain b1 s1 b2 s2 where r: "bread 1 x s = Inr (b1, s1)" "bread 1 y s1 = Inr (b2, s2)" "same_rest s s1" "same_rest s s2"
    "holds s2 {b1, b2}" "b1 \<noteq> b2" "slot s2 x b1" "slot s2 y b2" "bdata (buf_at b1 s2) = content s x" "bdata (buf_at b2 s2) = content s y"
    "content s2 = content s" "dirty_block s2 = dirty_block s" "sectors s2 = sectors s" "dtrace s2 = dtrace s"
    "\<forall>i. spare s i \<longrightarrow> \<not> bdirty (buf_at i s2)"
    by (rule two_reads [OF q x sp])
  have h: "holds s2 {b2, b1}" "b2 \<noteq> b1" using r(5,6) by (simp_all add: insert_commute)
  have s0: "upd_buf b1 (\<lambda>p. p\<lparr>bdata := bdata (buf_at b2 s2)\<rparr>) s2 = s2\<lparr>bufs := (bufs s2)[b1 := (buf_at b1 s2)\<lparr>bdata := content s y\<rparr>]\<rparr>"
    by (simp add: upd_buf_def r(10)) (simp add: buf_at_def)
  obtain s3 s4 s5 where w: "bwrite b1 (upd_buf b1 (\<lambda>p. p\<lparr>bdata := bdata (buf_at b2 s2)\<rparr>) s2) = Inr s3"
    "brelse b2 s3 = Inr s4" "brelse b1 s4 = Inr s5" "quiet s5" "same_rest s2 s5" "same_rest s2 s3" "same_rest s2 s4"
    "dtrace s5 = dtrace s2 @ [(1, x, content s y)]" "sectors s5 = (sectors s2)(1 := (sectors s2 1)(x := content s y))"
    "content s5 = (content s2)(x := content s y)" "\<forall>m. dirty_block s5 m \<longleftrightarrow> m \<noteq> x \<and> dirty_block s2 m"
    "\<forall>i. \<not> bdirty (buf_at i s2) \<longrightarrow> \<not> bdirty (buf_at i s5)"
    by (rule write_release [OF h r(8,7) x(1) _ r(7) s0]) simp
  have "spare s5 i" if "spare s i" for i
    using that w(4) w(12) r(15) by (simp add: spare_def quiet_def)
  then have "effect s s5 [(x, content s y)]"
    unfolding effect_def using w(4) same_rest_trans [OF r(4) w(5)] w(8-11) r(11-14) by auto
  with that r w show ?thesis by blast
qed

text \<open>Reading a block, changing it, writing it through and giving it back.\<close>

lemma rewrite_block:
  assumes q: "quiet s" and n: "n < 1000" and sp: "two_spares s"
  obtains b s1 where "bread 1 n s = Inr (b, s1)" "same_rest s s1" "bdata (buf_at b s1) = content s n" "b < length (bufs s1)"
    "\<forall>d. \<exists>s2 s3. bwrite b (s1\<lparr>bufs := (bufs s1)[b := (buf_at b s1)\<lparr>bdata := d\<rparr>]\<rparr>) = Inr s2 \<and> brelse b s2 = Inr s3 \<and> effect s s3 [(n, d)]"
    "\<exists>s3. brelse b s1 = Inr s3 \<and> effect s s3 []"
proof -
  have h0: "holds s {}" using q by (simp add: quiet_holds)
  obtain i where "spare s i" using sp by (auto simp: two_spares_def)
  then obtain b s1 where r: "bread 1 n s = Inr (b, s1)" "read_by s n b s1" using read_holds [OF h0 _ n] by blast
  have h1: "holds s1 {b}" and d1: "\<And>k. spare s k \<Longrightarrow> \<not> bdirty (buf_at k s1)"
    using read_by_holds(1,3) [OF h0 _ r(2)] by simp_all
  have sl: "slot s1 n b" and c1: "content s1 = content s" "dirty_block s1 = dirty_block s" "sectors s1 = sectors s"
      "dtrace s1 = dtrace s" "same_rest s s1" "cache_ok s1"
    using r(2) by (simp_all add: read_by_def)
  have bl: "b < length (bufs s1)" using c1(6) slot_lt [OF sl] by (simp add: cache_ok_def idle_disk_def)
  have em: "{b} - {b} = {}" by simp
  have w: "\<exists>s2 s3. bwrite b (s1\<lparr>bufs := (bufs s1)[b := (buf_at b s1)\<lparr>bdata := d\<rparr>]\<rparr>) = Inr s2 \<and> brelse b s2 = Inr s3 \<and> effect s s3 [(n, d)]" for d
  proof -
    obtain s2 where w: "bwrite b (s1\<lparr>bufs := (bufs s1)[b := (buf_at b s1)\<lparr>bdata := d\<rparr>]\<rparr>) = Inr s2" "holds s2 {b}" "same_rest s1 s2"
      "sectors s2 = (sectors s1)(1 := (sectors s1 1)(n := d))" "dtrace s2 = dtrace s1 @ [(1, n, d)]" "content s2 = (content s1)(n := d)"
      "\<forall>m. dirty_block s2 m \<longleftrightarrow> m \<noteq> n \<and> dirty_block s1 m" "\<forall>i m. slot s2 m i \<longleftrightarrow> slot s1 m i"
      "\<forall>i. bdirty (buf_at i s2) \<longleftrightarrow> i \<noteq> b \<and> bdirty (buf_at i s1)"
      by (rule write_holds [OF h1 _ sl n refl]) simp
    have sl2: "slot s2 n b" using w(8) sl by blast
    obtain s3 where v: "brelse b s2 = Inr s3" "holds s3 ({b} - {b})" "same_rest s2 s3" "sectors s3 = sectors s2" "dtrace s3 = dtrace s2"
      "content s3 = content s2" "dirty_block s3 = dirty_block s2" "\<forall>i m. slot s3 m i \<longleftrightarrow> slot s2 m i"
      "\<forall>i. bdirty (buf_at i s3) = bdirty (buf_at i s2)"
      by (rule relse_holds [OF w(2) _ sl2]) simp
    have q3: "quiet s3" using v(2) unfolding em quiet_holds .
    have "spare s3 k" if "spare s k" for k
      using that q3 v(9) w(9) d1 by (simp add: spare_def quiet_def)
    then have "effect s s3 [(n, d)]"
      unfolding effect_def using q3 same_rest_trans [OF same_rest_trans [OF c1(5) w(3)] v(3)] v(4-7) w(4-7) c1(1-4) by auto
    then show ?thesis using w(1) v(1) by blast
  qed
  obtain s3 where v: "brelse b s1 = Inr s3" "holds s3 ({b} - {b})" "same_rest s1 s3" "sectors s3 = sectors s1" "dtrace s3 = dtrace s1"
    "content s3 = content s1" "dirty_block s3 = dirty_block s1" "\<forall>i m. slot s3 m i \<longleftrightarrow> slot s1 m i"
    "\<forall>i. bdirty (buf_at i s3) = bdirty (buf_at i s1)"
    by (rule relse_holds [OF h1 _ sl]) simp
  have q3: "quiet s3" using v(2) unfolding em quiet_holds .
  have "spare s3 k" if "spare s k" for k using that q3 v(9) d1 by (simp add: spare_def quiet_def)
  then have "effect s s3 []"
    unfolding effect_def using q3 same_rest_trans [OF c1(5) v(3)] v(4-7) c1(1-4) by auto
  then show ?thesis using that [OF r(1) c1(5) read_by_data [OF r(2)] bl] w v(1) by blast
qed

section \<open>The header block\<close>

lemma upto_int: "[0..int n - 1] = map int [0..<n]"
proof (induction n)
  case (Suc n)
  have "[0..int (Suc n) - 1] = [0..int n - 1] @ [int n]" using upto_rec2 [of 0 "int n"] by simp
  then show ?case using Suc by simp
qed simp

text \<open>What \<open>write_head\<close> makes of the block \<open>d\<close>.\<close>

definition head_words :: "nat list \<Rightarrow> int list \<Rightarrow> u8 list \<Rightarrow> u8 list" where
  "head_words ks bl d = fold (\<lambda>k d. put32 d (4 + 4 * k) (of_int (bl ! k))) ks d"

definition head_bytes :: "nat \<Rightarrow> int list \<Rightarrow> u8 list \<Rightarrow> u8 list" where
  "head_bytes n bl d = head_words [0..<n] bl (put32 d 0 (of_int (int n)))"

lemma head_words_simps [simp]:
  "head_words [] bl d = d" "head_words (k # ks) bl d = head_words ks bl (put32 d (4 + 4 * k) (of_int (bl ! k)))"
  "head_words (ks @ ls) bl d = head_words ls bl (head_words ks bl d)"
  by (simp_all add: head_words_def)

lemma length_head_words [simp]: "length (head_words ks bl d) = length d"
  by (induction ks arbitrary: d) simp_all

lemma head_words_below: "\<forall>k\<in>set ks. j \<le> 4 * k \<Longrightarrow> get32 (head_words ks bl d) j = get32 d j"
  by (induction ks arbitrary: d) (simp_all add: get32_put32_other)

lemma head_words_at: "k < n \<Longrightarrow> 4 + 4 * n \<le> length d \<Longrightarrow> get32 (head_words [0..<n] bl d) (4 + 4 * k) = of_int (bl ! k)"
proof (induction n)
  case (Suc n)
  then show ?case by (cases "k = n") (simp_all add: get32_put32 get32_put32_other)
qed simp

lemma head_bytes_count: "4 \<le> length d \<Longrightarrow> get32 (head_bytes n bl d) 0 = of_nat n"
  by (simp add: head_bytes_def head_words_below get32_put32)

lemma head_bytes_entry: "k < n \<Longrightarrow> 4 + 4 * n \<le> length d \<Longrightarrow> get32 (head_bytes n bl d) (4 + 4 * k) = of_int (bl ! k)"
  by (simp add: head_bytes_def head_words_at)

lemma write_head_loop_words:
  assumes "b < length (bufs s1)" and "\<forall>k\<in>set ks. k < 30"
  shows "write_head_loop (map int ks) b (s1\<lparr>bufs := (bufs s1)[b := q\<lparr>bdata := d\<rparr>]\<rparr>) =
    Inr (s1\<lparr>bufs := (bufs s1)[b := q\<lparr>bdata := head_words ks (lh_block s1) d\<rparr>]\<rparr>)"
  using assms(2)
proof (induction ks arbitrary: d)
  case (Cons k ks)
  have "upd_buf b (\<lambda>p. p\<lparr>bdata := put32 (bdata p) (4 + 4 * k) v\<rparr>) (s1\<lparr>bufs := (bufs s1)[b := q\<lparr>bdata := d\<rparr>]\<rparr>) =
      s1\<lparr>bufs := (bufs s1)[b := q\<lparr>bdata := put32 d (4 + 4 * k) v\<rparr>]\<rparr>" for v
    using assms(1) by (simp add: upd_buf_def)
  then show ?case using Cons by (simp add: lh_get_def)
qed simp

section \<open>The operations of the log\<close>

definition log_same :: "'a logst_scheme \<Rightarrow> 'a logst_scheme \<Rightarrow> bool" where
  "log_same s s' \<longleftrightarrow> log_start s' = log_start s \<and> log_dev s' = log_dev s \<and> lh_n s' = lh_n s \<and> lh_block s' = lh_block s"

lemma log_same_rest: "same_rest s s' \<Longrightarrow> log_same s s'"
  by (cases s; cases s') (simp add: same_rest_def log_same_def)

text \<open>The log is on the device of the file system, its blocks and the logged blocks are on the disk, and no logged block is
  in the log or listed twice; the cache has room for two more blocks.\<close>

definition log_head :: "'a logst_scheme \<Rightarrow> u32" where "log_head s = of_int (log_start s)"

definition log_slot :: "'a logst_scheme \<Rightarrow> nat \<Rightarrow> u32" where "log_slot s k = of_int (log_start s + int k + 1)"

definition log_home :: "'a logst_scheme \<Rightarrow> nat \<Rightarrow> u32" where "log_home s k = of_int (lh_block s ! k)"

definition log_area :: "'a logst_scheme \<Rightarrow> u32 set" where "log_area s = insert (log_head s) (log_slot s ` {..<30})"

definition log_ready :: "'a logst_scheme \<Rightarrow> bool" where
  "log_ready s \<longleftrightarrow> quiet s \<and> two_spares s \<and> log_dev s = 1 \<and> 0 \<le> log_start s \<and> log_start s < 900 \<and> length (lh_block s) = 30"

definition log_homes :: "nat \<Rightarrow> 'a logst_scheme \<Rightarrow> bool" where
  "log_homes n s \<longleftrightarrow> n \<le> 30 \<and> (\<forall>k<n. 0 \<le> lh_block s ! k \<and> lh_block s ! k < 1000 \<and> log_home s k \<notin> log_area s)"

lemma small_word: "0 \<le> i \<Longrightarrow> i < 1000 \<Longrightarrow> (of_int i :: u32) < 1000"
  by (simp add: word_less_def uint_word_of_int)

lemma small_word_inj: "0 \<le> i \<Longrightarrow> i < 1000 \<Longrightarrow> 0 \<le> j \<Longrightarrow> j < 1000 \<Longrightarrow> (of_int i :: u32) = of_int j \<longleftrightarrow> i = j"
  by (simp add: word_uint_eq_iff unsigned_of_int take_bit_int_eq_self)

lemma log_slot_distinct:
  assumes "log_ready s" and "k < 30" and "l < 30"
  shows "log_slot s k < 1000" "log_slot s k = log_slot s l \<longleftrightarrow> k = l" "log_slot s k \<noteq> log_head s" "log_head s < 1000"
  using assms by (simp_all add: log_ready_def log_slot_def log_head_def small_word small_word_inj del: of_int_add of_int_of_nat_eq)

lemma log_same_names:
  assumes "log_same s s'"
  shows "log_head s' = log_head s" "log_slot s' = log_slot s" "log_home s' = log_home s" "log_area s' = log_area s"
    "log_homes n s' = log_homes n s"
  using assms by (auto simp: log_same_def log_head_def log_slot_def log_home_def log_area_def log_homes_def fun_eq_iff)

lemma log_ready_effect:
  assumes "log_ready s" and "effect s s' ws"
  shows "log_ready s'" "log_same s s'"
  using assms log_same_rest [OF effectD(2) [OF assms(2)]] two_spares_effect [OF assms(2)] effectD(1) [OF assms(2)]
  by (simp_all add: log_ready_def log_same_def)

lemma log_home_ok:
  assumes "log_homes n s" and "k < n" and "l < 30"
  shows "log_home s k < 1000" "log_home s k \<noteq> log_slot s l" "log_home s k \<noteq> log_head s" "k < 30"
  using assms by (auto simp: log_homes_def log_home_def log_area_def small_word)

lemma install_trans_effect:
  "log_ready s \<Longrightarrow> log_homes n s \<Longrightarrow> set ks \<subseteq> {..<n} \<Longrightarrow>
   \<exists>s'. install_trans_loop (map int ks) s = Inr s' \<and> effect s s' (map (\<lambda>k. (log_home s k, content s (log_slot s k))) ks)"
proof (induction ks arbitrary: s)
  case Nil
  then show ?case by (simp add: effect_refl log_ready_def)
next
  case (Cons k ks)
  have k: "k < n" "k < 30" using Cons.prems by (auto simp: log_homes_def)
  note hm = log_home_ok [OF Cons.prems(2) k(1)]
  have r: "quiet s" "two_spares s" "log_dev s = 1" using Cons.prems(1) by (simp_all add: log_ready_def)
  obtain b1 s1 b2 s2 s3 s4 s5 where c: "bread 1 (log_slot s k) s = Inr (b1, s1)" "same_rest s s1"
    "bread 1 (log_home s k) s1 = Inr (b2, s2)" "same_rest s s2"
    "bwrite b2 (upd_buf b2 (\<lambda>p. p\<lparr>bdata := bdata (buf_at b1 s2)\<rparr>) s2) = Inr s3"
    "brelse b1 s3 = Inr s4" "brelse b2 s4 = Inr s5" "effect s s5 [(log_home s k, content s (log_slot s k))]"
    by (rule copy_to_second [OF r(1) log_slot_distinct(1) [OF Cons.prems(1) k(2) k(2)] hm(1) [OF k(2)] hm(2) [OF k(2), symmetric] r(2)])
  have l1: "lh_block s1 = lh_block s" "log_dev s1 = 1" using log_same_rest [OF c(2)] r(3) by (simp_all add: log_same_def)
  have st: "install_trans_loop (map int (k # ks)) s = install_trans_loop (map int ks) s5"
    using c k r(3) l1 by (simp add: lh_get_def log_blk_def log_slot_def log_home_def)
  note e = log_ready_effect [OF Cons.prems(1) c(8)]
  obtain s' where s': "install_trans_loop (map int ks) s5 = Inr s'"
      "effect s5 s' (map (\<lambda>k. (log_home s5 k, content s5 (log_slot s5 k))) ks)"
    using Cons.IH [OF e(1)] Cons.prems(2,3) log_same_names [OF e(2)] by auto
  have "content s5 (log_slot s l) = content s (log_slot s l)" if "l \<in> set ks" for l
  proof -
    have "l < 30" using that Cons.prems(2,3) by (auto simp: log_homes_def)
    then show ?thesis using hm(2) [THEN not_sym] effectD(3) [OF c(8)] by simp
  qed
  then have "effect s5 s' (map (\<lambda>k. (log_home s k, content s (log_slot s k))) ks)"
    using s'(2) log_same_names [OF e(2)] by (simp cong: map_cong)
  then show ?case using st s'(1) effect_trans [OF c(8)] by auto
qed

lemma write_log_effect:
  "log_ready s \<Longrightarrow> log_homes n s \<Longrightarrow> set ks \<subseteq> {..<n} \<Longrightarrow>
   \<exists>s'. write_log_loop (map int ks) s = Inr s' \<and> effect s s' (map (\<lambda>k. (log_slot s k, content s (log_home s k))) ks)"
proof (induction ks arbitrary: s)
  case Nil
  then show ?case by (simp add: effect_refl log_ready_def)
next
  case (Cons k ks)
  have k: "k < n" "k < 30" using Cons.prems by (auto simp: log_homes_def)
  note hm = log_home_ok [OF Cons.prems(2) k(1)]
  have r: "quiet s" "two_spares s" "log_dev s = 1" using Cons.prems(1) by (simp_all add: log_ready_def)
  obtain b1 s1 b2 s2 s3 s4 s5 where c: "bread 1 (log_slot s k) s = Inr (b1, s1)" "same_rest s s1"
    "bread 1 (log_home s k) s1 = Inr (b2, s2)" "same_rest s s2"
    "bwrite b1 (upd_buf b1 (\<lambda>p. p\<lparr>bdata := bdata (buf_at b2 s2)\<rparr>) s2) = Inr s3"
    "brelse b2 s3 = Inr s4" "brelse b1 s4 = Inr s5" "effect s s5 [(log_slot s k, content s (log_home s k))]"
    by (rule copy_to_first [OF r(1) log_slot_distinct(1) [OF Cons.prems(1) k(2) k(2)] hm(1) [OF k(2)] hm(2) [OF k(2), symmetric] r(2)])
  have l1: "lh_block s1 = lh_block s" "log_dev s1 = 1" using log_same_rest [OF c(2)] r(3) by (simp_all add: log_same_def)
  have st: "write_log_loop (map int (k # ks)) s = write_log_loop (map int ks) s5"
    using c k r(3) l1 by (simp add: lh_get_def log_blk_def log_slot_def log_home_def)
  note e = log_ready_effect [OF Cons.prems(1) c(8)]
  obtain s' where s': "write_log_loop (map int ks) s5 = Inr s'"
      "effect s5 s' (map (\<lambda>k. (log_slot s5 k, content s5 (log_home s5 k))) ks)"
    using Cons.IH [OF e(1)] Cons.prems(2,3) log_same_names [OF e(2)] by auto
  have "content s5 (log_home s l) = content s (log_home s l)" if "l \<in> set ks" for l
  proof -
    have "log_home s l \<noteq> log_slot s k" using log_home_ok(2) [OF Cons.prems(2) _ k(2)] that Cons.prems(3) by auto
    then show ?thesis using effectD(3) [OF c(8)] by simp
  qed
  then have "effect s5 s' (map (\<lambda>k. (log_slot s k, content s (log_home s k))) ks)"
    using s'(2) log_same_names [OF e(2)] by (simp cong: map_cong)
  then show ?case using st s'(1) effect_trans [OF c(8)] by auto
qed

lemma write_head_effect:
  assumes s: "log_ready s" and n: "lh_n s = int n" "n \<le> 30"
  shows "\<exists>s'. write_head s = Inr s' \<and> effect s s' [(log_head s, head_bytes n (lh_block s) (content s (log_head s)))]"
proof -
  have r: "quiet s" "two_spares s" "log_dev s = 1" using s by (simp_all add: log_ready_def)
  have h: "log_head s < 1000" using log_slot_distinct(4) [OF s, of 0 0] by simp
  obtain b s1 where b: "bread 1 (log_head s) s = Inr (b, s1)" "same_rest s s1" "bdata (buf_at b s1) = content s (log_head s)"
    "b < length (bufs s1)"
    "\<forall>d. \<exists>s2 s3. bwrite b (s1\<lparr>bufs := (bufs s1)[b := (buf_at b s1)\<lparr>bdata := d\<rparr>]\<rparr>) = Inr s2 \<and> brelse b s2 = Inr s3 \<and> effect s s3 [(log_head s, d)]"
    "\<exists>s3. brelse b s1 = Inr s3 \<and> effect s s3 []"
    by (rule rewrite_block [OF r(1) h r(2)])
  have l1: "lh_block s1 = lh_block s" "lh_n s1 = int n" using log_same_rest [OF b(2)] n by (simp_all add: log_same_def)
  define d where "d = put32 (content s (log_head s)) 0 (of_int (int n))"
  define s0 where "s0 = s1\<lparr>bufs := (bufs s1)[b := (buf_at b s1)\<lparr>bdata := d\<rparr>]\<rparr>"
  have u: "upd_buf b (\<lambda>p. p\<lparr>bdata := put32 (bdata p) 0 (of_int (lh_n s1))\<rparr>) s1 = s0"
    using b(3) l1 by (simp add: upd_buf_def s0_def d_def buf_at_def)
  have ln: "[0..lh_n s0 - 1] = map int [0..<n]" using l1 by (simp add: s0_def upto_int)
  have wl: "write_head_loop [0..lh_n s0 - 1] b s0 =
      Inr (s1\<lparr>bufs := (bufs s1)[b := (buf_at b s1)\<lparr>bdata := head_bytes n (lh_block s) (content s (log_head s))\<rparr>]\<rparr>)"
    unfolding ln unfolding s0_def using write_head_loop_words [OF b(4), where ks = "[0..<n]" and q = "buf_at b s1" and d = d] n(2) l1
    by (simp add: head_bytes_def d_def)
  obtain s2 s3 where w: "bwrite b (s1\<lparr>bufs := (bufs s1)[b := (buf_at b s1)\<lparr>bdata := head_bytes n (lh_block s) (content s (log_head s))\<rparr>]\<rparr>) = Inr s2"
    "brelse b s2 = Inr s3" "effect s s3 [(log_head s, head_bytes n (lh_block s) (content s (log_head s)))]"
    using b(5) by blast
  have "write_head s = Inr s3"
    using b(1) r(3) u wl w(1,2) by (simp add: write_head_def Let_def log_head_def)
  then show ?thesis using w(3) by blast
qed

text \<open>Reading the header back.\<close>

definition head_list :: "nat list \<Rightarrow> u8 list \<Rightarrow> int list \<Rightarrow> int list" where
  "head_list ks d bl = fold (\<lambda>k bl. bl[k := sint (get32 d (4 + 4 * k))]) ks bl"

lemma head_list_simps [simp]:
  "head_list [] d bl = bl" "head_list (k # ks) d bl = head_list ks d (bl[k := sint (get32 d (4 + 4 * k))])"
  "head_list (ks @ ls) d bl = head_list ls d (head_list ks d bl)"
  by (simp_all add: head_list_def)

lemma length_head_list [simp]: "length (head_list ks d bl) = length bl"
  by (induction ks arbitrary: bl) simp_all

lemma head_list_at: "k < n \<Longrightarrow> n \<le> length bl \<Longrightarrow> head_list [0..<n] d bl ! k = sint (get32 d (4 + 4 * k))"
proof (induction n)
  case (Suc n)
  then show ?case by (cases "k = n") simp_all
qed simp

lemma read_head_loop_list:
  "\<forall>k\<in>set ks. k < 30 \<Longrightarrow> read_head_loop (map int ks) d s = Inr (s\<lparr>lh_block := head_list ks d (lh_block s)\<rparr>)"
  by (induction ks arbitrary: s) (simp_all add: lh_set_def)

lemma log_frame:
  "cache_ok (s\<lparr>lh_n := n, lh_block := bl\<rparr>) = cache_ok s" "slot (s\<lparr>lh_n := n, lh_block := bl\<rparr>) = slot s"
  "content (s\<lparr>lh_n := n, lh_block := bl\<rparr>) = content s" "dirty_block (s\<lparr>lh_n := n, lh_block := bl\<rparr>) = dirty_block s"
  "holds (s\<lparr>lh_n := n, lh_block := bl\<rparr>) B = holds s B" "spare (s\<lparr>lh_n := n, lh_block := bl\<rparr>) = spare s"
proof -
  show sl: "slot (s\<lparr>lh_n := n, lh_block := bl\<rparr>) = slot s" by (simp add: slot_def buf_at_def fun_eq_iff)
  have b: "buf_at i (s\<lparr>lh_n := n, lh_block := bl\<rparr>) = buf_at i s" for i by (simp add: buf_at_def)
  have i: "idle_disk (s\<lparr>lh_n := n, lh_block := bl\<rparr>) = idle_disk s" by (simp add: idle_disk_def running_ok_def)
  show c: "cache_ok (s\<lparr>lh_n := n, lh_block := bl\<rparr>) = cache_ok s" unfolding cache_ok_def sl b i by simp
  show "content (s\<lparr>lh_n := n, lh_block := bl\<rparr>) = content s" unfolding content_def sl b by (simp add: content_def fun_eq_iff split: option.splits)
  show "dirty_block (s\<lparr>lh_n := n, lh_block := bl\<rparr>) = dirty_block s" unfolding dirty_block_def sl b by (simp add: dirty_block_def fun_eq_iff)
  have m: "mine l (s\<lparr>lh_n := n, lh_block := bl\<rparr>) = mine l s" for l by (simp add: mine_def me_pid_def)
  show "holds (s\<lparr>lh_n := n, lh_block := bl\<rparr>) B = holds s B" unfolding holds_def c b m by simp
  show "spare (s\<lparr>lh_n := n, lh_block := bl\<rparr>) = spare s" unfolding spare_def b by (simp add: spare_def fun_eq_iff)
qed

lemma same_rest_log: "same_rest s s' \<Longrightarrow> same_rest (s\<lparr>lh_n := n, lh_block := bl\<rparr>) (s'\<lparr>lh_n := n, lh_block := bl\<rparr>)"
  by (cases s; cases s') (simp add: same_rest_def)

lemma read_head_effect:
  assumes s: "log_ready s" and n: "sint (get32 (content s (log_head s)) 0) = int n" "n \<le> 30"
  shows "\<exists>s'. read_head s = Inr s' \<and>
    effect (s\<lparr>lh_n := int n, lh_block := head_list [0..<n] (content s (log_head s)) (lh_block s)\<rparr>) s' []"
proof -
  let ?d = "content s (log_head s)"
  let ?bl = "head_list [0..<n] ?d (lh_block s)"
  have r: "quiet s" "two_spares s" "log_dev s = 1" using s by (simp_all add: log_ready_def)
  have h: "log_head s < 1000" using log_slot_distinct(4) [OF s, of 0 0] by simp
  have h0: "holds s {}" using r(1) by (simp add: quiet_holds)
  obtain i where "spare s i" using r(2) by (auto simp: two_spares_def)
  then obtain b s1 where b: "bread 1 (log_head s) s = Inr (b, s1)" "read_by s (log_head s) b s1" using read_holds [OF h0 _ h] by blast
  have h1: "holds s1 {b}" and d1: "\<And>k. spare s k \<Longrightarrow> \<not> bdirty (buf_at k s1)"
    using read_by_holds(1,3) [OF h0 _ b(2)] by simp_all
  have c1: "slot s1 (log_head s) b" "content s1 = content s" "dirty_block s1 = dirty_block s" "sectors s1 = sectors s"
      "dtrace s1 = dtrace s" "same_rest s s1"
    using b(2) by (simp_all add: read_by_def)
  have l1: "lh_block s1 = lh_block s" using log_same_rest [OF c1(6)] by (simp add: log_same_def)
  define t where "t = s1\<lparr>lh_n := int n, lh_block := ?bl\<rparr>"
  have tb: "bufs t = bufs s1" by (simp add: t_def)
  have ht: "holds t {b}" "slot t (log_head s) b" using h1 c1(1) by (simp_all add: t_def log_frame)
  obtain s3 where v: "brelse b t = Inr s3" "holds s3 ({b} - {b})" "same_rest t s3" "sectors s3 = sectors t" "dtrace s3 = dtrace t"
    "content s3 = content t" "dirty_block s3 = dirty_block t" "\<forall>i m. slot s3 m i \<longleftrightarrow> slot t m i"
    "\<forall>i. bdirty (buf_at i s3) = bdirty (buf_at i t)"
    by (rule relse_holds [OF ht(1) _ ht(2)]) simp
  have em: "{b} - {b} = {}" by simp
  have q3: "quiet s3" using v(2) unfolding em quiet_holds .
  have sp: "spare s3 k" if "spare s k" for k
    using that q3 v(9) d1 by (simp add: spare_def quiet_def t_def buf_at_def)
  have rest: "same_rest (s\<lparr>lh_n := int n, lh_block := ?bl\<rparr>) s3"
    using same_rest_trans [OF same_rest_log [OF c1(6)] v(3) [unfolded t_def]] .
  have "effect (s\<lparr>lh_n := int n, lh_block := ?bl\<rparr>) s3 []"
    unfolding effect_def using q3 rest sp v(4-7) c1(2-5) by (simp add: log_frame t_def)
  moreover have "read_head s = Inr s3"
    using b(1) r(3) n read_by_data [OF b(2)] l1 v(1)
      read_head_loop_list [of "[0..<n]" ?d "s1\<lparr>lh_n := int n\<rparr>"]
    by (simp add: read_head_def Let_def log_head_def upto_int t_def buf_at_def)
  ultimately show ?thesis by blast
qed

section \<open>A commit and a recovery\<close>

lemma upds_map:
  "k \<in> set ks \<Longrightarrow> \<forall>l\<in>set ks. f l = f k \<longrightarrow> g l = g k \<Longrightarrow> upds (map (\<lambda>k. (f k, g k)) ks) h (f k) = g k"
proof (induction ks rule: rev_induct)
  case (snoc l ks)
  show ?case
  proof (cases "f l = f k")
    case True
    have "g l = g k" by (rule bspec [OF snoc.prems(2), of l, THEN mp, OF _ True]) simp
    then show ?thesis using True by simp
  next
    case False
    then have k: "k \<in> set ks" using snoc.prems(1) by auto
    have "\<forall>x\<in>set ks. f x = f k \<longrightarrow> g x = g k" using snoc.prems(2) unfolding set_append ball_Un by (rule conjunct1)
    from snoc.IH [OF k this] show ?thesis using False by (simp only: map_append upds_simps list.map fun_upd_apply) simp
  qed
qed simp

lemma fst_writes: "fst ` set (map (\<lambda>k. (f k, v k)) ks) = f ` set ks"
  by (simp add: image_image)

lemma small_sint: "0 \<le> i \<Longrightarrow> i < 1000 \<Longrightarrow> sint (of_int i :: u32) = i"
  by (simp add: signed_of_int signed_take_bit_int_eq_self)

lemma log_ready_n: "log_ready (s\<lparr>lh_n := n\<rparr>) = log_ready s"
  using log_frame [where s = s and n = n and bl = "lh_block s"]
  by (simp add: log_ready_def quiet_holds two_spares_def)

lemma content_n: "content (s\<lparr>lh_n := n\<rparr>) = content s"
  using log_frame(3) [where s = s and n = n and bl = "lh_block s"] by simp

text \<open>The sector writes of a commit of the \<open>n\<close> logged blocks.\<close>

definition commit_writes :: "nat \<Rightarrow> 'a logst_scheme \<Rightarrow> (u32 \<times> u8 list) list" where
  "commit_writes n s =
    (let h = head_bytes n (lh_block s) (content s (log_head s)) in
     map (\<lambda>k. (log_slot s k, content s (log_home s k))) [0..<n] @ [(log_head s, h)] @
     map (\<lambda>k. (log_home s k, content s (log_home s k))) [0..<n] @ [(log_head s, head_bytes 0 (lh_block s) h)])"

lemma log_slot_inj: "log_ready s \<Longrightarrow> k < 30 \<Longrightarrow> l < 30 \<Longrightarrow> log_slot s k = log_slot s l \<Longrightarrow> k = l"
  using log_slot_distinct(2) by blast

lemma upds_slots:
  assumes "log_ready s" and "n \<le> 30" and k: "k \<in> set [0..<n]"
  shows "upds (map (\<lambda>k. (log_slot s k, v k)) [0..<n]) f (log_slot s k) = v k"
proof (rule upds_map [OF k], intro ballI impI)
  fix l assume "l \<in> set [0..<n]" "log_slot s l = log_slot s k"
  then show "v l = v k" using log_slot_inj [OF assms(1), of l k] assms(2) k by simp
qed

lemma commit_effect:
  assumes s: "log_ready s" and n: "lh_n s = int n" "0 < n" and hm: "log_homes n s"
  shows "\<exists>s'. commit s = Inr s' \<and> dtrace s' = dtrace s @ map (Pair 1) (commit_writes n s) \<and>
    sectors s' 1 = upds (commit_writes n s) (sectors s 1)"
proof -
  have n30: "n \<le> 30" using hm by (simp add: log_homes_def)
  have ks: "set [0..<n] \<subseteq> {..<n}" by auto
  have ln: "[0..lh_n s - 1] = map int [0..<n]" using n by (simp add: upto_int)
  obtain s1 where s1: "write_log s = Inr s1" "effect s s1 (map (\<lambda>k. (log_slot s k, content s (log_home s k))) [0..<n])"
    using write_log_effect [OF s hm ks] unfolding write_log_def ln by blast
  note e1 = log_ready_effect [OF s s1(2)]
  have i1: "lh_n s1 = int n" "lh_block s1 = lh_block s" using e1(2) n by (simp_all add: log_same_def)
  obtain s2 where s2: "write_head s1 = Inr s2" "effect s1 s2 [(log_head s1, head_bytes n (lh_block s1) (content s1 (log_head s1)))]"
    using write_head_effect [OF e1(1) i1(1) n30] by blast
  note e2 = log_ready_effect [OF e1(1) s2(2)]
  have i2: "lh_n s2 = int n" "lh_block s2 = lh_block s" using e2(2) i1 by (simp_all add: log_same_def)
  note nm = log_same_names [OF e1(2)] log_same_names [OF e2(2)]
  have ln2: "[0..lh_n s2 - 1] = map int [0..<n]" using i2 by (simp add: upto_int)
  have hm2: "log_homes n s2" using hm nm by simp
  obtain s3 where s3: "install_trans s2 = Inr s3" "effect s2 s3 (map (\<lambda>k. (log_home s2 k, content s2 (log_slot s2 k))) [0..<n])"
    using install_trans_effect [OF e2(1) hm2 ks] unfolding install_trans_def ln2 by blast
  note e3 = log_ready_effect [OF e2(1) s3(2)]
  note nm3 = log_same_names [OF e3(2)]
  have i3: "lh_block s3 = lh_block s" using e3(2) i2 by (simp add: log_same_def)
  define t where "t = s3\<lparr>lh_n := 0\<rparr>"
  have t: "log_ready t" "lh_n t = int 0" "lh_block t = lh_block s" "log_head t = log_head s" "content t = content s3"
      "sectors t = sectors s3" "dtrace t = dtrace s3"
    using e3(1) i3 nm nm3 by (simp_all add: t_def log_ready_n log_head_def content_n)
  obtain s4 where s4: "write_head t = Inr s4" "effect t s4 [(log_head s, head_bytes 0 (lh_block s) (content s3 (log_head s)))]"
    using write_head_effect [OF t(1,2)] t(3-5) by auto
  have notin: "log_head s \<notin> fst ` set (map (\<lambda>k. (log_slot s k, content s (log_home s k))) [0..<n])"
      "log_head s \<notin> fst ` set (map (\<lambda>k. (log_home s k, v k)) [0..<n])" for v :: "nat \<Rightarrow> u8 list"
  proof -
    have a: "log_slot s k \<noteq> log_head s" "log_home s k \<noteq> log_head s" if "k < n" for k
      using that n30 log_slot_distinct(3) [OF s, of k 0] log_home_ok(3) [OF hm that, of 0] by simp_all
    show "log_head s \<notin> fst ` set (map (\<lambda>k. (log_slot s k, content s (log_home s k))) [0..<n])"
      unfolding fst_writes using a(1) by (metis atLeastLessThan_iff imageE set_upt)
    show "log_head s \<notin> fst ` set (map (\<lambda>k. (log_home s k, v k)) [0..<n])"
      unfolding fst_writes using a(2) by (metis atLeastLessThan_iff imageE set_upt)
  qed
  have c1: "content s1 (log_head s) = content s (log_head s)"
    using effectD(3) [OF s1(2)] upds_other [OF notin(1)] by simp
  have slots: "content s2 (log_slot s k) = content s (log_home s k)" if "k \<in> set [0..<n]" for k
  proof -
    have "k < 30" using that n30 by simp
    then have "content s2 (log_slot s k) = content s1 (log_slot s k)"
      using effectD(3) [OF s2(2)] log_slot_distinct(3) [OF s] nm by simp
    also have "\<dots> = content s (log_home s k)"
      unfolding effectD(3) [OF s1(2)] by (rule upds_slots [OF s n30 that])
    finally show ?thesis .
  qed
  have w3: "map (\<lambda>k. (log_home s2 k, content s2 (log_slot s2 k))) [0..<n] = map (\<lambda>k. (log_home s k, content s (log_home s k))) [0..<n]"
    unfolding nm by (rule map_cong [OF refl]) (simp only: slots)
  note e3w = s3(2) [unfolded w3]
  have h2: "effect s1 s2 [(log_head s, head_bytes n (lh_block s) (content s (log_head s)))]"
    using s2(2) unfolding nm(1) i1 c1 .
  have "content s3 (log_head s) = content s2 (log_head s)"
    unfolding effectD(3) [OF e3w] by (rule upds_other [OF notin(2)])
  also have "\<dots> = head_bytes n (lh_block s) (content s (log_head s))" unfolding effectD(3) [OF h2] by simp
  finally have c3: "content s3 (log_head s) = head_bytes n (lh_block s) (content s (log_head s))" .
  have "commit s = Inr s4" using n s1(1) s2(1) s3(1) s4(1) by (simp add: commit_def t_def)
  moreover have "dtrace s4 = dtrace s @ map (Pair 1) (commit_writes n s)"
    unfolding effectD(6) [OF s4(2)] t(7) effectD(6) [OF e3w] effectD(6) [OF h2] effectD(6) [OF s1(2)] c3 commit_writes_def Let_def
    by (simp only: append_assoc map_append)
  moreover have "sectors s4 1 = upds (commit_writes n s) (sectors s 1)"
    unfolding effectD(5) [OF s4(2)] t(6) effectD(5) [OF e3w] effectD(5) [OF h2] effectD(5) [OF s1(2)] c3 commit_writes_def Let_def
    by (simp only: upds_simps)
  ultimately show ?thesis by blast
qed

lemma recover_effect:
  assumes s: "log_ready s" and n: "sint (get32 (content s (log_head s)) 0) = int n"
    and bl: "bl = head_list [0..<n] (content s (log_head s)) (lh_block s)" and hm: "log_homes n (s\<lparr>lh_n := int n, lh_block := bl\<rparr>)"
  shows "\<exists>s'. recover_from_log s = Inr s' \<and>
    sectors s' 1 = upds (map (\<lambda>k. (of_int (bl ! k), content s (log_slot s k))) [0..<n] @
      [(log_head s, head_bytes 0 bl (content s (log_head s)))]) (sectors s 1)"
proof -
  have n30: "n \<le> 30" using hm by (simp add: log_homes_def)
  have ks: "set [0..<n] \<subseteq> {..<n}" by auto
  define u where "u = s\<lparr>lh_n := int n, lh_block := bl\<rparr>"
  have u: "log_ready u" "lh_n u = int n" "lh_block u = bl" "log_slot u = log_slot s" "log_head u = log_head s"
      "content u = content s" "sectors u = sectors s" "log_homes n u"
    using s bl hm by (simp_all add: u_def log_ready_def log_frame quiet_holds two_spares_def log_slot_def log_head_def fun_eq_iff)
  obtain s1 where s1: "read_head s = Inr s1" "effect u s1 []"
    using read_head_effect [OF s n n30] unfolding u_def bl by blast
  note e1 = log_ready_effect [OF u(1) s1(2)]
  note nm = log_same_names [OF e1(2)]
  have i1: "lh_n s1 = int n" "lh_block s1 = bl" using e1(2) u by (simp_all add: log_same_def)
  have ln: "[0..lh_n s1 - 1] = map int [0..<n]" using i1 by (simp add: upto_int)
  have hm1: "log_homes n s1" using u(8) nm by simp
  obtain s2 where s2: "install_trans s1 = Inr s2" "effect s1 s2 (map (\<lambda>k. (log_home s1 k, content s1 (log_slot s1 k))) [0..<n])"
    using install_trans_effect [OF e1(1) hm1 ks] unfolding install_trans_def ln by blast
  note e2 = log_ready_effect [OF e1(1) s2(2)]
  have i2: "lh_block s2 = bl" using e2(2) i1 by (simp add: log_same_def)
  define t where "t = s2\<lparr>lh_n := 0\<rparr>"
  have t: "log_ready t" "lh_n t = int 0" "lh_block t = bl" "log_head t = log_head s" "content t = content s2" "sectors t = sectors s2"
    using e2(1) i2 nm log_same_names [OF e2(2)] u(5) by (simp_all add: t_def log_ready_n log_head_def content_n)
  obtain s3 where s3: "write_head t = Inr s3" "effect t s3 [(log_head s, head_bytes 0 bl (content s2 (log_head s)))]"
    using write_head_effect [OF t(1,2)] t(3-5) by auto
  have w: "map (\<lambda>k. (log_home s1 k, content s1 (log_slot s1 k))) [0..<n] = map (\<lambda>k. (of_int (bl ! k), content s (log_slot s k))) [0..<n]"
    using effectD(3) [OF s1(2)] nm u i1 by (simp add: log_home_def)
  have notin: "log_head s \<notin> fst ` set (map (\<lambda>k. (log_home s1 k, content s1 (log_slot s1 k))) [0..<n])"
    using log_home_ok(3) [OF hm1] n30 nm u by force
  have "content s2 (log_head s) = content s (log_head s)"
    using effectD(3) [OF s2(2)] effectD(3) [OF s1(2)] upds_other [OF notin] u by simp
  then have "sectors s3 1 = upds (map (\<lambda>k. (of_int (bl ! k), content s (log_slot s k))) [0..<n] @
      [(log_head s, head_bytes 0 bl (content s (log_head s)))]) (sectors s 1)"
    using effectD(5) [OF s1(2)] effectD(5) [OF s2(2)] effectD(5) [OF s3(2)] t(6) u by (simp add: w)
  moreover have "recover_from_log s = Inr s3" using s1(1) s2(1) s3(1) by (simp add: recover_from_log_def t_def)
  ultimately show ?thesis by blast
qed

section \<open>Crash safety\<close>

text \<open>A machine that starts on the disk \<open>D\<close>: nothing in the cache differs from the disk.\<close>

definition log_boot :: "'a logst_scheme \<Rightarrow> (u32 \<Rightarrow> u8 list) \<Rightarrow> 'b logst_scheme \<Rightarrow> bool" where
  "log_boot s D r \<longleftrightarrow> log_ready r \<and> log_start r = log_start s \<and> (\<forall>m. \<not> dirty_block r m) \<and> sectors r 1 = D"

lemma recover_boot:
  assumes r: "log_boot s D r" and len: "length (D (log_head s)) = 512" and hm: "log_homes n s"
    and c: "get32 (D (log_head s)) 0 = of_nat n"
    and e: "\<forall>k<n. get32 (D (log_head s)) (4 + 4 * k) = of_int (lh_block s ! k)"
  shows "\<exists>r'. recover_from_log r = Inr r' \<and> get32 (sectors r' 1 (log_head s)) 0 = 0 \<and>
    (\<forall>m. m \<notin> log_area s \<longrightarrow> sectors r' 1 m = upds (map (\<lambda>k. (log_home s k, D (log_slot s k))) [0..<n]) D m)"
proof -
  have rd: "log_ready r" "log_start r = log_start s" "sectors r 1 = D" using r by (simp_all add: log_boot_def)
  have nm: "log_head r = log_head s" "log_slot r = log_slot s" using rd(2) by (simp_all add: log_head_def log_slot_def fun_eq_iff)
  have co: "cache_ok r" using rd(1) by (simp add: log_ready_def quiet_def)
  have "content r m = D m" for m using content_clean [OF co, of m] r rd(3) by (simp add: log_boot_def)
  then have cr: "content r = D" by (rule ext)
  have n30: "n \<le> 30" using hm by (simp add: log_homes_def)
  define bl where "bl = head_list [0..<n] (content r (log_head r)) (lh_block r)"
  have blk: "bl ! k = lh_block s ! k" if "k < n" for k
    using that e hm rd(1) head_list_at [OF that, of "lh_block r" "D (log_head s)"] n30
    by (simp add: bl_def cr nm small_sint log_homes_def log_ready_def)
  have cnt: "sint (get32 (content r (log_head r)) 0) = int n"
    using c n30 small_sint [of "int n"] by (simp add: cr nm)
  have "log_homes n (r\<lparr>lh_n := int n, lh_block := bl\<rparr>)"
    using hm blk nm by (simp add: log_homes_def log_home_def log_area_def) (simp add: log_head_def log_slot_def image_def)
  then obtain r' where r': "recover_from_log r = Inr r'"
    "sectors r' 1 = upds (map (\<lambda>k. (of_int (bl ! k), content r (log_slot r k))) [0..<n] @
      [(log_head r, head_bytes 0 bl (content r (log_head r)))]) (sectors r 1)"
    using recover_effect [OF rd(1) cnt bl_def] by blast
  have w: "map (\<lambda>k. (of_int (bl ! k), content r (log_slot r k))) [0..<n] = map (\<lambda>k. (log_home s k, D (log_slot s k))) [0..<n]"
    using blk by (simp add: cr nm log_home_def)
  have sec: "sectors r' 1 = (upds (map (\<lambda>k. (log_home s k, D (log_slot s k))) [0..<n]) D)(log_head s := head_bytes 0 bl (D (log_head s)))"
    unfolding r'(2) w by (simp add: cr nm rd(3))
  have "get32 (sectors r' 1 (log_head s)) 0 = 0" unfolding sec using len head_bytes_count [of "D (log_head s)" 0 bl] by simp
  moreover have "sectors r' 1 m = upds (map (\<lambda>k. (log_home s k, D (log_slot s k))) [0..<n]) D m" if "m \<notin> log_area s" for m
    using that unfolding sec by (auto simp: log_area_def)
  ultimately show ?thesis using r'(1) by blast
qed

text \<open>The logged blocks are the ones whose new content is only in the cache, and the log on the disk is empty.\<close>

definition log_pending :: "nat \<Rightarrow> 'a logst_scheme \<Rightarrow> bool" where
  "log_pending n s \<longleftrightarrow> log_ready s \<and> lh_n s = int n \<and> 0 < n \<and> log_homes n s \<and> (\<forall>m. dirty_block s m \<longrightarrow> m \<in> log_home s ` {..<n}) \<and>
     length (sectors s 1 (log_head s)) = 512 \<and> get32 (sectors s 1 (log_head s)) 0 = 0"

lemma pending_clean:
  assumes "log_pending n s" and "m \<notin> log_home s ` {..<n}"
  shows "content s m = sectors s 1 m"
  using assms content_clean [of s m] by (auto simp: log_pending_def log_ready_def quiet_def)

lemma pending_head: "log_pending n s \<Longrightarrow> log_head s \<notin> log_home s ` {..<n}"
  by (auto simp: log_pending_def log_homes_def log_area_def)

lemma upds_homes:
  assumes "m \<notin> log_home s ` {..<n} \<Longrightarrow> f m = content s m"
  shows "upds (map (\<lambda>k. (log_home s k, content s (log_home s k))) [0..<n]) f m = content s m"
proof (cases "m \<in> log_home s ` {..<n}")
  case True
  then obtain k where k: "k \<in> set [0..<n]" "m = log_home s k" by auto
  show ?thesis unfolding k(2) by (rule upds_map [OF k(1)]) simp
next
  case False
  then have "m \<notin> fst ` set (map (\<lambda>k. (log_home s k, content s (log_home s k))) [0..<n])" by auto
  from upds_other [OF this] show ?thesis using assms [OF False] by (rule trans)
qed

lemma recover_before:
  assumes p: "log_pending n s" and j: "j \<le> n" and r: "log_boot s (upds (take j (commit_writes n s)) (sectors s 1)) r"
  shows "\<exists>r'. recover_from_log r = Inr r' \<and> get32 (sectors r' 1 (log_head s)) 0 = 0 \<and>
    (\<forall>m. m \<notin> log_area s \<longrightarrow> sectors r' 1 m = sectors s 1 m)"
proof -
  let ?D = "upds (take j (commit_writes n s)) (sectors s 1)"
  have n30: "n \<le> 30" and s: "log_ready s" using p by (simp_all add: log_pending_def log_homes_def)
  have w: "take j (commit_writes n s) = map (\<lambda>k. (log_slot s k, content s (log_home s k))) [0..<j]"
    using j by (simp add: commit_writes_def Let_def take_map)
  have D: "?D m = sectors s 1 m" if "m \<notin> log_slot s ` {..<30}" for m
    unfolding w by (rule upds_other) (use that j n30 in force)
  have hd: "?D (log_head s) = sectors s 1 (log_head s)"
    by (rule D) (use log_slot_distinct(3) [OF s] in force)
  have "log_homes 0 s" by (simp add: log_homes_def)
  then obtain r' where r': "recover_from_log r = Inr r'" "get32 (sectors r' 1 (log_head s)) 0 = 0"
    "\<forall>m. m \<notin> log_area s \<longrightarrow> sectors r' 1 m = ?D m"
    using recover_boot [OF r, of 0] p hd by (auto simp: log_pending_def)
  then show ?thesis using D by (auto simp: log_area_def)
qed

lemma recover_after:
  assumes p: "log_pending n s" and j: "n < j" and r: "log_boot s (upds (take j (commit_writes n s)) (sectors s 1)) r"
  shows "\<exists>r'. recover_from_log r = Inr r' \<and> get32 (sectors r' 1 (log_head s)) 0 = 0 \<and>
    (\<forall>m. m \<notin> log_area s \<longrightarrow> sectors r' 1 m = content s m)"
proof -
  define h where "h = head_bytes n (lh_block s) (content s (log_head s))"
  define D0 where "D0 = upds (map (\<lambda>k. (log_slot s k, content s (log_home s k))) [0..<n]) (sectors s 1)"
  define W where "W = map (\<lambda>k. (log_home s k, content s (log_home s k))) [0..<n]"
  define D where "D = upds (take j (commit_writes n s)) (sectors s 1)"
  have n30: "n \<le> 30" and s: "log_ready s" and hm: "log_homes n s" using p by (simp_all add: log_pending_def log_homes_def)
  have lc: "length (content s (log_head s)) = 512" using p pending_clean [OF p pending_head [OF p]] by (simp add: log_pending_def)
  have h: "length h = 512" "get32 h 0 = of_nat n" "\<forall>k<n. get32 h (4 + 4 * k) = of_int (lh_block s ! k)"
    using lc n30 by (auto simp: h_def head_bytes_count head_bytes_entry) (simp add: head_bytes_def)
  have D0: "D0 (log_slot s k) = content s (log_home s k)" if "k < n" for k
    unfolding D0_def using upds_slots [OF s n30, of k] that by simp
  have D0m: "D0 m = sectors s 1 m" if "m \<notin> log_area s" for m
    unfolding D0_def by (rule upds_other) (use that n30 in \<open>force simp: log_area_def\<close>)
  have out: "m \<notin> fst ` set (take i W)" if "m \<in> log_area s" for i m
    using that hm set_take_subset [of i W] by (force simp: W_def log_homes_def)
  have area: "log_head s \<in> log_area s" "k < n \<Longrightarrow> log_slot s k \<in> log_area s" for k
    using n30 by (auto simp: log_area_def)
  have clean: "(D0(log_head s := x)) m = content s m" if "m \<notin> log_area s" "m \<notin> log_home s ` {..<n}" for m x
    using that D0m pending_clean [OF p that(2)] area(1) by auto
  show ?thesis
  proof (cases "j = Suc (2 * n)  \<or> j < Suc (2 * n)")
    case True
    have De: "D = upds (take (j - Suc n) W) (D0(log_head s := h))"
      using True j by (auto simp: D_def commit_writes_def Let_def W_def D0_def h_def take_Cons' take_map)
    have Dh: "D (log_head s) = h" unfolding De using upds_other [OF out [OF area(1)]] by simp
    have Ds: "D (log_slot s k) = content s (log_home s k)" if "k < n" for k
      unfolding De using upds_other [OF out [OF area(2) [OF that]]] D0 [OF that] log_slot_distinct(3) [OF s, of k 0] that n30 by simp
    have Dm: "D m = content s m" if "m \<notin> log_area s" "m \<notin> log_home s ` {..<n}" for m
    proof -
      have "m \<notin> fst ` set (take (j - Suc n) W)" using that(2) set_take_subset [of "j - Suc n" W] by (force simp: W_def)
      then show ?thesis unfolding De using upds_other clean [OF that] by simp
    qed
    obtain r' where r': "recover_from_log r = Inr r'" "get32 (sectors r' 1 (log_head s)) 0 = 0"
      "\<forall>m. m \<notin> log_area s \<longrightarrow> sectors r' 1 m = upds (map (\<lambda>k. (log_home s k, D (log_slot s k))) [0..<n]) D m"
      using recover_boot [OF r [folded D_def] _ hm] h Dh by auto
    have w: "map (\<lambda>k. (log_home s k, D (log_slot s k))) [0..<n] = map (\<lambda>k. (log_home s k, content s (log_home s k))) [0..<n]"
      using Ds by simp
    have "sectors r' 1 m = content s m" if "m \<notin> log_area s" for m
      using r'(3) that upds_homes [of m s n D] Dm unfolding w by simp
    then show ?thesis using r'(1,2) by blast
  next
    case False
    have De: "D = (upds W (D0(log_head s := h)))(log_head s := head_bytes 0 (lh_block s) h)"
    proof -
      have "take j (commit_writes n s) = commit_writes n s"
        by (rule take_all) (use False in \<open>simp add: commit_writes_def Let_def\<close>)
      then show ?thesis by (simp add: D_def commit_writes_def Let_def W_def D0_def h_def)
    qed
    have Dh: "length (D (log_head s)) = 512" "get32 (D (log_head s)) 0 = 0"
      using h(1) head_bytes_count [of h 0 "lh_block s"] by (simp_all add: De head_bytes_def)
    have "log_homes 0 s" by (simp add: log_homes_def)
    then obtain r' where r': "recover_from_log r = Inr r'" "get32 (sectors r' 1 (log_head s)) 0 = 0"
      "\<forall>m. m \<notin> log_area s \<longrightarrow> sectors r' 1 m = D m"
      using recover_boot [OF r [folded D_def] Dh(1), of 0] Dh(2) by auto
    have "D m = content s m" if "m \<notin> log_area s" for m
      using upds_homes [of m s n "D0(log_head s := h)"] clean [OF that] that area(1) by (auto simp: De W_def)
    then show ?thesis using r' by auto
  qed
qed

text \<open>C5. Crash safety of \<open>commit\<close>. Let the logged blocks be the ones whose new content is only in the cache and the log on the disk be
  empty. Then \<open>commit\<close> succeeds and its sector writes are the log blocks, the header, the home blocks and the cleared header. If the power
  fails after any number \<open>j\<close> of them, \<open>recover_from_log\<close> on the disk that is left succeeds, empties the log and
  leaves every block outside the log with its old content, or every block with its new content, by whether the header had been written.\<close>

theorem commit_crash_safe:
  assumes "log_pending n s"
  shows "\<exists>s'. commit s = Inr s' \<and> dtrace s' = dtrace s @ map (Pair 1) (commit_writes n s) \<and>
    sectors s' 1 = upds (commit_writes n s) (sectors s 1) \<and>
    (\<forall>j r. log_boot s (upds (take j (commit_writes n s)) (sectors s 1)) r \<longrightarrow>
      (\<exists>r'. recover_from_log r = Inr r' \<and> get32 (sectors r' 1 (log_head s)) 0 = 0 \<and>
        (\<forall>m. m \<notin> log_area s \<longrightarrow> sectors r' 1 m = (if j \<le> n then sectors s 1 m else content s m))))"
proof -
  have p: "log_ready s" "lh_n s = int n" "0 < n" "log_homes n s" using assms by (simp_all add: log_pending_def)
  have "\<exists>r'. recover_from_log r = Inr r' \<and> get32 (sectors r' 1 (log_head s)) 0 = 0 \<and>
        (\<forall>m. m \<notin> log_area s \<longrightarrow> sectors r' 1 m = (if j \<le> n then sectors s 1 m else content s m))"
    if "log_boot s (upds (take j (commit_writes n s)) (sectors s 1)) r" for j and r :: "'b logst_scheme"
    using recover_before [OF assms _ that] recover_after [OF assms _ that] by (cases "j \<le> n") simp_all
  then show ?thesis using commit_effect [OF p] by blast
qed

text \<open>A concrete kernel whose cache has one block, and the rest of its buffers unused.\<close>

definition log_state :: "buf \<Rightarrow> (u32 \<Rightarrow> u8 list) \<Rightarrow> logst" where
  "log_state bf D = \<lparr>mem = \<lambda>_. 0, freelist = 0, use_lock = True, cr3 = 0, kend = 0, kdata = 0,
     ptable = [pproc RUNNING None False],
     cpu_proc = Some 0, nextpid = 1, initproc = None, ticks = 0, gdt = [], ts_ss0 = 0,
     ts_esp0 = 0, ts_iomb = 0, cpu_ts = 0, kpgdir = 0, ktrapret = 0, kforkret = 0,
     sleeplocks = \<lambda>_. \<lparr>slocked = False, slpid = 0\<rparr>,
     pipes = \<lambda>_. \<lparr>pdata = replicate 512 0, nread = 0, nwrite = 0, readopen = True, writeopen = True\<rparr>,
     bufs = bf # replicate 29 \<lparr>bvalid = False, bdirty = False, bdev = 0, blockno = 0, refcnt = 0, bdata = []\<rparr>,
     blru = [0..<30], idequeue = [], havedisk1 = True, sectors = \<lambda>_. D, ide_sel = (0, 0), ide_err = False, dtrace = [],
     log_start = 2, log_size = 31, log_outstanding = 0, log_committing = False, log_dev = 1, lh_n = 1, lh_block = 100 # replicate 29 0\<rparr>"

lemma log_state_slot: "slot (log_state bf D) n i \<longleftrightarrow> i = 0 \<and> bdev bf = 1 \<and> blockno bf = n"
  by (cases i) (auto simp: slot_def log_state_def buf_at_def)

lemma log_state_buf: "i < 30 \<Longrightarrow> buf_at i (log_state bf D) = (if i = 0 then bf else
    \<lparr>bvalid = False, bdirty = False, bdev = 0, blockno = 0, refcnt = 0, bdata = []\<rparr>)"
  by (cases i) (simp_all add: log_state_def buf_at_def)

lemma log_state_dirty: "dirty_block (log_state bf D) n \<longleftrightarrow> bdev bf = 1 \<and> blockno bf = n \<and> bdirty bf"
  by (auto simp: dirty_block_def log_state_slot log_state_buf)

lemma log_state_ready:
  assumes "refcnt bf = 0" and "bdirty bf \<longrightarrow> bvalid bf" and "bvalid bf \<longrightarrow> \<not> bdirty bf \<longrightarrow> bdata bf = D (blockno bf)"
  shows "log_ready (log_state bf D)"
proof -
  have f: "idle_disk (log_state bf D)" "blru (log_state bf D) = [0..<30]" "sectors (log_state bf D) 1 = D"
    "\<not> slocked (sleeplocks (log_state bf D) i)" for i
    by (simp_all add: idle_disk_def running_ok_def log_state_def)
  have "set [0..<30] = {..<30::nat}" by auto
  then have "cache_ok (log_state bf D)" using assms f by (auto simp: cache_ok_def log_state_slot log_state_buf)
  then have "quiet (log_state bf D)" using assms(1) f by (simp add: quiet_def log_state_buf)
  moreover have "spare (log_state bf D) 1" "spare (log_state bf D) 2" by (simp_all add: spare_def log_state_buf)
  then have "two_spares (log_state bf D)" unfolding two_spares_def by (metis numeral_eq_one_iff semiring_norm(85))
  ultimately show ?thesis by (simp add: log_ready_def) (simp add: log_state_def)
qed

text \<open>One block, number 100, waits in the cache with new content.\<close>

definition log_state1 :: logst where
  "log_state1 = log_state \<lparr>bvalid = True, bdirty = True, bdev = 1, blockno = 100, refcnt = 0, bdata = replicate 512 1\<rparr> (\<lambda>_. replicate 512 0)"

lemma log_state1_pending: "log_pending 1 log_state1" "100 \<notin> log_area log_state1" "content log_state1 100 = replicate 512 1"
proof -
  have r: "log_ready log_state1" unfolding log_state1_def by (rule log_state_ready) simp_all
  have h: "log_home log_state1 0 = 100" "log_head log_state1 = 2" "lh_n log_state1 = 1" "lh_block log_state1 ! 0 = 100"
    "sectors log_state1 1 = (\<lambda>_. replicate 512 0)"
    by (simp_all add: log_home_def log_head_def log_state1_def log_state_def)
  show a: "100 \<notin> log_area log_state1"
  proof -
    have "log_slot log_state1 k \<noteq> 100" if "k < 30" for k
    proof -
      have "log_slot log_state1 k = of_int (int k + 3)" by (simp add: log_slot_def log_state1_def log_state_def)
      then show ?thesis using small_word_inj [of "int k + 3" 100] that by (simp del: of_int_add of_int_of_nat_eq)
    qed
    then show ?thesis using h(2) by (auto simp: log_area_def)
  qed
  have g: "get32 (replicate 512 0) 0 = 0" by (simp add: get32_def)
  show "log_pending 1 log_state1"
    unfolding log_pending_def using r h a g by (simp add: log_homes_def) (simp add: log_state1_def log_state_dirty)
  have "slot log_state1 100 0" "bvalid (buf_at 0 log_state1)" "bdata (buf_at 0 log_state1) = replicate 512 1"
    by (simp_all add: log_state1_def log_state_slot log_state_buf)
  then show "content log_state1 100 = replicate 512 1" using content_cached r by (metis log_ready_def quiet_def)
qed

theorem commit_crash_safe_witness:
  "\<exists>r r'. log_pending 1 log_state1 \<and> log_boot log_state1 (upds (take 2 (commit_writes 1 log_state1)) (sectors log_state1 1)) (r :: logst) \<and>
    recover_from_log r = Inr r' \<and> sectors log_state1 1 100 = replicate 512 0 \<and> sectors r' 1 100 = replicate 512 1"
proof -
  define D where "D = upds (take 2 (commit_writes 1 log_state1)) (sectors log_state1 1)"
  define r where "r = log_state \<lparr>bvalid = False, bdirty = False, bdev = 0, blockno = 0, refcnt = 0, bdata = []\<rparr> D"
  have "log_ready r" unfolding r_def by (rule log_state_ready) simp_all
  moreover have "log_start r = log_start log_state1" "sectors r 1 = D" by (simp_all add: r_def log_state1_def log_state_def)
  moreover have "\<not> dirty_block r m" for m by (simp add: r_def log_state_dirty)
  ultimately have b: "log_boot log_state1 D r" by (simp add: log_boot_def)
  have "\<exists>r'. recover_from_log r = Inr r' \<and> get32 (sectors r' 1 (log_head log_state1)) 0 = 0 \<and>
      (\<forall>m. m \<notin> log_area log_state1 \<longrightarrow> sectors r' 1 m = (if 2 \<le> (1::nat) then sectors log_state1 1 m else content log_state1 m))"
    using commit_crash_safe [OF log_state1_pending(1)] b unfolding D_def by blast
  then obtain r' where r': "recover_from_log r = Inr r'"
    "\<forall>m. m \<notin> log_area log_state1 \<longrightarrow> sectors r' 1 m = (if 2 \<le> (1::nat) then sectors log_state1 1 m else content log_state1 m)"
    by blast
  have "sectors r' 1 100 = content log_state1 100" using r'(2) log_state1_pending(2) by simp
  then have "sectors r' 1 100 = replicate 512 1" using log_state1_pending(3) by simp
  moreover have "sectors log_state1 1 100 = replicate 512 0" by (simp add: log_state1_def log_state_def)
  ultimately show ?thesis using log_state1_pending(1) b [unfolded D_def] r'(1) by blast
qed

end
