(* ===== verification/Log_Write.thy ===== *)
theory Log_Write
  imports Log_Crash
begin

text \<open>
  The buffer cache as a store of blocks, and the list of blocks that \<open>log_write\<close> keeps for a transaction.
\<close>

section \<open>The cache as a block store\<close>

text \<open>C6. The buffer cache refines a store of blocks. With no buffer in use, \<open>bread\<close> of a block gives a buffer with the content
  of the block in the store; storing any data in it, \<open>bwrite\<close> and \<open>brelse\<close> then succeed and change the store and the
  disk in that block only, whichever buffer the block was put in and whatever it replaced.\<close>

theorem cache_refines_store:
  assumes "quiet s" and "n < 1000" and "two_spares s"
  shows "\<exists>b s1. bread 1 n s = Inr (b, s1) \<and> bdata (buf_at b s1) = content s n \<and>
    (\<forall>d. \<exists>s2 s3. bwrite b (s1\<lparr>bufs := (bufs s1)[b := (buf_at b s1)\<lparr>bdata := d\<rparr>]\<rparr>) = Inr s2 \<and> brelse b s2 = Inr s3 \<and>
       quiet s3 \<and> content s3 = (content s)(n := d) \<and> sectors s3 = (sectors s)(1 := (sectors s 1)(n := d)))"
proof -
  obtain b s1 where r: "bread 1 n s = Inr (b, s1)" "same_rest s s1" "bdata (buf_at b s1) = content s n" "b < length (bufs s1)"
    "\<forall>d. \<exists>s2 s3. bwrite b (s1\<lparr>bufs := (bufs s1)[b := (buf_at b s1)\<lparr>bdata := d\<rparr>]\<rparr>) = Inr s2 \<and> brelse b s2 = Inr s3 \<and> effect s s3 [(n, d)]"
    "\<exists>s3. brelse b s1 = Inr s3 \<and> effect s s3 []"
    by (rule rewrite_block [OF assms])
  have "\<exists>s2 s3. bwrite b (s1\<lparr>bufs := (bufs s1)[b := (buf_at b s1)\<lparr>bdata := d\<rparr>]\<rparr>) = Inr s2 \<and> brelse b s2 = Inr s3 \<and>
       quiet s3 \<and> content s3 = (content s)(n := d) \<and> sectors s3 = (sectors s)(1 := (sectors s 1)(n := d))" for d
    using r(5) [rule_format, of d] by (auto simp: effect_def)
  then show ?thesis using r(1,3) by blast
qed

theorem cache_refines_store_witness:
  "\<exists>b s1. bread 1 100 log_state1 = Inr (b, s1) \<and> bdata (buf_at b s1) = replicate 512 1 \<and> sectors log_state1 1 100 = replicate 512 0"
proof -
  have "quiet log_state1" "two_spares log_state1" using log_state1_pending(1) by (simp_all add: log_pending_def log_ready_def)
  moreover have "(100 :: u32) < 1000" by simp
  ultimately obtain b s1 where "bread 1 100 log_state1 = Inr (b, s1)" "bdata (buf_at b s1) = content log_state1 100"
    using cache_refines_store by blast
  moreover have "sectors log_state1 1 100 = replicate 512 0" by (simp add: log_state1_def log_state_def)
  ultimately show ?thesis using log_state1_pending(3) by auto
qed

section \<open>Logging a block\<close>

lemma log_find_absorbs: "b \<in> set xs \<Longrightarrow> i \<le> log_find i b xs \<and> log_find i b xs < i + int (length xs) \<and> xs ! nat (log_find i b xs - i) = b"
proof (induction xs arbitrary: i)
  case (Cons x xs)
  show ?case
  proof (cases "x = b")
    case False
    then have "b \<in> set xs" using Cons.prems by simp
    note ih = Cons.IH [OF this, of "i + 1"]
    have "nat (log_find (i + 1) b xs - i) = Suc (nat (log_find (i + 1) b xs - (i + 1)))" using ih by linarith
    then show ?thesis using ih False by auto
  qed simp
qed simp

lemma log_find_fresh: "b \<notin> set xs \<Longrightarrow> log_find i b xs = i + int (length xs)"
  by (induction xs arbitrary: i) auto

definition logged :: "'a logst_scheme \<Rightarrow> int list" where
  "logged s = take (nat (lh_n s)) (lh_block s)"

definition log_wf :: "'a logst_scheme \<Rightarrow> bool" where
  "log_wf s \<longleftrightarrow> 0 \<le> lh_n s \<and> lh_n s \<le> 30 \<and> length (lh_block s) = 30 \<and> distinct (logged s)"

lemma log_write_logged:
  assumes "log_wf s" and "log_write b s = Inr s'" and "b < length (bufs s)"
  shows "log_wf s' \<and> set (logged s') = insert (sint (blockno (buf_at b s))) (set (logged s)) \<and>
    lh_n s' = lh_n s + (if sint (blockno (buf_at b s)) \<in> set (logged s) then 0 else 1) \<and> bdirty (buf_at b s')"
proof -
  define n where "n = sint (blockno (buf_at b s))"
  define i where "i = log_find 0 n (logged s)"
  define t where "t = s\<lparr>lh_block := (lh_block s)[nat i := n]\<rparr>"
  have w: "0 \<le> lh_n s" "lh_n s < 30" "length (lh_block s) = 30" "distinct (logged s)" "length (logged s) = nat (lh_n s)"
    using assms(1,2) by (auto simp: log_wf_def log_write_def logged_def split: if_splits)
  have lt: "0 \<le> i \<and> i < 30"
    using w log_find_absorbs [of n "logged s" 0] log_find_fresh [of n "logged s" 0] by (cases "n \<in> set (logged s)") (auto simp: i_def)
  then have s': "s' = upd_buf b (\<lambda>p. p\<lparr>bdirty := True\<rparr>) (if i = lh_n s then t\<lparr>lh_n := lh_n s + 1\<rparr> else t)"
    using assms(2) by (auto simp: log_write_def n_def i_def logged_def lh_set_def Let_def t_def split: if_splits)
  have d: "bdirty (buf_at b s')" using assms(3) unfolding s' by (simp add: t_def upd_buf_def buf_at_def)
  show ?thesis
  proof (cases "n \<in> set (logged s)")
    case True
    then have i: "i < lh_n s" "logged s ! nat i = n" using log_find_absorbs [OF True, of 0] w by (simp_all add: i_def)
    then have "lh_block s ! nat i = n" using lt w by (simp add: logged_def)
    then have "(lh_block s)[nat i := n] = lh_block s" using list_update_id by metis
    then have l': "lh_n s' = lh_n s" "lh_block s' = lh_block s" using i unfolding s' by (simp_all add: upd_buf_def t_def)
    then have "logged s' = logged s" "log_wf s'" using assms(1) by (simp_all add: log_wf_def logged_def)
    then show ?thesis using True d l'(1) by (simp add: n_def insert_absorb)
  next
    case False
    then have i: "i = lh_n s" using log_find_fresh [OF False, of 0] w by (simp add: i_def)
    have l': "lh_n s' = lh_n s + 1" "lh_block s' = (lh_block s)[nat (lh_n s) := n]" using i unfolding s' by (simp_all add: upd_buf_def t_def)
    have lg: "logged s' = logged s @ [n]"
      using w l' by (simp add: logged_def nat_add_distrib take_Suc_conv_app_nth)
    show ?thesis using False d w l' lg by (auto simp: log_wf_def n_def)
  qed
qed

text \<open>C10. \<open>log_write\<close> keeps the header well formed: when it does not panic, the block of the buffer is in the list of logged blocks, listed
  once however often it is logged (log absorption), no other block leaves or enters the list, the list stays within
  its 30 entries, grows by at most one, and the buffer is pinned in the cache as dirty.\<close>

theorem log_write_absorbs:
  assumes "log_wf s" and "log_write b s = Inr s'" and "b < length (bufs s)"
  shows "log_wf s' \<and> set (logged s') = insert (sint (blockno (buf_at b s))) (set (logged s)) \<and>
    lh_n s' = lh_n s + (if sint (blockno (buf_at b s)) \<in> set (logged s) then 0 else 1) \<and> bdirty (buf_at b s')"
  by (rule log_write_logged [OF assms])

theorem log_write_absorbs_witness:
  "\<exists>s'. log_write 0 (log_state1\<lparr>log_outstanding := 1\<rparr>) = Inr s' \<and> log_wf s' \<and> set (logged s') = {100} \<and> lh_n s' = 1"
proof -
  let ?s = "log_state1\<lparr>log_outstanding := 1\<rparr>"
  have w: "log_wf ?s" "logged ?s = [100]" "sint (blockno (buf_at 0 ?s)) = 100" "0 < length (bufs ?s)" "lh_n ?s = 1"
    by (simp_all add: log_wf_def logged_def log_state1_def log_state_def buf_at_def)
  then have "\<exists>s'. log_write 0 ?s = Inr s'"
    by (simp add: log_write_def Let_def lh_set_def) (simp add: log_state1_def log_state_def logged_def)
  then obtain s' where "log_write 0 ?s = Inr s'" by blast
  then show ?thesis using log_write_absorbs [OF w(1) _ w(4)] w by auto
qed

end
