(* ===== verification/Fs_Blocks.thy ===== *)
theory Fs_Blocks
  imports Log_Write Inode
begin

text \<open>
  Allocation of blocks by the file system, over the cache and the log: \<open>balloc\<close>, \<open>bzero\<close> and \<open>bfree\<close> of \<^verbatim>\<open>src/src/fs.c\<close>
  act on the store of blocks, and a transaction logs what they change.
\<close>

section \<open>Logging one block\<close>

definition fs_rest :: "'a logst_scheme \<Rightarrow> 'a logst_scheme \<Rightarrow> bool" where
  "fs_rest s s' \<longleftrightarrow> logst.more s' = logst.more s \<and> log_size s' = log_size s \<and> log_outstanding s' = log_outstanding s \<and>
     log_start s' = log_start s \<and> log_dev s' = log_dev s \<and> (\<forall>l\<ge>30. sleeplocks s' l = sleeplocks s l)"

lemma fs_rest_trans: "fs_rest s s' \<Longrightarrow> fs_rest s' s'' \<Longrightarrow> fs_rest s s''"
  by (simp add: fs_rest_def)

lemma same_rest_fs: "same_rest s s' \<Longrightarrow> fs_rest s s' \<and> lh_n s' = lh_n s \<and> lh_block s' = lh_block s"
  by (cases s; cases s') (simp add: same_rest_def fs_rest_def)

lemma fs_rest_sb: "fs_rest s s' \<Longrightarrow> sb s' = sb s" for s :: "'a fsst_scheme"
  by (cases s; cases s') (simp add: fs_rest_def)

text \<open>Room for \<open>k\<close> more blocks in the transaction.\<close>

definition log_room :: "int \<Rightarrow> 'a logst_scheme \<Rightarrow> bool" where
  "log_room k s \<longleftrightarrow> log_wf s \<and> 1 \<le> log_outstanding s \<and> lh_n s + k \<le> 30 \<and> lh_n s + k \<le> log_size s - 1"

lemma same_rest_room: "same_rest s s' \<Longrightarrow> log_room k s' = log_room k s \<and> logged s' = logged s"
  using same_rest_fs [of s s'] by (simp add: log_room_def log_wf_def logged_def fs_rest_def)

lemma log_write_run:
  assumes "log_room 1 s"
  shows "\<exists>bl n. log_write b s = Inr (upd_buf b (\<lambda>p. p\<lparr>bdirty := True\<rparr>) (s\<lparr>lh_block := bl, lh_n := n\<rparr>))"
proof -
  define i where "i = log_find 0 (sint (blockno (buf_at b s))) (logged s)"
  have w: "0 \<le> lh_n s" "lh_n s < 30" "length (logged s) = nat (lh_n s)"
    using assms by (auto simp: log_room_def log_wf_def logged_def)
  have i: "0 \<le> i" "i < 30"
    using w log_find_absorbs [of "sint (blockno (buf_at b s))" "logged s" 0] log_find_fresh [of "sint (blockno (buf_at b s))" "logged s" 0]
    by (cases "sint (blockno (buf_at b s)) \<in> set (logged s)"; simp add: i_def)+
  let ?bl = "(lh_block s)[nat i := sint (blockno (buf_at b s))]"
  have "log_write b s = Inr (upd_buf b (\<lambda>p. p\<lparr>bdirty := True\<rparr>) (s\<lparr>lh_block := ?bl, lh_n := if i = lh_n s then lh_n s + 1 else lh_n s\<rparr>))"
    using assms i by (simp add: log_write_def Let_def i_def [unfolded logged_def, symmetric] lh_set_def log_room_def)
  then show ?thesis by blast
qed

lemma log_write_holds:
  assumes h: "holds s B" and bB: "b \<in> B" and sl: "slot s n b" and v: "bvalid (buf_at b s)" and rm: "log_room 1 s"
  obtains s' where "log_write b (set_data b f s) = Inr s'" "holds s' B" "fs_rest s s'" "sectors s' = sectors s"
    "content s' = (content s)(n := f (bdata (buf_at b s)))" "\<forall>i m. slot s' m i \<longleftrightarrow> slot s m i"
    "\<forall>i. bdirty (buf_at i s') \<longleftrightarrow> i = b \<or> bdirty (buf_at i s)"
    "log_wf s'" "lh_n s' \<le> lh_n s + 1" "set (logged s') = insert (sint n) (set (logged s))"
    "\<forall>m. dirty_block s' m \<longleftrightarrow> m = n \<or> dirty_block s m"
proof -
  have b: "b < 30" "bdev (buf_at b s) = 1" "blockno (buf_at b s) = n" using sl by (simp_all add: slot_def)
  have ok: "cache_ok s" by (rule holds_ok [OF h])
  then have id: "idle_disk s" "distinct (blru s)" "set (blru s) = {..<30}" "length (bufs s) = 30"
    by (simp_all add: cache_ok_def idle_disk_def)
  let ?s0 = "set_data b f s"
  have l0: "lh_n ?s0 = lh_n s" "logged ?s0 = logged s" "log_wf ?s0 = log_wf s" "log_room 1 ?s0 = log_room 1 s"
    by (simp_all add: set_data_def upd_buf_def logged_def log_wf_def log_room_def)
  have b0: "blockno (buf_at b ?s0) = n" "b < length (bufs ?s0)" using b id(4) by (simp_all add: set_data_def upd_buf_def buf_at_def)
  obtain bl k where lw: "log_write b ?s0 = Inr (upd_buf b (\<lambda>p. p\<lparr>bdirty := True\<rparr>) (?s0\<lparr>lh_block := bl, lh_n := k\<rparr>))"
    using log_write_run [of ?s0 b] rm l0(4) by blast
  define s' where "s' = upd_buf b (\<lambda>p. p\<lparr>bdirty := True\<rparr>) (?s0\<lparr>lh_block := bl, lh_n := k\<rparr>)"
  have lw': "log_write b ?s0 = Inr s'" using lw by (simp add: s'_def)
  have wf: "log_wf s" using rm by (simp add: log_room_def)
  have lg: "log_wf s'" "set (logged s') = insert (sint n) (set (logged s))" "lh_n s' \<le> lh_n s + 1"
    using log_write_logged [OF _ lw' b0(2)] wf l0 b0(1) by auto
  let ?q = "(buf_at b s)\<lparr>bdata := f (bdata (buf_at b s)), bdirty := True\<rparr>"
  have e: "bufs s' = (bufs s)[b := ?q]" "sectors s' = sectors s" "sleeplocks s' = sleeplocks s" "blru s' = blru s"
    "fs_rest s s'" "me_pid s' = me_pid s"
    using b(1) id(4) by (simp_all add: s'_def set_data_def upd_buf_def buf_at_def fs_rest_def me_pid_def)
  have ids: "idle_disk s'" using id(1) by (simp add: s'_def set_data_def upd_buf_def idle_disk_def running_ok_def)
  have lru: "distinct (blru s')" "set (blru s') = {..<30}" using id(2,3) e(4) by simp_all
  have al: "\<forall>i. slot s n i \<longrightarrow> i = b" using slot_unique [OF ok _ sl] by blast
  have q: "bdev ?q = 1" "blockno ?q = n" "bdirty ?q \<longrightarrow> bvalid ?q" "bvalid ?q \<longrightarrow> \<not> bdirty ?q \<longrightarrow> bdata ?q = sectors s' 1 n"
    using b v by simp_all
  have "\<forall>m. m \<noteq> n \<longrightarrow> sectors s' 1 m = sectors s 1 m" using e(2) by simp
  from one_bufferI [OF ok b(1) e(1) ids lru q al this] have o: "one_buffer s s' b ?q" using sl by blast
  have ot: "buf_at i s' = buf_at i s" if "i \<noteq> b" for i using one_buffer_at(1) [OF o] that by simp
  have qb: "buf_at b s' = ?q" using one_buffer_at(1) [OF o] by simp
  have "refcnt (buf_at i s') = refcnt (buf_at i s)" "mine i s' = mine i s" for i
    using ot [of i] qb e(3,6) by (cases "i = b"; simp add: mine_def)+
  then have "holds s' B" using holdsD [OF h] e(3) by (intro holdsI one_buffer_ok [OF o]) simp_all
  moreover have "slot s' m i \<longleftrightarrow> slot s m i" "bdirty (buf_at i s') \<longleftrightarrow> i = b \<or> bdirty (buf_at i s)" for i m
    using ot [of i] qb by (cases "i = b"; simp add: slot_def)+
  moreover have "content s' = (content s)(n := f (bdata (buf_at b s)))"
  proof
    fix m show "content s' m = ((content s)(n := f (bdata (buf_at b s)))) m"
      using one_buffer_content [OF o, unfolded q(2)] one_buffer_content_other [OF o, unfolded q(2), of m] v by (cases "m = n") simp_all
  qed
  moreover have "dirty_block s' m \<longleftrightarrow> m = n \<or> dirty_block s m" for m
    using one_buffer_dirty [OF o, of m, unfolded q(2)] by (cases "m = n") simp_all
  ultimately show ?thesis using that [OF lw' _ e(5,2)] lg by blast
qed

text \<open>Block \<open>n\<close> becomes \<open>d\<close> in a transaction: only the cache and the log's list change.\<close>

definition logs :: "u32 \<Rightarrow> u8 list \<Rightarrow> 'a logst_scheme \<Rightarrow> 'a logst_scheme \<Rightarrow> bool" where
  "logs n d s s' \<longleftrightarrow> quiet s' \<and> fs_rest s s' \<and> sectors s' = sectors s \<and> content s' = (content s)(n := d) \<and>
     log_wf s' \<and> lh_n s' \<le> lh_n s + 1 \<and> set (logged s') = insert (sint n) (set (logged s)) \<and>
     (\<forall>m. dirty_block s' m \<longleftrightarrow> m = n \<or> dirty_block s m) \<and> (\<exists>b. \<forall>i. spare s i \<longrightarrow> i \<noteq> b \<longrightarrow> spare s' i)"

lemma logsD:
  assumes "logs n d s s'"
  shows "quiet s'" "fs_rest s s'" "sectors s' = sectors s" "content s' = (content s)(n := d)" "log_wf s'" "lh_n s' \<le> lh_n s + 1"
    "set (logged s') = insert (sint n) (set (logged s))" "two_spares s \<Longrightarrow> \<exists>i. spare s' i"
    "log_room (k + 1) s \<Longrightarrow> log_room k s'" "dirty_block s' m \<longleftrightarrow> m = n \<or> dirty_block s m"
proof -
  show "two_spares s \<Longrightarrow> \<exists>i. spare s' i" using assms unfolding logs_def two_spares_def by metis
  show "log_room (k + 1) s \<Longrightarrow> log_room k s'" using assms by (auto simp: logs_def log_room_def fs_rest_def)
qed (use assms in \<open>simp_all add: logs_def\<close>)

lemma log_block:
  assumes q: "quiet s" and n: "n < 1000" and sp: "dirty_block s n \<or> (\<exists>i. spare s i)"
  obtains b s1 where "bread 1 n s = Inr (b, s1)" "same_rest s s1" "bdata (buf_at b s1) = content s n"
    "\<And>f. log_room 1 s \<Longrightarrow> \<exists>s2 s3. log_write b (set_data b f s1) = Inr s2 \<and> brelse b s2 = Inr s3 \<and> logs n (f (content s n)) s s3"
    "\<exists>s3. brelse b s1 = Inr s3"
proof -
  have h0: "holds s {}" using q by (simp add: quiet_holds)
  have av: "(\<exists>i. slot s n i) \<or> (\<exists>i. spare s i)" using sp unfolding dirty_block_def by blast
  obtain b s1 where r: "bread 1 n s = Inr (b, s1)" "read_by s n b s1" by (rule read_holds [OF h0 _ n av]) simp_all
  have h1: "holds s1 {b}" and d1: "\<And>k. spare s k \<Longrightarrow> \<not> bdirty (buf_at k s1)"
    using read_by_holds(1,3) [OF h0 _ r(2)] by simp_all
  have sl: "slot s1 n b" "bvalid (buf_at b s1)" and c1: "content s1 = content s" "sectors s1 = sectors s" "same_rest s s1" "dirty_block s1 = dirty_block s"
    using r(2) by (simp_all add: read_by_def)
  have em: "{b} - {b} = {}" by simp
  have w: "\<exists>s2 s3. log_write b (set_data b f s1) = Inr s2 \<and> brelse b s2 = Inr s3 \<and> logs n (f (content s n)) s s3" if "log_room 1 s" for f
  proof -
    have rm: "log_room 1 s1" "logged s1 = logged s" using same_rest_room [OF c1(3)] that by simp_all
    obtain s2 where w: "log_write b (set_data b f s1) = Inr s2" "holds s2 {b}" "fs_rest s1 s2" "sectors s2 = sectors s1"
      "content s2 = (content s1)(n := f (bdata (buf_at b s1)))" "\<forall>i m. slot s2 m i \<longleftrightarrow> slot s1 m i"
      "\<forall>i. bdirty (buf_at i s2) \<longleftrightarrow> i = b \<or> bdirty (buf_at i s1)"
      "log_wf s2" "lh_n s2 \<le> lh_n s1 + 1" "set (logged s2) = insert (sint n) (set (logged s1))"
      "\<forall>m. dirty_block s2 m \<longleftrightarrow> m = n \<or> dirty_block s1 m"
      by (rule log_write_holds [OF h1 _ sl rm(1)]) simp
    have sl2: "slot s2 n b" using w(6) sl by blast
    obtain s3 where v: "brelse b s2 = Inr s3" "holds s3 ({b} - {b})" "same_rest s2 s3" "sectors s3 = sectors s2" "dtrace s3 = dtrace s2"
      "content s3 = content s2" "dirty_block s3 = dirty_block s2" "\<forall>i m. slot s3 m i \<longleftrightarrow> slot s2 m i"
      "\<forall>i. bdirty (buf_at i s3) = bdirty (buf_at i s2)"
      by (rule relse_holds [OF w(2) _ sl2]) simp
    have q3: "quiet s3" using v(2) unfolding em quiet_holds .
    have "spare s3 i" if "spare s i" "i \<noteq> b" for i
      using that q3 v(9) w(7) d1 by (simp add: spare_def quiet_def)
    moreover have "fs_rest s s3" "lh_n s3 \<le> lh_n s + 1" "logged s3 = logged s2" "log_wf s3"
      using same_rest_fs [OF c1(3)] same_rest_fs [OF v(3)] w(3,8,9) by (auto simp: fs_rest_def logged_def log_wf_def)
    ultimately have "logs n (f (content s n)) s s3"
      unfolding logs_def using q3 v(4,6,7) w(4,5,10,11) c1 rm(2) read_by_data [OF r(2)] by auto
    then show ?thesis using w(1) v(1) by blast
  qed
  have "\<exists>s3. brelse b s1 = Inr s3" by (rule relse_holds [OF h1 _ sl(1)]) auto
  then show ?thesis using that [OF r(1) c1(3) read_by_data [OF r(2)]] w by blast
qed

lemma bzero_logs:
  assumes "quiet s" and "n < 1000" and "\<exists>i. spare s i" and rm: "log_room 1 s"
  shows "\<exists>s'. bzero 1 n s = Inr s' \<and> logs n (replicate 512 0) s s'"
proof -
  obtain b s1 where r: "bread 1 n s = Inr (b, s1)" "same_rest s s1" "bdata (buf_at b s1) = content s n" "\<exists>s3. brelse b s1 = Inr s3"
    and w: "\<And>f. log_room 1 s \<Longrightarrow> \<exists>s2 s3. log_write b (set_data b f s1) = Inr s2 \<and> brelse b s2 = Inr s3 \<and> logs n (f (content s n)) s s3"
    by (rule log_block [OF assms(1,2) disjI2 [OF assms(3)]]) blast
  show ?thesis using w [OF rm, of "\<lambda>_. replicate 512 0"] r by (auto simp: bzero_def)
qed


section \<open>The bitmap\<close>

definition block_free :: "u8 list \<Rightarrow> nat \<Rightarrow> bool" where
  "block_free d n \<longleftrightarrow> d ! (n div 8) AND bit_of n = 0"

abbreviation mark :: "u8 list \<Rightarrow> nat \<Rightarrow> u8 list" where
  "mark d n \<equiv> d[n div 8 := d ! (n div 8) OR bit_of n]"

lemma and_bit_of: "x AND bit_of n = 0 \<longleftrightarrow> \<not> bit x (n mod 8)"
  by (simp add: bit_of_def and_exp_eq_0_iff_not_bit)

lemma bit_bit_of: "bit (bit_of n) k \<longleftrightarrow> k = n mod 8"
proof -
  have "n mod 8 < 8" by simp
  then show ?thesis by (auto simp: bit_of_def bit_exp_iff)
qed

lemma block_free_mark:
  assumes "n < 8 * length d" and "k < 8 * length d"
  shows "block_free (mark d n) k \<longleftrightarrow> block_free d k \<and> k \<noteq> n"
proof (cases "k div 8 = n div 8")
  case True
  have "n div 8 < length d" using assms by (simp add: less_mult_imp_div_less mult.commute)
  moreover have "k mod 8 = n mod 8 \<longleftrightarrow> k = n" using True by (metis div_mult_mod_eq)
  ultimately show ?thesis using True by (auto simp: block_free_def and_bit_of bit_or_iff bit_bit_of)
next
  case False
  then show ?thesis by (auto simp: block_free_def)
qed

lemma unmark_mark:
  assumes "n < 8 * length d" and "block_free d n"
  shows "(mark d n)[n div 8 := mark d n ! (n div 8) AND NOT (bit_of n)] = d"
proof -
  have "n div 8 < length d" using assms by (simp add: less_mult_imp_div_less mult.commute)
  moreover have "(x OR bit_of n) AND NOT (bit_of n) = x" if "\<not> bit x (n mod 8)" for x :: u8
    using that by (intro bit_word_eqI) (auto simp: bit_or_iff bit_and_iff bit_not_iff bit_bit_of)
  ultimately show ?thesis using assms(2) by (simp add: block_free_def and_bit_of)
qed

lemma free_bit_Some:
  "z \<le> 4096 \<Longrightarrow> free_bit z 0 d = Some n \<longleftrightarrow> n < unat z \<and> block_free d n \<and> (\<forall>k<n. \<not> block_free d k)"
  by (auto simp: free_bit_def block_free_def find_Some_iff word_le_nat_alt min_absorb2)

lemma free_bit_None: "z \<le> 4096 \<Longrightarrow> free_bit z 0 d = None \<longleftrightarrow> (\<forall>k<unat z. \<not> block_free d k)"
  by (auto simp: free_bit_def block_free_def find_None_iff word_le_nat_alt min_absorb2)

section \<open>Allocation\<close>

text \<open>A file system whose bitmap is one block, which marks itself as used, in a transaction with room for \<open>k\<close> blocks.\<close>

definition fs_ready :: "int \<Rightarrow> 'a fsst_scheme \<Rightarrow> bool" where
  "fs_ready k s \<longleftrightarrow> quiet s \<and> two_spares s \<and> log_room k s \<and> 0 < sb_size (sb s) \<and> sb_size (sb s) \<le> 1000 \<and>
     sb_bmapstart (sb s) < sb_size (sb s) \<and> length (content s (sb_bmapstart (sb s))) = 512 \<and>
     \<not> block_free (content s (sb_bmapstart (sb s))) (unat (sb_bmapstart (sb s)))"

abbreviation bitmap :: "'a fsst_scheme \<Rightarrow> u8 list" where
  "bitmap s \<equiv> content s (sb_bmapstart (sb s))"

lemma balloc_one:
  fixes s :: "'a fsst_scheme"
  assumes "0 < sb_size (sb s)" and "sb_size (sb s) \<le> 1000"
  shows "balloc dev s = balloc_loop dev [0] s" "BBLOCK 0 (sb s) = sb_bmapstart (sb s)"
proof -
  have "0 < unat (sb_size (sb s))" "unat (sb_size (sb s)) \<le> 1000" using assms by (simp_all add: word_less_nat_alt word_le_nat_alt)
  then have "(unat (sb_size (sb s)) + 4095) div 4096 = 1" by auto
  then show "balloc dev s = balloc_loop dev [0] s" by (simp add: balloc_def)
  show "BBLOCK 0 (sb s) = sb_bmapstart (sb s)" by (simp add: BBLOCK_def)
qed

lemma balloc_result:
  fixes s :: "'a fsst_scheme"
  assumes f: "fs_ready 2 s" and n: "n < unat (sb_size (sb s))" "block_free (bitmap s) n" "\<forall>k<n. \<not> block_free (bitmap s) k"
  shows "\<exists>s1 s'. balloc 1 s = Inr (of_nat n, s') \<and> logs (sb_bmapstart (sb s)) (mark (bitmap s) n) s s1 \<and> logs (of_nat n) (replicate 512 0) s1 s'
    \<and> of_nat n \<noteq> sb_bmapstart (sb s) \<and> (of_nat n :: u32) < 1000"
proof -
  let ?bm = "sb_bmapstart (sb s)"
  have a: "quiet s" "two_spares s" "log_room 2 s" "0 < sb_size (sb s)" "sb_size (sb s) \<le> 1000" "?bm < sb_size (sb s)"
    "\<not> block_free (bitmap s) (unat ?bm)" using f by (simp_all add: fs_ready_def)
  have sz: "unat (sb_size (sb s)) \<le> 1000" "sb_size (sb s) \<le> 4096" using a(5) by (simp_all add: word_le_nat_alt)
  have bm: "?bm < 1000" using a(5,6) by simp
  have un: "unat (of_nat n :: u32) = n" using n(1) sz(1) by (simp add: unat_of_nat)
  have ne: "of_nat n \<noteq> ?bm" using n(2) a(7) un by auto
  have lt: "(of_nat n :: u32) < 1000" using n(1) sz(1) un by (simp add: word_less_nat_alt)
  have sp: "\<exists>i. spare s i" using a(2) by (auto simp: two_spares_def)
  have rm: "log_room 1 s" using a(3) by (simp add: log_room_def)
  obtain b t where r: "bread 1 ?bm s = Inr (b, t)" "same_rest s t" "bdata (buf_at b t) = bitmap s" "\<exists>s3. brelse b t = Inr s3"
    and w: "\<And>f. log_room 1 s \<Longrightarrow> \<exists>s2 s3. log_write b (set_data b f t) = Inr s2 \<and> brelse b s2 = Inr s3 \<and> logs ?bm (f (bitmap s)) s s3"
    by (rule log_block [OF a(1) bm disjI2 [OF sp]]) blast
  have sbt: "sb t = sb s" using fs_rest_sb same_rest_fs [OF r(2)] by blast
  obtain s2 s1 where w1: "log_write b (set_data b (\<lambda>d. mark d n) t) = Inr s2" "brelse b s2 = Inr s1" "logs ?bm (mark (bitmap s) n) s s1"
    using w [OF rm, of "\<lambda>d. mark d n"] by blast
  note l = logsD [OF w1(3)]
  have "log_room (1 + 1) s" using a(3) by simp
  then obtain s' where z: "bzero 1 (of_nat n) s1 = Inr s'" "logs (of_nat n) (replicate 512 0) s1 s'"
    using bzero_logs [OF l(1) lt l(8) [OF a(2)] l(9)] by blast
  have fb: "free_bit (sb_size (sb s)) 0 (bitmap s) = Some n" using free_bit_Some [OF sz(2)] n by blast
  have "balloc 1 s = Inr (of_nat n, s')"
    using r(1,3) fb w1(1,2) z(1) by (simp add: balloc_one [OF a(4,5)] sbt)
  then show ?thesis using w1(3) z(2) ne lt by blast
qed


text \<open>An example: an empty cache, and a bitmap in block 58 with the first 64 blocks in use.\<close>

definition fs_disk :: "u32 \<Rightarrow> u8 list" where
  "fs_disk n = (if n = 58 then replicate 8 0xFF @ replicate 504 0 else replicate 512 1)"

definition fs_state :: fsst where
  "fs_state = \<lparr>mem = \<lambda>_. 0, freelist = 0, use_lock = True, cr3 = 0, kend = 0, kdata = 0,
     ptable = [pproc RUNNING None False],
     cpu_proc = Some 0, nextpid = 1, initproc = None, ticks = 0, gdt = [], ts_ss0 = 0,
     ts_esp0 = 0, ts_iomb = 0, cpu_ts = 0, kpgdir = 0, ktrapret = 0, kforkret = 0,
     sleeplocks = \<lambda>_. \<lparr>slocked = False, slpid = 0\<rparr>,
     pipes = \<lambda>_. \<lparr>pdata = replicate 512 0, nread = 0, nwrite = 0, readopen = True, writeopen = True\<rparr>,
     bufs = replicate 30 \<lparr>bvalid = False, bdirty = False, bdev = 0, blockno = 0, refcnt = 0, bdata = []\<rparr>,
     blru = [0..<30], idequeue = [], havedisk1 = True, sectors = \<lambda>_. fs_disk, ide_sel = (0, 0), ide_err = False, dtrace = [],
     log_start = 2, log_size = 30, log_outstanding = 1, log_committing = False, log_dev = 1, lh_n = 0, lh_block = replicate 30 0,
     sb = \<lparr>sb_size = 1000, sb_nblocks = 941, sb_ninodes = 200, sb_nlog = 30, sb_logstart = 2, sb_inodestart = 32, sb_bmapstart = 58\<rparr>,
     inodes = [], devsw_read = [], devsw_write = [], con = \<lparr>panicked = False, uart_on = False, uart_out = [], crt = [], crt_pos = 0\<rparr>,
     input_buf = [], input_r = 0, input_w = 0, input_e = 0\<rparr>"

lemma fs_state_ready: "fs_ready 3 fs_state" "content fs_state = fs_disk" "sb_bmapstart (sb fs_state) = 58" "sb_size (sb fs_state) = 1000"
proof -
  let ?s = fs_state
  have b: "buf_at i ?s = \<lparr>bvalid = False, bdirty = False, bdev = 0, blockno = 0, refcnt = 0, bdata = []\<rparr>" if "i < 30" for i
    using that by (simp add: fs_state_def buf_at_def)
  have sl: "\<not> slot ?s n i" for n i using b [of i] by (auto simp: slot_def)
  have f: "idle_disk ?s" "blru ?s = [0..<30]" "sectors ?s 1 = fs_disk" "\<not> slocked (sleeplocks ?s i)" for i
    by (simp_all add: idle_disk_def running_ok_def fs_state_def)
  show c: "content ?s = fs_disk" using content_uncached [of ?s] sl f(3) by (simp add: fun_eq_iff)
  show z: "sb_bmapstart (sb ?s) = 58" "sb_size (sb ?s) = 1000" by (simp_all add: fs_state_def)
  have "set [0..<30] = {..<30::nat}" by auto
  then have "cache_ok ?s" using f by (simp add: cache_ok_def sl)
  then have q: "quiet ?s" using f by (simp add: quiet_def b)
  have "spare ?s 1" "spare ?s 2" by (simp_all add: spare_def b)
  then have t: "two_spares ?s" unfolding two_spares_def by (metis numeral_eq_one_iff semiring_norm(85))
  have r: "log_room 3 ?s" by (simp add: log_room_def log_wf_def logged_def fs_state_def)
  have "\<not> block_free (fs_disk 58) 58" "length (fs_disk 58) = 512" by (simp_all add: block_free_def fs_disk_def bit_of_def nth_append)
  then show "fs_ready 3 ?s" using q t r by (simp add: fs_ready_def c z)
qed

lemma fs_state_free: "block_free (fs_disk 58) 64" "k < 64 \<Longrightarrow> \<not> block_free (fs_disk 58) k"
proof -
  show "block_free (fs_disk 58) 64" by (simp add: block_free_def fs_disk_def nth_append)
  assume "k < 64"
  then have "fs_disk 58 ! (k div 8) = - 1" by (simp add: fs_disk_def nth_append)
  then show "\<not> block_free (fs_disk 58) k" unfolding block_free_def and_bit_of by simp
qed

text \<open>C7. \<open>balloc\<close> allocates the first free block: when the bitmap has a clear bit, it returns the block of the first one, marks that block and
  no other as used, fills it with zeros, changes no other block and nothing on the disk, and has both blocks in the log's list;
  when every bit is set, it panics.\<close>

theorem balloc_allocates:
  fixes s :: "'a fsst_scheme"
  assumes f: "fs_ready 2 s"
  defines "bm \<equiv> sb_bmapstart (sb s)"
  shows "if \<exists>k<unat (sb_size (sb s)). block_free (content s bm) k
    then \<exists>n s'. balloc 1 s = Inr (of_nat n, s') \<and> n < unat (sb_size (sb s)) \<and> block_free (content s bm) n \<and> (\<forall>k<n. \<not> block_free (content s bm) k) \<and>
      quiet s' \<and> sb s' = sb s \<and> sectors s' = sectors s \<and> content s' (of_nat n) = replicate 512 0 \<and>
      (\<forall>k<4096. block_free (content s' bm) k \<longleftrightarrow> block_free (content s bm) k \<and> k \<noteq> n) \<and>
      (\<forall>m. m \<noteq> of_nat n \<longrightarrow> m \<noteq> bm \<longrightarrow> content s' m = content s m) \<and>
      set (logged s') = {int n, sint bm} \<union> set (logged s)
    else balloc 1 s = Inl (Panic ''balloc: out of blocks'')"
proof (cases "\<exists>k<unat (sb_size (sb s)). block_free (content s bm) k")
  case True
  have a: "sb_size (sb s) \<le> 1000" "length (content s bm) = 512" using f by (simp_all add: fs_ready_def bm_def)
  define n where "n = (LEAST k. block_free (content s bm) k)"
  have n: "n < unat (sb_size (sb s))" "block_free (content s bm) n" "\<forall>k<n. \<not> block_free (content s bm) k"
    using True unfolding n_def by (metis Least_le le_less_trans, metis LeastI, metis not_less_Least)
  obtain s1 s' where b: "balloc 1 s = Inr (of_nat n, s')" "logs bm (mark (content s bm) n) s s1" "logs (of_nat n) (replicate 512 0) s1 s'"
    "of_nat n \<noteq> bm" using balloc_result [OF f] n unfolding bm_def by blast
  have lt: "n < 1000" using n(1) a(1) by (simp add: word_le_nat_alt)
  then have si: "sint (of_nat n :: u32) = int n" using small_sint [of "int n"] by simp
  note l = logsD [OF b(2)] and l' = logsD [OF b(3)]
  have "content s' = (content s)(bm := mark (content s bm) n, of_nat n := replicate 512 0)" by (simp add: l(4) l'(4))
  moreover have "sb s' = sb s" using fs_rest_sb [OF fs_rest_trans [OF l(2) l'(2)]] .
  moreover have "set (logged s') = {int n, sint bm} \<union> set (logged s)" by (simp add: l(7) l'(7) si)
  moreover have "block_free (mark (content s bm) n) k \<longleftrightarrow> block_free (content s bm) k \<and> k \<noteq> n" if "k < 4096" for k
    using block_free_mark [of n "content s bm" k] that lt a(2) by simp
  ultimately show ?thesis using True b(1,4) n l'(1,3) l(3) by auto
next
  case False
  have a: "quiet s" "two_spares s" "0 < sb_size (sb s)" "sb_size (sb s) \<le> 1000" "bm < sb_size (sb s)"
    using f by (simp_all add: fs_ready_def bm_def)
  have bm: "bm < 1000" "sb_size (sb s) \<le> 4096" using a(4,5) by (simp_all add: word_le_nat_alt word_less_nat_alt)
  have sp: "\<exists>i. spare s i" using a(2) by (auto simp: two_spares_def)
  obtain b t where r: "bread 1 bm s = Inr (b, t)" "same_rest s t" "bdata (buf_at b t) = content s bm" "\<exists>s3. brelse b t = Inr s3"
    by (rule log_block [OF a(1) bm(1) disjI2 [OF sp]]) blast
  have "sb t = sb s" using fs_rest_sb same_rest_fs [OF r(2)] by blast
  moreover have "free_bit (sb_size (sb s)) 0 (content s bm) = None" using free_bit_None [OF bm(2)] False by blast
  ultimately show ?thesis using r(1,3,4) False by (auto simp: balloc_one [OF a(3,4)] bm_def)
qed

theorem balloc_allocates_witness:
  "\<exists>s'. balloc 1 fs_state = Inr (64, s') \<and> content s' 64 = replicate 512 0 \<and> \<not> block_free (content s' 58) 64"
proof -
  have f: "fs_ready 2 fs_state" using fs_state_ready(1) by (simp add: fs_ready_def log_room_def)
  have e: "\<exists>k<unat (1000 :: u32). block_free (fs_disk 58) k" using fs_state_free(1) by (intro exI [of _ 64]) simp
  obtain n s' where n: "balloc 1 fs_state = Inr (of_nat n, s')" "block_free (fs_disk 58) n" "\<forall>k<n. \<not> block_free (fs_disk 58) k"
    "content s' (of_nat n) = replicate 512 0" "\<forall>k<4096. block_free (content s' 58) k \<longleftrightarrow> block_free (fs_disk 58) k \<and> k \<noteq> n"
    using balloc_allocates [OF f] e unfolding fs_state_ready(2-4) by auto
  have "\<not> n < 64" "\<not> 64 < n" using n(2,3) fs_state_free by blast+
  then have "n = 64" by simp
  then show ?thesis using n by auto
qed

text \<open>C8. \<open>bfree\<close> undoes \<open>balloc\<close>: freeing the block that \<open>balloc\<close> returned succeeds and restores the bitmap; all that
  is left of the allocation is that the block is zero.\<close>

theorem balloc_bfree:
  fixes s :: "'a fsst_scheme"
  assumes f: "fs_ready 3 s" and k: "k < unat (sb_size (sb s))" "block_free (content s (sb_bmapstart (sb s))) k"
  shows "\<exists>n s1 s2. balloc 1 s = Inr (n, s1) \<and> bfree 1 n s1 = Inr s2 \<and> quiet s2 \<and> sectors s2 = sectors s \<and>
    content s2 = (content s)(n := replicate 512 0)"
proof -
  let ?bm = "sb_bmapstart (sb s)"
  have f2: "fs_ready 2 s" and a: "sb_size (sb s) \<le> 1000" "length (bitmap s) = 512" "?bm < sb_size (sb s)" "log_room (1 + 1 + 1) s"
    using f by (simp_all add: fs_ready_def log_room_def)
  define n where "n = (LEAST k. block_free (bitmap s) k)"
  have n: "n < unat (sb_size (sb s))" "block_free (bitmap s) n" "\<forall>k<n. \<not> block_free (bitmap s) k"
    using k unfolding n_def by (metis Least_le le_less_trans, metis LeastI, metis not_less_Least)
  obtain t s1 where b: "balloc 1 s = Inr (of_nat n, s1)" "logs ?bm (mark (bitmap s) n) s t" "logs (of_nat n) (replicate 512 0) t s1"
    "of_nat n \<noteq> ?bm" "(of_nat n :: u32) < 1000" using balloc_result [OF f2 n] by blast
  note l = logsD [OF b(2)] and l' = logsD [OF b(3)]
  have lt: "n < 1000" using n(1) a(1) by (simp add: word_le_nat_alt)
  have un: "unat (of_nat n mod 4096 :: u32) = n" using lt by (simp add: unat_mod unat_of_nat)
  have sb1: "sb s1 = sb s" using fs_rest_sb [OF fs_rest_trans [OF l(2) l'(2)]] .
  have bb: "BBLOCK (of_nat n) (sb s1) = ?bm"
  proof -
    have "unat (of_nat n div 4096 :: u32) = 0" using lt by (simp add: unat_div unat_of_nat)
    then have "of_nat n div 4096 = (0 :: u32)" by (simp add: unat_eq_0)
    then show ?thesis by (simp add: BBLOCK_def sb1)
  qed
  have bm: "?bm < 1000" using a(1,3) by simp
  have d: "dirty_block s1 ?bm" using l(10) l'(10) by simp
  have rm: "log_room 1 s1" by (rule l'(9) [OF l(9) [OF a(4)]])
  have c1: "content s1 ?bm = mark (bitmap s) n" using b(4) by (simp add: l(4) l'(4))
  obtain b' t' where r: "bread 1 ?bm s1 = Inr (b', t')" "same_rest s1 t'" "bdata (buf_at b' t') = content s1 ?bm" "\<exists>s3. brelse b' t' = Inr s3"
    and w: "\<And>f. log_room 1 s1 \<Longrightarrow> \<exists>s2 s3. log_write b' (set_data b' f t') = Inr s2 \<and> brelse b' s2 = Inr s3 \<and> logs ?bm (f (content s1 ?bm)) s1 s3"
    by (rule log_block [OF l'(1) bm disjI1 [OF d]]) blast
  let ?g = "\<lambda>d. d[n div 8 := d ! (n div 8) AND NOT (bit_of n)]"
  obtain s2 s3 where z: "log_write b' (set_data b' ?g t') = Inr s2" "brelse b' s2 = Inr s3" "logs ?bm (?g (content s1 ?bm)) s1 s3"
    using w [OF rm, of ?g] by blast
  have g: "?g (content s1 ?bm) = bitmap s" unfolding c1 by (rule unmark_mark) (use lt a(2) n(2) in simp_all)
  have "\<not> block_free (mark (bitmap s) n) n" using block_free_mark [of n "bitmap s" n] lt a(2) by simp
  then have nf: "\<not> block_free (content s1 ?bm) n" unfolding c1 .
  note l3 = logsD [OF z(3) [unfolded g]]
  have "bfree 1 (of_nat n) s1 = Inr s3"
    using r(1,3) z(1,2) nf un unfolding bfree_def bb block_free_def by simp
  moreover have "content s3 = (content s)(of_nat n := replicate 512 0)"
    using b(4) by (auto simp: l(4) l'(4) l3(4))
  ultimately show ?thesis using b(1) l3(1,3) l(3) l'(3) by auto
qed


theorem balloc_bfree_witness:
  "\<exists>n s1 s2. balloc 1 fs_state = Inr (n, s1) \<and> bfree 1 n s1 = Inr s2 \<and> content s2 = fs_disk(n := replicate 512 0)"
  using balloc_bfree [OF fs_state_ready(1), of 64] fs_state_free(1) unfolding fs_state_ready(2-4) by auto

end
