(* ===== verification/Fs_Inodes.thy ===== *)
theory Fs_Inodes
  imports Fs_Blocks
begin

text \<open>
  Inodes on the disk: the fields that \<open>iupdate\<close> stores in a block of inodes are the fields that \<open>ilock\<close> loads from it, through the
  cache and the log, and the other inodes of the block keep theirs.
\<close>

section \<open>The fields of a struct dinode\<close>

lemma length_put16 [simp]: "length (put16 d i v) = length d" by (simp add: put16_def)

lemma get16_put16: "i + 2 \<le> length d \<Longrightarrow> get16 (put16 d i v) i = v"
  unfolding get16_def put16_def
  by (rule bit_word_eqI) (auto simp: bit_or_iff bit_push_bit_iff bit_ucast_iff bit_drop_bit_eq)

lemma get_put_other:
  "i + 2 \<le> j \<or> j + 2 \<le> i \<Longrightarrow> get16 (put16 d i v) j = get16 d j"
  "i + 2 \<le> j \<or> j + 4 \<le> i \<Longrightarrow> get32 (put16 d i v) j = get32 d j"
  "i + 4 \<le> j \<or> j + 2 \<le> i \<Longrightarrow> get16 (put32 d i w) j = get16 d j"
  by (auto simp: get16_def get32_def put16_def put32_def)

lemma put_nth_other:
  "k < i \<or> i + 2 \<le> k \<Longrightarrow> put16 d i v ! k = d ! k"
  "k < i \<or> i + 4 \<le> k \<Longrightarrow> put32 d i w ! k = d ! k"
  by (auto simp: put16_def put32_def)

lemmas field_simps = get16_put16 get32_put32 get_put_other get32_put32_other put_nth_other

definition put_words :: "u32 list \<Rightarrow> nat \<Rightarrow> u8 list \<Rightarrow> u8 list" where
  "put_words ws o1 d = fold (\<lambda>k d. put32 d (o1 + 4 * k) (ws ! k)) [0..<length ws] d"

lemma put_words_snoc: "put_words (ws @ [w]) o1 d = put32 (put_words ws o1 d) (o1 + 4 * length ws) w"
proof -
  have "fold (\<lambda>k d. put32 d (o1 + 4 * k) ((ws @ [w]) ! k)) [0..<length ws] d = fold (\<lambda>k d. put32 d (o1 + 4 * k) (ws ! k)) [0..<length ws] d"
    by (rule fold_cong) (simp_all add: nth_append)
  then show ?thesis by (simp add: put_words_def)
qed

lemma put_words:
  "length (put_words ws o1 d) = length d"
  "j + 4 \<le> o1 \<Longrightarrow> get32 (put_words ws o1 d) j = get32 d j" "j + 2 \<le> o1 \<Longrightarrow> get16 (put_words ws o1 d) j = get16 d j"
  "k < o1 \<or> o1 + 4 * length ws \<le> k \<Longrightarrow> put_words ws o1 d ! k = d ! k"
  "i < length ws \<Longrightarrow> o1 + 4 * length ws \<le> length d \<Longrightarrow> get32 (put_words ws o1 d) (o1 + 4 * i) = ws ! i"
proof (induction ws rule: rev_induct)
  case Nil
  { case 1 show ?case by (simp add: put_words_def) }
  { case 2 show ?case by (simp add: put_words_def) }
  { case 3 show ?case by (simp add: put_words_def) }
  { case 4 show ?case by (simp add: put_words_def) }
  { case 5 then show ?case by simp }
next
  case (snoc w ws)
  { case 1 show ?case using snoc(1) by (simp add: put_words_snoc) }
  { case 2 then show ?case using snoc(2) by (simp add: put_words_snoc field_simps) }
  { case 3 then show ?case using snoc(3) by (simp add: put_words_snoc field_simps) }
  { case 4 then show ?case using snoc(4) by (auto simp: put_words_snoc field_simps) }
  { case 5
    then show ?case using snoc(1,5) by (cases "i = length ws") (simp_all add: put_words_snoc field_simps nth_append) }
qed

lemma write_dinode_words:
  assumes "length (addrs ip) = 13"
  shows "write_dinode ip o1 d = put_words (addrs ip) (o1 + 12)
    (put32 (put16 (put16 (put16 (put16 d o1 (itype ip)) (o1 + 2) (imajor ip)) (o1 + 4) (iminor ip)) (o1 + 6) (nlink ip)) (o1 + 8) (isize ip))"
  using assms by (simp add: write_dinode_def put_words_def Let_def)

lemma dinode_roundtrip:
  assumes len: "o1 + 64 \<le> length d" and a: "length (addrs ip) = 13"
  shows "read_dinode (write_dinode ip o1 d) o1 jp = jp\<lparr>itype := itype ip, imajor := imajor ip, iminor := iminor ip,
      nlink := nlink ip, isize := isize ip, addrs := addrs ip\<rparr>"
    "k < o1 \<or> o1 + 64 \<le> k \<Longrightarrow> write_dinode ip o1 d ! k = d ! k"
    "length (write_dinode ip o1 d) = length d"
proof -
  have "map (\<lambda>k. get32 (write_dinode ip o1 d) (o1 + 12 + 4 * k)) [0..<NDIRECT + 1] = addrs ip"
    by (rule nth_equalityI) (use len a in \<open>simp_all add: write_dinode_words [OF a] put_words del: upt_Suc\<close>)
  then show "read_dinode (write_dinode ip o1 d) o1 jp = jp\<lparr>itype := itype ip, imajor := imajor ip, iminor := iminor ip,
      nlink := nlink ip, isize := isize ip, addrs := addrs ip\<rparr>"
    using len unfolding read_dinode_def by (simp add: write_dinode_words [OF a] put_words field_simps del: upt_Suc)
  show "length (write_dinode ip o1 d) = length d" by (simp add: write_dinode_words [OF a] put_words)
  show "write_dinode ip o1 d ! k = d ! k" if "k < o1 \<or> o1 + 64 \<le> k"
    using that a by (auto simp: write_dinode_words [OF a] put_words field_simps)
qed

section \<open>Parts of the state that do not concern the cache\<close>

lemma holds_inodes [simp]:
  fixes s :: "'a fsst_scheme"
  shows "holds (s\<lparr>inodes := x\<rparr>) B = holds s B" "content (s\<lparr>inodes := x\<rparr>) = content s" "slot (s\<lparr>inodes := x\<rparr>) n b = slot s n b"
    "buf_at b (s\<lparr>inodes := x\<rparr>) = buf_at b s"
  by (simp_all add: holds_def cache_ok_def idle_disk_def running_ok_def slot_def buf_at_def mine_def me_pid_def fun_eq_iff content_def split: option.split)

lemma holds_lock:
  assumes "30 \<le> l"
  shows "holds (s\<lparr>sleeplocks := (sleeplocks s)(l := x)\<rparr>) B = holds s B" "content (s\<lparr>sleeplocks := y\<rparr>) = content s"
    "slot (s\<lparr>sleeplocks := y\<rparr>) n b = slot s n b"
  using assms by (auto simp: holds_def cache_ok_def idle_disk_def running_ok_def slot_def buf_at_def mine_def me_pid_def fun_eq_iff content_def split: option.split)

section \<open>Storing and loading an inode\<close>

lemma iupdate_logs:
  fixes s :: "'a fsst_scheme"
  assumes "quiet s" and "\<exists>k. spare s k" and "log_room 1 s" and "idev (inode_at i s) = 1"
    and bn: "bn = IBLOCK (inum (inode_at i s)) (sb s)" "bn < 1000"
  shows "\<exists>s1. iupdate i s = Inr s1 \<and> logs bn (write_dinode (inode_at i s) (dip_off (inum (inode_at i s))) (content s bn)) s s1"
proof -
  obtain b t where r: "bread 1 bn s = Inr (b, t)" "same_rest s t" "bdata (buf_at b t) = content s bn" "\<exists>s3. brelse b t = Inr s3"
    and w: "\<And>f. log_room 1 s \<Longrightarrow> \<exists>s2 s3. log_write b (set_data b f t) = Inr s2 \<and> brelse b s2 = Inr s3 \<and> logs bn (f (content s bn)) s s3"
    by (rule log_block [OF assms(1) bn(2) disjI2 [OF assms(2)]]) blast
  show ?thesis
    using w [OF assms(3), of "write_dinode (inode_at i s) (dip_off (inum (inode_at i s)))"] r(1) assms(4)
    by (auto simp: iupdate_def bn(1) Let_def)
qed

lemma ilock_loads:
  fixes s :: "'a fsst_scheme"
  assumes q: "quiet s" and i: "i < length (inodes s)" "idev (inode_at i s) = 1" "1 \<le> iref (inode_at i s)" "\<not> ivalid (inode_at i s)"
    and bn: "bn = IBLOCK (inum (inode_at i s)) (sb s)" "bn < 1000" and av: "dirty_block s bn"
    and lk: "\<not> slocked (sleeplocks s (inode_lock i))"
    and ip: "ip = read_dinode (content s bn) (dip_off (inum (inode_at i s))) (inode_at i s)" "itype ip \<noteq> 0"
  shows "\<exists>s2. ilock i s = Inr s2 \<and> inode_at i s2 = ip\<lparr>ivalid := True\<rparr>"
proof -
  let ?t = "s\<lparr>sleeplocks := (sleeplocks s)(inode_lock i := \<lparr>slocked = True, slpid = me_pid s\<rparr>)\<rparr>"
  have run: "running_ok s" using q by (simp add: quiet_def cache_ok_def idle_disk_def)
  have l: "lockE (inode_lock i) s = Inr ?t" by (rule lockE_free [OF run lk])
  have il: "30 \<le> inode_lock i" by (simp add: inode_lock_def)
  have ht: "holds ?t {}" using q by (simp add: holds_lock(1) [OF il] quiet_holds)
  have avt: "(\<exists>k. slot ?t bn k) \<or> (\<exists>k. spare ?t k)" using av by (auto simp: holds_lock(3) [OF il] dirty_block_def)
  obtain b u where r: "bread 1 bn ?t = Inr (b, u)" "read_by ?t bn b u" by (rule read_holds [OF ht _ bn(2) avt]) simp_all
  have hu: "holds u {b}" using read_by_holds(1) [OF ht _ r(2)] by simp
  have sl: "slot u bn b" and sr: "same_rest ?t u" using r(2) by (simp_all add: read_by_def)
  have du: "bdata (buf_at b u) = content s bn" using read_by_data [OF r(2)] by (simp add: holds_lock(2) [OF il])
  have iu: "inodes u = inodes s" "sb u = sb s" using sr by (cases u; cases s; simp add: same_rest_def)+
  let ?v = "upd_inode i (\<lambda>p. read_dinode (content s bn) (dip_off (inum p)) p) u"
  have hv: "holds ?v {b}" "slot ?v bn b" using hu sl by (simp_all add: upd_inode_def)
  obtain w where w: "brelse b ?v = Inr w" "same_rest ?v w" by (rule relse_holds [OF hv(1) _ hv(2)]) auto
  have iw: "inodes w = (inodes s)[i := ip]" using w(2) iu ip(1)
    by (cases w; cases u; simp add: same_rest_def upd_inode_def inode_at_def)
  let ?z = "upd_inode i (\<lambda>p. p\<lparr>ivalid := True\<rparr>) w"
  have z: "inode_at i ?z = ip\<lparr>ivalid := True\<rparr>" using i(1) by (simp add: upd_inode_def inode_at_def iw)
  have at: "inode_at i ?t = inode_at i s" "sb ?t = sb s" by (simp_all add: inode_at_def)
  have "ilock i s = Inr ?z"
    using i(2-4) ip(2) l r(1) du w(1) z
    by (simp add: ilock_def at bn(1) [symmetric] Let_def inode_at_def [symmetric])
  with z show ?thesis by blast
qed

text \<open>C9. What \<open>iupdate\<close> stores, \<open>ilock\<close> loads: in a transaction \<open>iupdate\<close> of an inode succeeds, changes only the 64 bytes of that inode in the block of inodes
  and nothing on the disk; when the entry of the cache has been recycled for the same inode in the meantime, \<open>ilock\<close> loads the fields that were stored.
  The inode's sleep lock, which \<open>iupdate\<close> does not look at, is taken to be free, as \<open>ilock\<close> needs it.\<close>

theorem iupdate_ilock:
  fixes s :: "'a fsst_scheme"
  assumes s: "quiet s" "\<exists>k. spare s k" "log_room 1 s"
    and i: "i < length (inodes s)" "idev (inode_at i s) = 1" "itype (inode_at i s) \<noteq> 0" "length (addrs (inode_at i s)) = 13"
    and bn: "bn = IBLOCK (inum (inode_at i s)) (sb s)" "bn < 1000" "length (content s bn) = 512"
    and jp: "idev jp = 1" "inum jp = inum (inode_at i s)" "1 \<le> iref jp" "\<not> ivalid jp"
    and lk: "\<not> slocked (sleeplocks s (inode_lock i))"
  shows "\<exists>s1 s2. iupdate i s = Inr s1 \<and> sectors s1 = sectors s \<and> (\<forall>m. m \<noteq> bn \<longrightarrow> content s1 m = content s m) \<and>
    (\<forall>k. k < dip_off (inum jp) \<or> dip_off (inum jp) + 64 \<le> k \<longrightarrow> content s1 bn ! k = content s bn ! k) \<and>
    ilock i (s1\<lparr>inodes := (inodes s1)[i := jp]\<rparr>) = Inr s2 \<and> inode_at i s2 = (inode_at i s)\<lparr>iref := iref jp, ivalid := True\<rparr>"
proof -
  let ?ip = "inode_at i s" and ?o = "dip_off (inum (inode_at i s))"
  obtain s1 where u: "iupdate i s = Inr s1" "logs bn (write_dinode ?ip ?o (content s bn)) s s1"
    using iupdate_logs [OF s i(2) bn(1,2)] by blast
  note l = logsD [OF u(2)]
  have "unat (inum ?ip mod 8) < 8" by (simp add: unat_mod)
  then have o64: "?o + 64 \<le> length (content s bn)" using bn(3) by (simp add: dip_off_def)
  note d = dinode_roundtrip [OF o64 i(4)]
  have c: "content s1 bn = write_dinode ?ip ?o (content s bn)" by (simp add: l(4))
  have sb: "sb s1 = sb s" "inodes s1 = inodes s" using l(2) by (cases s1; cases s; simp add: fs_rest_def)+
  let ?t = "s1\<lparr>inodes := (inodes s1)[i := jp]\<rparr>"
  have jt: "inode_at i ?t = jp" using i(1) sb(2) by (simp add: inode_at_def)
  have t: "quiet ?t" "dirty_block ?t bn" "content ?t = content s1"
    using l(1) l(10) [of bn] by (simp_all add: quiet_holds dirty_block_def)
  have lk1: "\<not> slocked (sleeplocks ?t (inode_lock i))" using lk l(2) by (simp add: fs_rest_def inode_lock_def)
  have rd: "read_dinode (content ?t bn) (dip_off (inum jp)) jp = ?ip\<lparr>iref := iref jp, ivalid := False\<rparr>"
    unfolding t(3) c jp(2) d(1) using jp i(2) by (cases jp; cases "inode_at i s") simp
  obtain s2 where "ilock i ?t = Inr s2" "inode_at i s2 = (?ip\<lparr>iref := iref jp, ivalid := False\<rparr>)\<lparr>ivalid := True\<rparr>"
    using ilock_loads [OF t(1) _ _ _ _ _ bn(2) t(2) lk1, unfolded jt, OF _ jp(1,3,4) _ rd [symmetric]] i(1,3) sb bn(1) jp(2) by auto
  then show ?thesis
    using u(1) l(3,4) d(2) by (intro exI [of _ s1] exI [of _ s2]) (auto simp: jp(2) c)
qed


text \<open>An example: inode 9, which is in block 33, with an entry that is loaded again.\<close>

definition inode9 :: inode where
  "inode9 = \<lparr>idev = 1, inum = 9, iref = 1, ivalid = True, itype = 2, imajor = 0, iminor = 0, nlink = 1, isize = 700,
     addrs = replicate 13 70\<rparr>"

theorem iupdate_ilock_witness:
  "\<exists>s1 s2. iupdate 0 (fs_state\<lparr>inodes := [inode9]\<rparr>) = Inr s1 \<and>
    ilock 0 (s1\<lparr>inodes := (inodes s1)[0 := inode9\<lparr>ivalid := False, isize := 0, addrs := []\<rparr>]\<rparr>) = Inr s2 \<and> inode_at 0 s2 = inode9"
proof -
  let ?s = "fs_state\<lparr>inodes := [inode9]\<rparr>" and ?jp = "inode9\<lparr>ivalid := False, isize := 0, addrs := []\<rparr>"
  have a: "quiet fs_state" "two_spares fs_state" "log_room 3 fs_state" using fs_state_ready(1) by (simp_all add: fs_ready_def)
  have q: "quiet ?s" using a(1) by (simp add: quiet_holds)
  have sp: "\<exists>k. spare ?s k" using a(2) by (auto simp: two_spares_def spare_def)
  have rm: "log_room 1 ?s" using a(3) by (simp add: log_room_def log_wf_def logged_def)
  have at: "inode_at 0 ?s = inode9" by (simp add: inode_at_def)
  have bn: "33 = IBLOCK (inum inode9) (sb ?s)" by (simp add: IBLOCK_def inode9_def fs_state_def)
  have ct: "length (content ?s 33) = 512" by (simp add: fs_state_ready(2) fs_disk_def)
  have lk: "\<not> slocked (sleeplocks ?s (inode_lock 0))" by (simp add: fs_state_def)
  have f: "idev inode9 = 1" "itype inode9 \<noteq> 0" "length (addrs inode9) = 13" "idev ?jp = 1" "inum ?jp = inum inode9" "1 \<le> iref ?jp" "\<not> ivalid ?jp"
    "inode9\<lparr>iref := iref ?jp, ivalid := True\<rparr> = inode9" by (simp_all add: inode9_def)
  have l: "0 < length (inodes ?s)" "(33 :: u32) < 1000" by simp_all
  obtain s1 s2 where "iupdate 0 ?s = Inr s1" "ilock 0 (s1\<lparr>inodes := (inodes s1)[0 := ?jp]\<rparr>) = Inr s2"
    "inode_at 0 s2 = inode9\<lparr>iref := iref ?jp, ivalid := True\<rparr>"
    using iupdate_ilock [OF q sp rm l(1), unfolded at, OF f(1-3) bn l(2) ct f(4-7) lk] by blast
  then show ?thesis unfolding f(8) by blast
qed

end
