(* ===== verification/Mkfs.thy ===== *)
theory Mkfs
  imports Fs Fs_Inodes
begin

text \<open>
  The program that builds the file system image, \<^verbatim>\<open>src/src/mkfs.c\<close>. The image is a function from sectors to blocks; reads and writes of the image
  succeed, and the files to be copied are given as their names and contents. The host is little-endian, so that \<open>xshort\<close> and \<open>xint\<close> put the bytes where they are already. A failed
  \<open>assert\<close> is an error.
\<close>

section \<open>State\<close>

record mkst =
  image :: "u32 \<Rightarrow> u8 list"
  freeinode :: u32
  freeblock :: u32
  msb :: superblock

definition NINODES :: u32 where [simp]: "NINODES = 200"
definition nbitmap :: u32 where "nbitmap = FSSIZE div (512 * 8) + 1"
definition ninodeblocks :: u32 where "ninodeblocks = NINODES div IPB + 1"
definition nlog :: u32 where "nlog = 30"
definition nmeta :: u32 where "nmeta = 2 + nlog + ninodeblocks + nbitmap"

definition xshort :: "u16 \<Rightarrow> u16" where
  "xshort x = get16 [ucast x, ucast (drop_bit 8 x)] 0"

definition xint :: "u32 \<Rightarrow> u32" where
  "xint x = get32 [ucast x, ucast (drop_bit 8 x), ucast (drop_bit 16 x), ucast (drop_bit 24 x)] 0"

definition no_inode :: inode where
  "no_inode = \<lparr>idev = 0, inum = 0, iref = 0, ivalid = False, itype = 0, imajor = 0, iminor = 0, nlink = 0, isize = 0,
     addrs = replicate 13 0\<rparr>"

section \<open>Sectors and inodes\<close>

definition wsect :: "u32 \<Rightarrow> u8 list \<Rightarrow> mkst \<Rightarrow> mkst" where
  "wsect sec b s = s\<lparr>image := (image s)(sec := b)\<rparr>"

definition rsect :: "u32 \<Rightarrow> mkst \<Rightarrow> u8 list" where
  "rsect sec s = image s sec"

definition winode :: "u32 \<Rightarrow> inode \<Rightarrow> mkst \<Rightarrow> mkst" where
  "winode n ip s = (let bn = IBLOCK n (msb s) in wsect bn (write_dinode ip (dip_off n) (rsect bn s)) s)"

definition rinode :: "u32 \<Rightarrow> mkst \<Rightarrow> inode" where
  "rinode n s = read_dinode (rsect (IBLOCK n (msb s)) s) (dip_off n) no_inode"

definition mk_ialloc :: "u16 \<Rightarrow> mkst \<Rightarrow> u32 \<times> mkst" where
  "mk_ialloc ty s =
    (let n = freeinode s; s = s\<lparr>freeinode := n + 1\<rparr>
     in (n, winode n (no_inode\<lparr>itype := xshort ty, nlink := xshort 1, isize := xint 0\<rparr>) s))"

fun set_bits :: "nat list \<Rightarrow> u8 list \<Rightarrow> u8 list" where
  "set_bits [] d = d"
| "set_bits (i # is) d = set_bits is (d[i div 8 := d ! (i div 8) OR bit_of i])"

definition mk_balloc :: "u32 \<Rightarrow> mkst \<Rightarrow> err + mkst" where
  "mk_balloc used s =
    (if \<not> used < 512 * 8 then Inl (Panic ''assert'')
     else Inr (wsect (sb_bmapstart (msb s)) (set_bits [0..<unat used] (replicate 512 0)) s))"

section \<open>Appending to a file\<close>

text \<open>The block of the file, allocated if there is none, and the new inode.\<close>

definition mk_bmap :: "nat \<Rightarrow> inode \<Rightarrow> mkst \<Rightarrow> u32 \<times> inode \<times> mkst" where
  "mk_bmap fbn din s =
    (if fbn < NDIRECT then
       let (din, s) = (if xint (addrs din ! fbn) = 0
             then (din\<lparr>addrs := (addrs din)[fbn := xint (freeblock s)]\<rparr>, s\<lparr>freeblock := freeblock s + 1\<rparr>) else (din, s))
       in (xint (addrs din ! fbn), din, s)
     else
       let (din, s) = (if xint (addrs din ! NDIRECT) = 0
             then (din\<lparr>addrs := (addrs din)[NDIRECT := xint (freeblock s)]\<rparr>, s\<lparr>freeblock := freeblock s + 1\<rparr>) else (din, s));
           ib = xint (addrs din ! NDIRECT); d = rsect ib s; o1 = 4 * (fbn - NDIRECT);
           (d, s) = (if get32 d o1 = 0
             then let d = put32 d o1 (xint (freeblock s)) in (d, wsect ib d (s\<lparr>freeblock := freeblock s + 1\<rparr>)) else (d, s))
       in (xint (get32 d o1), din, s))"

function iappend_loop :: "u8 list \<Rightarrow> nat \<Rightarrow> inode \<Rightarrow> mkst \<Rightarrow> err + (nat \<times> inode \<times> mkst)" where
  "iappend_loop p off din s =
    (if p = [] then Inr (off, din, s)
     else
       let fbn = off div 512 in
       if \<not> fbn < MAXFILE then Inl (Panic ''assert'')
       else
         let (x, din, s) = mk_bmap fbn din s;
             n1 = min (length p) ((fbn + 1) * 512 - off);
             b = splice (off - fbn * 512) (take n1 p) (rsect x s)
         in iappend_loop (drop n1 p) (off + n1) din (wsect x b s))"
  by pat_completeness auto
termination
proof (relation "measure (\<lambda>(p, off, din, s). length p)", goal_cases)
  case (2 p off din s fbn xa x y din' s' n1 b)
  have "off < (off div 512 + 1) * 512"
    using div_mult_mod_eq [of off 512] mod_less_divisor [of 512 off] by simp
  then have "0 < n1" using 2 by (cases p) simp_all
  then show ?case using 2(1) by (cases p) simp_all
qed simp

declare iappend_loop.simps [simp del]

definition iappend :: "u32 \<Rightarrow> u8 list \<Rightarrow> mkst \<Rightarrow> err + mkst" where
  "iappend n p s =
    (let din = rinode n s in
     bindE (iappend_loop p (unat (xint (isize din))) din s) (\<lambda>(off, din, s).
     Inr (winode n (din\<lparr>isize := xint (of_nat off)\<rparr>) s)))"

text \<open>A file in blocks of \<open>BSIZE\<close> bytes, as it is read.\<close>

fun iappend_reads :: "u32 \<Rightarrow> u8 list list \<Rightarrow> mkst \<Rightarrow> err + mkst" where
  "iappend_reads n [] s = Inr s"
| "iappend_reads n (b # bs) s = bindE (iappend n b s) (iappend_reads n bs)"

function chunks :: "u8 list \<Rightarrow> u8 list list" where
  "chunks d = (if d = [] then [] else take 512 d # chunks (drop 512 d))"
  by pat_completeness auto
termination
  by (relation "measure length") auto

declare chunks.simps [simp del]

section \<open>The program\<close>

definition mk_name :: "u8 list \<Rightarrow> u8 list" where
  "mk_name name = (case name of [] \<Rightarrow> [] | c # cs \<Rightarrow> if c = 95 then cs else name)"

fun mk_files :: "u32 \<Rightarrow> (u8 list \<times> u8 list) list \<Rightarrow> mkst \<Rightarrow> err + mkst" where
  "mk_files rootino [] s = Inr s"
| "mk_files rootino ((name, d) # fs) s =
    (if 47 \<in> set name then Inl (Panic ''assert'')
     else
       (case mk_ialloc T_FILE s of (n, s) \<Rightarrow>
        bindE (iappend rootino (mk_dirent (mk_name name) (ucast (xshort (ucast n)))) s) (\<lambda>s.
        bindE (iappend_reads n (chunks d) s) (mk_files rootino fs))))"

definition mk_super :: superblock where
  "mk_super = \<lparr>sb_size = xint FSSIZE, sb_nblocks = xint (FSSIZE - nmeta), sb_ninodes = xint NINODES, sb_nlog = xint nlog,
     sb_logstart = xint 2, sb_inodestart = xint (2 + nlog), sb_bmapstart = xint (2 + nlog + ninodeblocks)\<rparr>"

definition super_bytes :: "superblock \<Rightarrow> u8 list" where
  "super_bytes b = concat (map bytes32 [sb_size b, sb_nblocks b, sb_ninodes b, sb_nlog b, sb_logstart b, sb_inodestart b, sb_bmapstart b])"

definition mkfs_main :: "(u8 list \<times> u8 list) list \<Rightarrow> err + mkst" where
  "mkfs_main files =
    (let s = \<lparr>image = \<lambda>_. replicate 512 0, freeinode = 1, freeblock = nmeta, msb = mk_super\<rparr>;
         s = wsect 1 (splice 0 (super_bytes (msb s)) (replicate 512 0)) s
     in case mk_ialloc T_DIR s of (rootino, s) \<Rightarrow>
     if rootino \<noteq> ROOTINO then Inl (Panic ''assert'')
     else
       bindE (iappend rootino (mk_dirent [46] (ucast (xshort (ucast rootino)))) s) (\<lambda>s.
       bindE (iappend rootino (mk_dirent [46, 46] (ucast (xshort (ucast rootino)))) s) (\<lambda>s.
       bindE (mk_files rootino files s) (\<lambda>s.
       let din = rinode rootino s; off = (xint (isize din) div 512 + 1) * 512;
           s = winode rootino (din\<lparr>isize := xint off\<rparr>) s
       in mk_balloc (freeblock s) s))))"

section \<open>Properties of the image\<close>

lemma xshort_id [simp]: "xshort x = x"
  unfolding xshort_def get16_def by (rule bit_word_eqI) (auto simp: bit_or_iff bit_push_bit_iff bit_ucast_iff bit_drop_bit_eq)

lemma xint_id [simp]: "xint x = x"
  using get32_put32 [of 0 "[0, 0, 0, 0]" x] by (simp add: xint_def put32_def)

lemma set_bits_free:
  assumes "\<forall>i\<in>set is. i < 8 * length d" and "k < 8 * length d"
  shows "block_free (set_bits is d) k \<longleftrightarrow> block_free d k \<and> k \<notin> set is"
  using assms
proof (induction "is" arbitrary: d)
  case (Cons i "is")
  have "block_free (set_bits is (mark d i)) k \<longleftrightarrow> block_free (mark d i) k \<and> k \<notin> set is"
    by (rule Cons.IH) (use Cons.prems in simp_all)
  then show ?case using block_free_mark [of i d k] Cons.prems by auto
qed simp

text \<open>An inode is read as it was written.\<close>

lemma rinode_winode:
  assumes "length (image s (IBLOCK n (msb s))) = 512" and "length (addrs ip) = 13"
  shows "rinode n (winode n ip s) = no_inode\<lparr>itype := itype ip, imajor := imajor ip, iminor := iminor ip,
    nlink := nlink ip, isize := isize ip, addrs := addrs ip\<rparr>"
proof -
  have "unat (n mod 8) < 8" by (simp add: unat_mod)
  then have "dip_off n + 64 \<le> length (image s (IBLOCK n (msb s)))" using assms(1) by (simp add: dip_off_def)
  from dinode_roundtrip(1) [OF this assms(2)] show ?thesis
    by (simp add: rinode_def winode_def wsect_def rsect_def Let_def)
qed

text \<open>The bitmap that \<open>mkfs\<close> writes has exactly the blocks below \<open>freeblock\<close> in use.\<close>

lemma mk_balloc_bitmap:
  assumes "mk_balloc used s = Inr s'" and "k < 4096"
  shows "block_free (image s' (sb_bmapstart (msb s))) k \<longleftrightarrow> unat used \<le> k"
proof -
  have u: "unat used < 4096" and s': "s' = wsect (sb_bmapstart (msb s)) (set_bits [0..<unat used] (replicate 512 0)) s"
    using assms(1) by (auto simp: mk_balloc_def word_less_nat_alt split: if_splits)
  have "block_free (set_bits [0..<unat used] (replicate 512 0)) k \<longleftrightarrow> block_free (replicate 512 0) k \<and> k \<notin> set [0..<unat used]"
    by (rule set_bits_free) (use u assms(2) in auto)
  moreover have "block_free (replicate 512 0) k" using assms(2) by (simp add: block_free_def less_mult_imp_div_less)
  ultimately show ?thesis by (auto simp: s' wsect_def)
qed

lemma mk_super_fields: "sb_size mk_super = 1000" "sb_inodestart mk_super = 32" "sb_bmapstart mk_super = 58" "nmeta = 59" "sb_nblocks mk_super = 941"
  by (simp_all add: mk_super_def nmeta_def nlog_def ninodeblocks_def nbitmap_def)

end
