(* ===== verification/Memide.thy ===== *)
theory Memide
  imports Bio
begin

text \<open>
  The disk kept in memory, \<^verbatim>\<open>src/src/memide.c\<close>, which the kernel can be linked with in place of \<^verbatim>\<open>src/src/ide.c\<close>, and
  what the buffer cache relies on in either. The image is the list of its bytes, \<open>disksize\<close> its number of blocks.
\<close>

section \<open>The driver\<close>

record memst = diskst +
  memdisk :: "u8 list"
  disksize :: u32

definition memide_init :: "u8 list \<Rightarrow> 'a memst_scheme \<Rightarrow> 'a memst_scheme" where
  "memide_init img s = s\<lparr>memdisk := img, disksize := of_nat (length img div BSIZE)\<rparr>"

definition memide_block :: "u8 list \<Rightarrow> u32 \<Rightarrow> u8 list" where
  "memide_block img n = take BSIZE (drop (unat n * BSIZE) img)"

definition memide_store :: "u8 list \<Rightarrow> u32 \<Rightarrow> u8 list \<Rightarrow> u8 list" where
  "memide_store img n d = take (unat n * BSIZE) img @ take BSIZE d @ drop (unat n * BSIZE + BSIZE) img"

definition memide_iderw :: "nat \<Rightarrow> 'a memst_scheme \<Rightarrow> err + 'a memst_scheme" where
  "memide_iderw b s = bindE (holdingsleep b s) (\<lambda>h.
     if \<not> h then Inl (Panic ''iderw: buf not locked'')
     else if bvalid (buf_at b s) \<and> \<not> bdirty (buf_at b s) then Inl (Panic ''iderw: nothing to do'')
     else if bdev (buf_at b s) \<noteq> 1 then Inl (Panic ''iderw: request not for disk 1'')
     else if blockno (buf_at b s) \<ge> disksize s then Inl (Panic ''iderw: block out of range'')
     else
       let n = blockno (buf_at b s);
           s = (if bdirty (buf_at b s)
                then (upd_buf b (\<lambda>p. p\<lparr>bdirty := False\<rparr>) s)\<lparr>memdisk := memide_store (memdisk s) n (bdata (buf_at b s))\<rparr>
                else upd_buf b (\<lambda>p. p\<lparr>bdata := memide_block (memdisk s) n\<rparr>) s)
       in Inr (upd_buf b (\<lambda>p. p\<lparr>bvalid := True\<rparr>) s))"

section \<open>What a driver promises\<close>

text \<open>\<open>ready b s\<close>: a request for buffer \<open>b\<close> may be made.\<close>

locale block_driver =
  fixes rw :: "nat \<Rightarrow> 's \<Rightarrow> err + 's"
    and bufof :: "nat \<Rightarrow> 's \<Rightarrow> buf"
    and blk :: "'s \<Rightarrow> u32 \<Rightarrow> u8 list"
    and ready :: "nat \<Rightarrow> 's \<Rightarrow> bool"
  assumes rd: "ready b s \<Longrightarrow> \<not> bvalid (bufof b s) \<Longrightarrow> \<not> bdirty (bufof b s) \<Longrightarrow>
      \<exists>s'. rw b s = Inr s' \<and> blk s' = blk s \<and> bufof b s' = (bufof b s)\<lparr>bvalid := True, bdata := blk s (blockno (bufof b s))\<rparr>"
    and wr: "ready b s \<Longrightarrow> bdirty (bufof b s) \<Longrightarrow> length (bdata (bufof b s)) = BSIZE \<Longrightarrow>
      \<exists>s'. rw b s = Inr s' \<and> blk s' = (blk s)(blockno (bufof b s) := bdata (bufof b s)) \<and>
        bufof b s' = (bufof b s)\<lparr>bvalid := True, bdirty := False\<rparr>"
    and others: "ready b s \<Longrightarrow> rw b s = Inr s' \<Longrightarrow> ready c s \<Longrightarrow> c \<noteq> b \<Longrightarrow> ready c s' \<and> bufof c s' = bufof c s"
begin

lemma write_read:
  assumes b: "ready b s" "bdirty (bufof b s)" "length (bdata (bufof b s)) = BSIZE"
    and c: "ready c s" "c \<noteq> b" "\<not> bvalid (bufof c s)" "\<not> bdirty (bufof c s)"
  shows "\<exists>s1 s2. rw b s = Inr s1 \<and> rw c s1 = Inr s2 \<and>
    bdata (bufof c s2) = (if blockno (bufof c s) = blockno (bufof b s) then bdata (bufof b s) else blk s (blockno (bufof c s)))"
proof -
  obtain s1 where s1: "rw b s = Inr s1" "blk s1 = (blk s)(blockno (bufof b s) := bdata (bufof b s))" using wr [OF b] by blast
  then have c1: "ready c s1" "bufof c s1 = bufof c s" using others [OF b(1) s1(1) c(1,2)] by simp_all
  then obtain s2 where "rw c s1 = Inr s2" "bufof c s2 = (bufof c s1)\<lparr>bvalid := True, bdata := blk s1 (blockno (bufof c s1))\<rparr>"
    using rd [OF c1(1)] c(3,4) by auto
  then show ?thesis using s1 c1 by auto
qed

end

section \<open>The two drivers\<close>

definition ide_ready :: "nat \<Rightarrow> 'a diskst_scheme \<Rightarrow> bool" where
  "ide_ready b s \<longleftrightarrow> idle_disk s \<and> b < 30 \<and> mine b s \<and> bdev (buf_at b s) = 1 \<and> blockno (buf_at b s) < 1000"

definition memide_ready :: "nat \<Rightarrow> 'a memst_scheme \<Rightarrow> bool" where
  "memide_ready b s \<longleftrightarrow> ide_ready b s \<and> disksize s = 1000 \<and> length (memdisk s) = 1000 * BSIZE"

lemma buf_at_wakeup [simp]: "buf_at b (wakeup c s) = buf_at b s" by (simp add: buf_at_def)

lemma idle_len: "idle_disk s \<Longrightarrow> b < 30 \<Longrightarrow> b < length (bufs s)" by (simp add: idle_disk_def)

lemma mine_kernel:
  assumes "sleeplocks s' = sleeplocks s" "cpu_proc s' = cpu_proc s" "map pid (ptable s') = map pid (ptable s)"
  shows "mine c s' = mine c s"
  using assms by (simp add: mine_def me_pid_def)

lemma running_kernel:
  assumes "cpu_proc s' = cpu_proc s" "length (ptable s') = length (ptable s)"
  shows "running_ok s' = running_ok s"
  using assms by (simp add: running_ok_def)

lemma ide_ready_step:
  assumes "ide_ready b s" and "iderw b s = Inr s'" and c: "ide_ready c s" "c \<noteq> b"
  shows "ide_ready c s' \<and> buf_at c s' = buf_at c s"
proof -
  have b: "idle_disk s" "b < 30" "mine b s" "bdev (buf_at b s) = 1" "blockno (buf_at b s) < 1000" "b < length (bufs s)"
    using assms(1) idle_len [of s b] by (simp_all add: ide_ready_def)
  have "\<exists>t. s' = wakeup (ChanBuf b) t \<and> length (bufs t) = length (bufs s) \<and> (\<forall>i. i \<noteq> b \<longrightarrow> bufs t ! i = bufs s ! i) \<and> idequeue t = [] \<and> ide_err t = ide_err s \<and> havedisk1 t = havedisk1 s \<and>
      sleeplocks t = sleeplocks s \<and> cpu_proc t = cpu_proc s \<and> ptable t = ptable s"
  proof (cases "bdirty (buf_at b s)")
    case True
    show ?thesis using assms(2) unfolding iderw_write [OF b(1-3) True b(4,5)]
      by - (drule sum.inject(2) [THEN iffD1], rule exI, rule conjI, erule sym, simp add: upd_buf_def)
  next
    case False
    have "\<not> bvalid (buf_at b s)"
      using assms(2) False b(1,3) holdingsleep_mine [of s b] by (auto simp: iderw_def idle_disk_def)
    show ?thesis using assms(2) unfolding iderw_read [OF b(1-3) \<open>\<not> bvalid (buf_at b s)\<close> False b(4,5)]
      by - (drule sum.inject(2) [THEN iffD1], rule exI, rule conjI, erule sym, simp add: upd_buf_def)
  qed
  then obtain t where t: "s' = wakeup (ChanBuf b) t" "length (bufs t) = length (bufs s)" "\<forall>i. i \<noteq> b \<longrightarrow> bufs t ! i = bufs s ! i" "idequeue t = []" "ide_err t = ide_err s"
      "havedisk1 t = havedisk1 s" "sleeplocks t = sleeplocks s" "cpu_proc t = cpu_proc s" "ptable t = ptable s" by blast
  have f: "buf_at c s' = buf_at c s" using t(1,3) c(2) by (simp add: buf_at_def)
  have "running_ok s' = running_ok s" by (rule running_kernel) (simp_all add: t)
  moreover have "mine c s' = mine c s" by (rule mine_kernel) (simp_all add: t)
  ultimately have "ide_ready c s'" using c(1) f t b(1) by (simp add: ide_ready_def idle_disk_def)
  then show ?thesis using f by simp
qed

interpretation ide: block_driver iderw buf_at "\<lambda>s. sectors s 1" ide_ready
proof
  fix b c :: nat and s s' :: "'a diskst_scheme"
  assume r: "ide_ready b s"
  then have b: "idle_disk s" "b < 30" "mine b s" "bdev (buf_at b s) = 1" "blockno (buf_at b s) < 1000" "b < length (bufs s)"
    using idle_len [of s b] by (simp_all add: ide_ready_def)
  show "\<exists>s'. iderw b s = Inr s' \<and> sectors s' 1 = sectors s 1 \<and>
      buf_at b s' = (buf_at b s)\<lparr>bvalid := True, bdata := sectors s 1 (blockno (buf_at b s))\<rparr>"
    if v: "\<not> bvalid (buf_at b s)" "\<not> bdirty (buf_at b s)"
    unfolding iderw_read [OF b(1-3) v b(4,5)] using b(6) v(2) by (simp add: buf_at_def upd_buf_def)
  show "\<exists>s'. iderw b s = Inr s' \<and> sectors s' 1 = (sectors s 1)(blockno (buf_at b s) := bdata (buf_at b s)) \<and>
      buf_at b s' = (buf_at b s)\<lparr>bvalid := True, bdirty := False\<rparr>"
    if v: "bdirty (buf_at b s)"
    unfolding iderw_write [OF b(1-3) v b(4,5)] using b(6) by (simp add: buf_at_def upd_buf_def)
  show "ide_ready c s' \<and> buf_at c s' = buf_at c s" if "iderw b s = Inr s'" "ide_ready c s" "c \<noteq> b"
    using ide_ready_step [OF r] that by blast
qed

lemma memide_block_store:
  assumes "n < 1000" and "length img = 1000 * BSIZE" and "length d = BSIZE"
  shows "memide_block (memide_store img n d) m = (if m = n then d else memide_block img m)"
proof -
  define k where "k = unat m * 512"
  define l where "l = unat n * 512"
  have "unat n < 1000" using assms(1) by (simp add: word_less_nat_alt)
  then have l: "l + 512 \<le> length img" using assms(2) by (simp add: l_def)
  have st: "memide_store img n d = take l img @ d @ drop (l + 512) img" using assms(3) by (simp add: memide_store_def l_def)
  have bl: "memide_block x m = take 512 (drop k x)" for x by (simp add: memide_block_def k_def)
  consider "m = n" | "k + 512 \<le> l" "m \<noteq> n" | "l + 512 \<le> k" "m \<noteq> n"
  proof -
    have "m = n \<or> unat m + 1 \<le> unat n \<or> unat n + 1 \<le> unat m" by (metis Suc_eq_plus1 not_less_eq_eq word_unat_eq_iff le_antisym)
    then show thesis using that unfolding k_def l_def by (auto simp: algebra_simps) linarith+
  qed
  then show ?thesis
  proof cases
    case 1
    then have "k = l" by (simp add: k_def l_def)
    then show ?thesis using 1 l assms(3) unfolding st bl by simp
  next
    case 2
    then have "length (take l img) = l" "k - l = 0" "512 - (l - k) = 0" "min 512 (l - k) = 512" using l by simp_all
    then show ?thesis using 2 unfolding st bl by (simp add: drop_take)
  next
    case 3
    then have "k - l - 512 + (l + 512) = k" by simp
    then show ?thesis using 3 l assms(3) unfolding st bl by (simp add: add.commute)
  qed
qed

lemma memide_read:
  assumes "memide_ready b s" and "\<not> bvalid (buf_at b s)" and "\<not> bdirty (buf_at b s)"
  shows "memide_iderw b s = Inr (upd_buf b (\<lambda>p. p\<lparr>bdata := memide_block (memdisk s) (blockno p), bvalid := True\<rparr>) s)"
proof -
  have b: "holdingsleep b s = Inr True" "b < length (bufs s)" "bdev (buf_at b s) = 1" "\<not> disksize s \<le> blockno (buf_at b s)"
    using assms(1) idle_len [of s b] holdingsleep_mine [of s b] by (auto simp: memide_ready_def ide_ready_def idle_disk_def)
  then show ?thesis using assms(2,3) by (simp add: memide_iderw_def Let_def) (simp add: upd_buf_def buf_at_def)
qed

lemma memide_write:
  assumes "memide_ready b s" and "bdirty (buf_at b s)"
  shows "memide_iderw b s = Inr (upd_buf b (\<lambda>p. p\<lparr>bdirty := False, bvalid := True\<rparr>)
    (s\<lparr>memdisk := memide_store (memdisk s) (blockno (buf_at b s)) (bdata (buf_at b s))\<rparr>))"
proof -
  have b: "holdingsleep b s = Inr True" "b < length (bufs s)" "bdev (buf_at b s) = 1" "\<not> disksize s \<le> blockno (buf_at b s)"
    using assms(1) idle_len [of s b] holdingsleep_mine [of s b] by (auto simp: memide_ready_def ide_ready_def idle_disk_def)
  then show ?thesis using assms(2) by (simp add: memide_iderw_def Let_def) (simp add: upd_buf_def buf_at_def)
qed

lemma length_memide_store: "n < 1000 \<Longrightarrow> length img = 1000 * BSIZE \<Longrightarrow> length d = BSIZE \<Longrightarrow> length (memide_store img n d) = 1000 * BSIZE"
  by (simp add: memide_store_def word_less_nat_alt)

lemma memide_ready_upd:
  assumes "memide_ready c s" and "c \<noteq> b" and "length img = 1000 * BSIZE"
  shows "memide_ready c (upd_buf b f (s\<lparr>memdisk := img\<rparr>)) \<and> buf_at c (upd_buf b f (s\<lparr>memdisk := img\<rparr>)) = buf_at c s"
  using assms by (simp add: memide_ready_def ide_ready_def idle_disk_def running_ok_def mine_def me_pid_def upd_buf_def buf_at_def)

lemma memide_upd_id: "s\<lparr>memdisk := memdisk s\<rparr> = s" by simp

lemma buf_upd_swap: "p\<lparr>bdirty := x, bvalid := y\<rparr> = p\<lparr>bvalid := y, bdirty := x\<rparr>" "p\<lparr>bdata := z, bvalid := y\<rparr> = p\<lparr>bvalid := y, bdata := z\<rparr>"
  "\<not> bdirty p \<Longrightarrow> p\<lparr>bdata := z, bvalid := y, bdirty := False\<rparr> = p\<lparr>bdata := z, bvalid := y\<rparr>"
  for p :: buf
  by simp_all

definition memide_wf :: "nat \<Rightarrow> 'a memst_scheme \<Rightarrow> bool" where
  "memide_wf b s \<longleftrightarrow> memide_ready b s \<and> length (bdata (buf_at b s)) = BSIZE"

interpretation memide: block_driver memide_iderw buf_at "\<lambda>s. memide_block (memdisk s)" memide_wf
proof
  fix b c :: nat and s s' :: "'a memst_scheme"
  assume w: "memide_wf b s"
  then have r: "memide_ready b s" and d: "length (bdata (buf_at b s)) = BSIZE" by (simp_all add: memide_wf_def)
  then have b: "b < length (bufs s)" "blockno (buf_at b s) < 1000" "length (memdisk s) = 1000 * BSIZE"
    using idle_len [of s b] by (simp_all add: memide_ready_def ide_ready_def)
  show "\<exists>s'. memide_iderw b s = Inr s' \<and> memide_block (memdisk s') = memide_block (memdisk s) \<and>
      buf_at b s' = (buf_at b s)\<lparr>bvalid := True, bdata := memide_block (memdisk s) (blockno (buf_at b s))\<rparr>"
    if v: "\<not> bvalid (buf_at b s)" "\<not> bdirty (buf_at b s)"
    unfolding memide_read [OF r v] using b(1) by (simp add: buf_at_def upd_buf_def)
  show "\<exists>s'. memide_iderw b s = Inr s' \<and> memide_block (memdisk s') = (memide_block (memdisk s))(blockno (buf_at b s) := bdata (buf_at b s)) \<and>
      buf_at b s' = (buf_at b s)\<lparr>bvalid := True, bdirty := False\<rparr>"
    if v: "bdirty (buf_at b s)"
    unfolding memide_write [OF r v] using b(1) memide_block_store [OF b(2,3) d]
    by (simp add: buf_at_def upd_buf_def fun_eq_iff)
  show "memide_wf c s' \<and> buf_at c s' = buf_at c s" if s': "memide_iderw b s = Inr s'" and c: "memide_wf c s" "c \<noteq> b"
  proof (cases "bdirty (buf_at b s)")
    case True
    show ?thesis
      using s' memide_ready_upd [OF _ c(2) length_memide_store [OF b(2,3) d]] c(1) unfolding memide_write [OF r True]
      by (auto simp: memide_wf_def)
  next
    case False
    then have v: "\<not> bvalid (buf_at b s)"
      using s' r holdingsleep_mine [of s b] by (auto simp: memide_iderw_def memide_ready_def ide_ready_def idle_disk_def)
    show ?thesis
      using s' memide_ready_upd [where s = s, unfolded memide_upd_id, OF _ c(2), of "memdisk s"] b(3) c(1) unfolding memide_read [OF r v False]
      by (auto simp: memide_wf_def)
  qed
qed

section \<open>The drivers agree\<close>

text \<open>C23. The memory disk is equivalent to the IDE disk: on states in which the image has the same blocks as the disk, \<open>iderw\<close> of either file succeeds for
  a locked buffer that has work to do, gives the same buffers, and leaves the image with the same blocks as the disk.\<close>

theorem memide_equivalent:
  assumes w: "memide_wf b s" and v: "bdirty (buf_at b s) \<or> \<not> bvalid (buf_at b s)"
    and same: "\<forall>n. memide_block (memdisk s) n = sectors s 1 n"
  shows "\<exists>s1 s2. iderw b s = Inr s1 \<and> memide_iderw b s = Inr s2 \<and> bufs s2 = bufs s1 \<and>
    (\<forall>n. memide_block (memdisk s2) n = sectors s1 1 n)"
proof -
  have r: "memide_ready b s" and d: "length (bdata (buf_at b s)) = BSIZE" using w by (simp_all add: memide_wf_def)
  have b: "idle_disk s" "b < 30" "mine b s" "bdev (buf_at b s) = 1" "blockno (buf_at b s) < 1000" "length (memdisk s) = 1000 * BSIZE" "b < length (bufs s)"
    using r idle_len [of s b] by (simp_all add: memide_ready_def ide_ready_def)
  show ?thesis
  proof (cases "bdirty (buf_at b s)")
    case True
    show ?thesis unfolding iderw_write [OF b(1-3) True b(4,5)] memide_write [OF r True]
      using same memide_block_store [OF b(5,6) d] b(7) by (simp add: upd_buf_def buf_at_def buf_upd_swap)
  next
    case False
    then have n: "\<not> bvalid (buf_at b s)" using v by simp
    show ?thesis unfolding iderw_read [OF b(1-3) n False b(4,5)] memide_read [OF r n False]
      using same False by (simp add: upd_buf_def buf_at_def buf_upd_swap(3))
  qed
qed

definition memide_state :: memst where
  "memide_state = \<lparr>mem = \<lambda>_. 0, freelist = 0, use_lock = True, cr3 = 0, kend = 0, kdata = 0,
     ptable = [pproc RUNNING None False],
     cpu_proc = Some 0, nextpid = 1, initproc = None, ticks = 0, gdt = [], ts_ss0 = 0,
     ts_esp0 = 0, ts_iomb = 0, cpu_ts = 0, kpgdir = 0, ktrapret = 0, kforkret = 0,
     sleeplocks = \<lambda>_. \<lparr>slocked = True, slpid = 4\<rparr>,
     pipes = \<lambda>_. \<lparr>pdata = replicate 512 0, nread = 0, nwrite = 0, readopen = True, writeopen = True\<rparr>,
     bufs = \<lparr>bvalid = True, bdirty = True, bdev = 1, blockno = 7, refcnt = 1, bdata = replicate 512 1\<rparr> #
       replicate 29 \<lparr>bvalid = False, bdirty = False, bdev = 1, blockno = 7, refcnt = 1, bdata = replicate 512 0\<rparr>,
     blru = [0..<30], idequeue = [], havedisk1 = True, sectors = \<lambda>_. memide_block (replicate 512000 0), ide_sel = (0, 0), ide_err = False, dtrace = [],
     memdisk = replicate 512000 0, disksize = 1000\<rparr>"

lemma memide_state_wf: "memide_wf 0 memide_state" "bdirty (buf_at 0 memide_state)"
  "\<forall>n. memide_block (memdisk memide_state) n = sectors memide_state 1 n"
  by (simp_all add: memide_state_def memide_wf_def memide_ready_def ide_ready_def idle_disk_def running_ok_def mine_def me_pid_def pproc_def buf_at_def)

theorem memide_equivalent_witness:
  "\<exists>s1 s2. iderw 0 memide_state = Inr s1 \<and> memide_iderw 0 memide_state = Inr s2 \<and> bufs s2 = bufs s1 \<and>
    (\<forall>n. memide_block (memdisk s2) n = sectors s1 1 n)"
  by (rule memide_equivalent [OF memide_state_wf(1) disjI1 [OF memide_state_wf(2)] memide_state_wf(3)])

text \<open>C24. What the driver wrote it reads back: after \<open>iderw\<close> of a dirty buffer, \<open>iderw\<close> of another, invalid buffer for the same block gets the data of the
  first, and one for another block gets the content that block had.\<close>

theorem iderw_write_read:
  assumes "ide_ready b s" "bdirty (buf_at b s)" "length (bdata (buf_at b s)) = BSIZE"
    and "ide_ready c s" "c \<noteq> b" "\<not> bvalid (buf_at c s)" "\<not> bdirty (buf_at c s)"
  shows "\<exists>s1 s2. iderw b s = Inr s1 \<and> iderw c s1 = Inr s2 \<and>
    bdata (buf_at c s2) = (if blockno (buf_at c s) = blockno (buf_at b s) then bdata (buf_at b s) else sectors s 1 (blockno (buf_at c s)))"
  using assms by (rule ide.write_read)

theorem iderw_write_read_witness:
  "\<exists>s1 s2. iderw 0 memide_state = Inr s1 \<and> iderw 1 s1 = Inr s2 \<and> bdata (buf_at 1 s2) = replicate 512 1"
proof -
  have "ide_ready 0 memide_state" "bdirty (buf_at 0 memide_state)" "length (bdata (buf_at 0 memide_state)) = BSIZE"
    "ide_ready 1 memide_state" "\<not> bvalid (buf_at 1 memide_state)" "\<not> bdirty (buf_at 1 memide_state)"
    "blockno (buf_at 1 memide_state) = blockno (buf_at 0 memide_state)" "bdata (buf_at 0 memide_state) = replicate 512 1"
    by (simp_all add: memide_state_def ide_ready_def idle_disk_def running_ok_def mine_def me_pid_def pproc_def buf_at_def)
  then show ?thesis using iderw_write_read [of 0 memide_state 1] by simp
qed

end
