(* ===== verification/Grep.thy ===== *)
theory Grep
  imports Prelude
begin

text \<open>
  The user program \<^verbatim>\<open>src/src/grep.c\<close>: the matcher for patterns with \<open>^\<close>, \<open>.\<close>, \<open>*\<close> and \<open>$\<close>, and the loop that cuts the
  input into lines. A C string is the list of its bytes before the terminating zero. The calls to
  \<open>read\<close> get their data from a list of chunks: a call takes at most what it asks for of the first chunk.
\<close>

section \<open>The program\<close>

fun matchhere :: "u8 list \<Rightarrow> u8 list \<Rightarrow> bool" and matchstar :: "u8 \<Rightarrow> u8 list \<Rightarrow> u8 list \<Rightarrow> bool" where
  "matchhere re tx =
    (case re of [] \<Rightarrow> True
     | r # rs \<Rightarrow>
       (case rs of
          s # rs' \<Rightarrow>
            if s = 42 then matchstar r rs' tx
            else (case tx of [] \<Rightarrow> False | t # ts \<Rightarrow> if r = 46 \<or> r = t then matchhere rs ts else False)
        | [] \<Rightarrow>
            if r = 36 then tx = []
            else (case tx of [] \<Rightarrow> False | t # ts \<Rightarrow> if r = 46 \<or> r = t then matchhere rs ts else False)))"
| "matchstar c re tx =
    (if matchhere re tx then True
     else (case tx of [] \<Rightarrow> False | t # ts \<Rightarrow> if t = c \<or> c = 46 then matchstar c re ts else False))"

fun match_any :: "u8 list \<Rightarrow> u8 list \<Rightarrow> bool" where
  "match_any re tx =
    (if matchhere re tx then True else (case tx of [] \<Rightarrow> False | t # ts \<Rightarrow> match_any re ts))"

definition match :: "u8 list \<Rightarrow> u8 list \<Rightarrow> bool" where
  "match re tx =
    (case re of r # rs \<Rightarrow> if r = 94 then matchhere rs tx else match_any re tx
     | [] \<Rightarrow> match_any re tx)"

text \<open>The inner loop, from \<open>p\<close> on; \<open>strchr\<close> stops at a zero byte. The result is what is written and the bytes from the last \<open>p\<close> on.\<close>

function grep_lines :: "u8 list \<Rightarrow> u8 list \<Rightarrow> u8 list \<times> u8 list" where
  "grep_lines re p =
    (case dropWhile (\<lambda>c. c \<noteq> 10 \<and> c \<noteq> 0) p of
       q # rest \<Rightarrow>
         if q = 10 then
           let line = takeWhile (\<lambda>c. c \<noteq> 10 \<and> c \<noteq> 0) p;
               (out, p') = grep_lines re rest
           in ((if match re line then line @ [10] else []) @ out, p')
         else ([], p)
     | [] \<Rightarrow> ([], p))"
  by pat_completeness auto
termination
proof (relation "measure (\<lambda>(re, p). length p)", simp)
  fix re p :: "u8 list" and q rest
  assume d: "dropWhile (\<lambda>c. c \<noteq> 10 \<and> c \<noteq> 0) p = q # rest"
  have "length (q # rest) \<le> length p" unfolding d [symmetric] by (rule length_dropWhile_le)
  then show "((re, rest), (re, p)) \<in> measure (\<lambda>(re, p). length p)" by simp
qed

text \<open>\<open>read\<close> with room for \<open>n\<close> bytes.\<close>

fun read_chunk :: "nat \<Rightarrow> u8 list list \<Rightarrow> u8 list \<times> u8 list list" where
  "read_chunk n [] = ([], [])"
| "read_chunk n (c # cs) = (if length c \<le> n then (c, cs) else (take n c, drop n c # cs))"

lemma read_chunk_less:
  "read_chunk n cs = (d, cs') \<Longrightarrow> d \<noteq> [] \<Longrightarrow> length (concat cs') < length (concat cs)"
  by (cases cs) (auto split: if_splits)

text \<open>The outer loop; \<open>b\<close> are the \<open>m\<close> bytes left in the buffer of 1024.\<close>

function grep_loop :: "u8 list \<Rightarrow> u8 list \<Rightarrow> u8 list list \<Rightarrow> u8 list" where
  "grep_loop re b cs =
    (let (d, cs') = read_chunk (1024 - length b - 1) cs in
     if d = [] then []
     else
       let (out, p) = grep_lines re (b @ d);
           b' = (if length p = length (b @ d) then [] else p)
       in out @ grep_loop re b' cs')"
  by pat_completeness auto
termination
proof (relation "measure (\<lambda>(re, b, cs). length (concat cs))", simp)
  fix re b :: "u8 list" and cs x d cs' and y z :: "u8 list \<times> u8 list" and out p b'
  assume "x = read_chunk (1024 - length b - 1) cs" "(d, cs') = x" "d \<noteq> []"
  then have "length (concat cs') < length (concat cs)" by (intro read_chunk_less [of "1024 - length b - 1" cs d cs']) simp_all
  then show "((re, b', cs'), (re, b, cs)) \<in> measure (\<lambda>(re, b, cs). length (concat cs))" by simp
qed

definition grep :: "u8 list \<Rightarrow> u8 list list \<Rightarrow> u8 list" where
  "grep re cs = grep_loop re [] cs"

declare matchhere.simps [simp del] matchstar.simps [simp del] match_any.simps [simp del] grep_lines.simps [simp del] grep_loop.simps [simp del]

section \<open>The meaning of a pattern\<close>

datatype item = One u8 | Many u8

definition ok_char :: "u8 \<Rightarrow> u8 \<Rightarrow> bool" where
  "ok_char r t \<longleftrightarrow> r = 46 \<or> r = t"

fun items :: "u8 list \<Rightarrow> item list \<times> bool" where
  "items [] = ([], False)"
| "items [r] = (if r = 36 then ([], True) else ([One r], False))"
| "items (r # s # rs) = (if s = 42 then (let (is, e) = items rs in (Many r # is, e)) else (let (is, e) = items (s # rs) in (One r # is, e)))"

fun lang :: "item list \<Rightarrow> u8 list set" where
  "lang [] = {[]}"
| "lang (One r # is) = {t # w | t w. ok_char r t \<and> w \<in> lang is}"
| "lang (Many r # is) = {v @ w | v w. (\<forall>t\<in>set v. ok_char r t) \<and> w \<in> lang is}"

text \<open>A text starts with the pattern.\<close>

definition starts :: "u8 list \<Rightarrow> u8 list \<Rightarrow> bool" where
  "starts re tx \<longleftrightarrow> (\<exists>v w. tx = v @ w \<and> v \<in> lang (fst (items re)) \<and> (snd (items re) \<longrightarrow> w = []))"

lemma starts_Nil: "starts [] tx" by (simp add: starts_def)

lemma starts_end: "starts [36] tx \<longleftrightarrow> tx = []" by (simp add: starts_def)

lemma starts_one:
  assumes "items re = (One r # fst (items rs), snd (items rs))"
  shows "starts re tx \<longleftrightarrow> (case tx of [] \<Rightarrow> False | t # ts \<Rightarrow> ok_char r t \<and> starts rs ts)"
  by (cases tx) (auto simp: starts_def assms Cons_eq_append_conv)

lemma starts_many:
  assumes "items re = (Many r # fst (items rs), snd (items rs))"
  shows "starts re tx \<longleftrightarrow> (\<exists>v w. tx = v @ w \<and> (\<forall>t\<in>set v. ok_char r t) \<and> starts rs w)"
proof
  assume "starts re tx"
  then obtain v w where v: "tx = v @ w" "v \<in> lang (Many r # fst (items rs))" "snd (items rs) \<longrightarrow> w = []"
    unfolding starts_def assms fst_conv snd_conv by blast
  then obtain x y where "v = x @ y" "\<forall>t\<in>set x. ok_char r t" "y \<in> lang (fst (items rs))" by auto
  with v show "\<exists>v w. tx = v @ w \<and> (\<forall>t\<in>set v. ok_char r t) \<and> starts rs w"
    unfolding starts_def by (intro exI [of _ x] exI [of _ "y @ w"]) auto
next
  assume "\<exists>v w. tx = v @ w \<and> (\<forall>t\<in>set v. ok_char r t) \<and> starts rs w"
  then obtain x y w where "tx = x @ (y @ w)" "\<forall>t\<in>set x. ok_char r t" "y \<in> lang (fst (items rs))" "snd (items rs) \<longrightarrow> w = []"
    by (auto simp: starts_def)
  then show "starts re tx" unfolding starts_def assms by (intro exI [of _ "x @ y"] exI [of _ w]) auto
qed

lemma star_step:
  "(\<exists>v w. tx = v @ w \<and> (\<forall>t\<in>set v. ok_char r t) \<and> P w) \<longleftrightarrow>
    P tx \<or> (case tx of [] \<Rightarrow> False | t # ts \<Rightarrow> ok_char r t \<and> (\<exists>v w. ts = v @ w \<and> (\<forall>t\<in>set v. ok_char r t) \<and> P w))"
  (is "?L \<longleftrightarrow> ?R")
proof
  assume ?L
  then obtain v w where "tx = v @ w" "\<forall>t\<in>set v. ok_char r t" "P w" by blast
  then show ?R by (cases v) auto
next
  assume r: ?R
  show ?L
  proof (cases "P tx")
    case True
    then show ?thesis by (intro exI [of _ "[]"] exI [of _ tx]) simp
  next
    case False
    then obtain t ts v w where "tx = t # ts" "ok_char r t" "ts = v @ w" "\<forall>t\<in>set v. ok_char r t" "P w"
      using r by (auto split: list.splits)
    then show ?thesis by (intro exI [of _ "t # v"] exI [of _ w]) simp
  qed
qed

lemma matchhere_Nil: "matchhere [] tx"
  using matchhere.simps [of "[]" tx] by simp

lemma matchhere_last:
  "matchhere [r] tx \<longleftrightarrow> (if r = 36 then tx = [] else (case tx of [] \<Rightarrow> False | t # ts \<Rightarrow> ok_char r t))"
  unfolding matchhere.simps [of "[r]"] by (cases tx) (simp_all add: ok_char_def matchhere_Nil)

lemma matchhere_star: "matchhere (r # 42 # rs) tx \<longleftrightarrow> matchstar r rs tx"
  unfolding matchhere.simps [of "r # 42 # rs"] by simp

lemma matchhere_more:
  "s \<noteq> 42 \<Longrightarrow> matchhere (r # s # rs) tx \<longleftrightarrow> (case tx of [] \<Rightarrow> False | t # ts \<Rightarrow> ok_char r t \<and> matchhere (s # rs) ts)"
  unfolding matchhere.simps [of "r # s # rs"] by (cases tx) (simp_all add: ok_char_def)

lemmas matchhere_cases = matchhere_Nil matchhere_last matchhere_star matchhere_more

lemma matchhere_starts:
  "matchhere re tx \<longleftrightarrow> starts re tx"
  "matchstar c re tx \<longleftrightarrow> (\<exists>v w. tx = v @ w \<and> (\<forall>t\<in>set v. ok_char c t) \<and> starts re w)"
proof (induction re tx and c re tx rule: matchhere_matchstar.induct)
  case (1 re tx)
  consider "re = []" | (one) r where "re = [r]" "r \<noteq> 36" | "re = [36]"
    | (many) r rs where "re = r # 42 # rs" | (two) r s rs where "re = r # s # rs" "s \<noteq> 42"
    by (metis list.exhaust)
  then show ?case
  proof cases
    case (one r)
    then show ?thesis using starts_one [of re r "[]"] by (simp add: matchhere_cases starts_Nil split: list.splits)
  next
    case (many r rs)
    have "matchstar r rs tx \<longleftrightarrow> (\<exists>v w. tx = v @ w \<and> (\<forall>t\<in>set v. ok_char r t) \<and> starts rs w)"
      by (rule 1(2) [OF many refl refl])
    then show ?thesis using many starts_many [of re r rs] by (simp add: matchhere_cases case_prod_beta)
  next
    case (two r s rs)
    have "matchhere (s # rs) ts \<longleftrightarrow> starts (s # rs) ts" if "tx = t # ts" "ok_char r t" for t ts
      using 1(3) [OF two(1) refl two(2) that(1)] that(2) by (simp add: ok_char_def)
    then show ?thesis using two starts_one [of re r "s # rs"] by (cases tx) (auto simp: matchhere_cases case_prod_beta)
  qed (simp_all add: starts_Nil starts_end matchhere_cases)
next
  case (2 c re tx)
  show ?case
  proof (cases tx)
    case Nil
    then show ?thesis using 2(1) matchstar.simps [of c re tx] by simp
  next
    case (Cons t ts)
    have "matchstar c re tx \<longleftrightarrow> starts re tx \<or> (ok_char c t \<and> matchstar c re ts)"
      using 2(1) Cons matchstar.simps [of c re tx] by (auto simp: ok_char_def)
    moreover have "matchstar c re ts \<longleftrightarrow> (\<exists>v w. ts = v @ w \<and> (\<forall>t\<in>set v. ok_char c t) \<and> starts re w)"
      if "\<not> starts re tx" "ok_char c t"
      using 2(2) [OF _ Cons] 2(1) that by (auto simp: ok_char_def)
    ultimately show ?thesis unfolding star_step [of tx] using Cons by auto
  qed
qed

lemma match_any_starts: "match_any re tx \<longleftrightarrow> (\<exists>v w. tx = v @ w \<and> starts re w)"
proof (induction tx)
  case (Cons t ts)
  have "(\<exists>v w. t # ts = v @ w \<and> starts re w) \<longleftrightarrow> starts re (t # ts) \<or> (\<exists>v w. ts = v @ w \<and> starts re w)"
    by (auto simp: Cons_eq_append_conv)
  then show ?case using Cons match_any.simps [of re "t # ts"] by (simp add: matchhere_starts)
qed (simp add: matchhere_starts match_any.simps)

text \<open>C25. The matcher is correct: a pattern without leading \<open>^\<close> matches a text exactly if some place of the text starts with the pattern, and with a
  leading \<open>^\<close> if the text itself does; to start with a pattern is to have a prefix in its regular language, the whole rest if the pattern ends in \<open>$\<close>.\<close>

theorem match_correct:
  "match re tx \<longleftrightarrow> (if re \<noteq> [] \<and> hd re = 94 then starts (tl re) tx else (\<exists>v w. tx = v @ w \<and> starts re w))"
  by (cases re) (simp_all add: match_def match_any_starts matchhere_starts)

section \<open>Lines\<close>

text \<open>The matching lines of an input, each with its newline; what follows the last newline is not a line.\<close>

function matching_lines :: "u8 list \<Rightarrow> u8 list \<Rightarrow> u8 list" where
  "matching_lines re inp =
    (if 10 \<in> set inp then
       let line = takeWhile (\<lambda>c. c \<noteq> 10) inp
       in (if match re line then line @ [10] else []) @ matching_lines re (drop (length line + 1) inp)
     else [])"
  by pat_completeness auto
termination
  by (relation "measure (\<lambda>(re, p). length p)") (auto intro!: diff_less length_pos_if_in_set)

declare matching_lines.simps [simp del]

lemma matching_lines_step:
  assumes "10 \<notin> set l"
  shows "matching_lines re (l @ 10 # rest) = (if match re l then l @ [10] else []) @ matching_lines re rest"
proof -
  have "takeWhile (\<lambda>c. c \<noteq> 10) (l @ 10 # rest) = l" using assms by (subst takeWhile_append2) auto
  then show ?thesis using matching_lines.simps [of re "l @ 10 # rest"] by (simp add: Let_def)
qed

lemma matching_lines_none: "10 \<notin> set p \<Longrightarrow> matching_lines re p = []"
  by (subst matching_lines.simps) (rule if_not_P)

lemma grep_lines_step:
  assumes "10 \<notin> set l" and "0 \<notin> set l"
  shows "grep_lines re (l @ 10 # rest) =
    ((if match re l then l @ [10] else []) @ fst (grep_lines re rest), snd (grep_lines re rest))"
proof -
  have l: "\<forall>c\<in>set l. c \<noteq> 10 \<and> c \<noteq> 0" using assms by auto
  then have "dropWhile (\<lambda>c. c \<noteq> 10 \<and> c \<noteq> 0) (l @ 10 # rest) = 10 # rest"
    "takeWhile (\<lambda>c. c \<noteq> 10 \<and> c \<noteq> 0) (l @ 10 # rest) = l"
    by (simp_all add: dropWhile_append3)
  then show ?thesis by (simp add: grep_lines.simps [of re "l @ 10 # rest"] case_prod_beta Let_def)
qed

lemma grep_lines_none:
  assumes "10 \<notin> set p"
  shows "grep_lines re p = ([], p)"
proof (cases "dropWhile (\<lambda>c. c \<noteq> 10 \<and> c \<noteq> 0) p")
  case Nil
  then show ?thesis by (simp only: grep_lines.simps [of re p] list.case)
next
  case (Cons q rest)
  have "q \<in> set (dropWhile (\<lambda>c. c \<noteq> 10 \<and> c \<noteq> 0) p)" unfolding Cons by (rule list.set_intros(1))
  then have "q \<in> set p" by (rule set_dropWhileD)
  then have "q \<noteq> 10" using assms by blast
  then show ?thesis using Cons by (simp only: grep_lines.simps [of re p] list.case if_False)
qed

text \<open>The inner loop prints the matching lines up to the last newline and leaves the rest.\<close>

lemma grep_lines_matching:
  assumes "0 \<notin> set p"
  shows "\<exists>u r. p = u @ r \<and> grep_lines re p = (matching_lines re u, r) \<and> 10 \<notin> set r \<and> (10 \<in> set p \<longrightarrow> u \<noteq> []) \<and>
    (\<forall>y. matching_lines re (p @ y) = matching_lines re u @ matching_lines re (r @ y))"
  using assms
proof (induction p rule: length_induct)
  case (1 p)
  show ?case
  proof (cases "10 \<in> set p")
    case False
    then show ?thesis
      by (intro exI [of _ "[]"] exI [of _ p]) (simp add: grep_lines_none matching_lines_none)
  next
    case True
    then obtain l rest where p: "p = l @ 10 # rest" "10 \<notin> set l" by (meson split_list_first)
    then have rest: "length rest < length p" "0 \<notin> set rest" using 1(2) by simp_all
    obtain u r where ih: "rest = u @ r" "grep_lines re rest = (matching_lines re u, r)" "10 \<notin> set r"
        "\<forall>y. matching_lines re (rest @ y) = matching_lines re u @ matching_lines re (r @ y)"
      using 1(1) [rule_format, OF rest] by blast
    have l0: "0 \<notin> set l" using 1(2) p by simp
    show ?thesis
    proof (rule exI [of _ "l @ 10 # u"], rule exI [of _ r], intro conjI allI impI)
      show "grep_lines re p = (matching_lines re (l @ 10 # u), r)"
        unfolding p(1) grep_lines_step [OF p(2) l0] matching_lines_step [OF p(2)] using ih(2) by simp
      show "matching_lines re (p @ y) = matching_lines re (l @ 10 # u) @ matching_lines re (r @ y)" for y
        using ih(4) matching_lines_step [OF p(2), of re "rest @ y"] by (simp add: p(1) matching_lines_step [OF p(2)])
    qed (use p ih in simp_all)
  qed
qed

lemma grep_loop_step:
  assumes "read_chunk (1024 - length b - 1) cs = (d, cs')" and "d \<noteq> []" and "grep_lines re (b @ d) = (out, p)"
  shows "grep_loop re b cs = out @ grep_loop re (if length p = length (b @ d) then [] else p) cs'"
  unfolding grep_loop.simps [of re b cs] assms(1) Let_def prod.case assms(3) using assms(2) by (rule if_not_P)

lemma grep_loop_end: "grep_loop re b [] = []" "grep_loop re b [[]] = []"
  by (subst grep_loop.simps, simp)+

text \<open>Every 1023 consecutive bytes have a newline among them.\<close>

definition short_lines :: "u8 list \<Rightarrow> bool" where
  "short_lines inp \<longleftrightarrow> (\<forall>u v w. inp = u @ v @ w \<longrightarrow> length v = 1023 \<longrightarrow> 10 \<in> set v)"

lemma short_linesD: "short_lines (u @ v @ w) \<Longrightarrow> length v = 1023 \<Longrightarrow> 10 \<in> set v"
  unfolding short_lines_def by blast

lemma short_lines_suffix: "short_lines (u @ v) \<Longrightarrow> short_lines v"
  using short_linesD [of "u @ _"] by (force simp: short_lines_def [of v])

lemma grep_loop_matching:
  "0 \<notin> set (b @ c) \<Longrightarrow> 10 \<notin> set b \<Longrightarrow> short_lines (b @ c) \<Longrightarrow> grep_loop re b [c] = matching_lines re (b @ c)"
proof (induction c arbitrary: b rule: length_induct)
  case (1 c)
  show ?case
  proof (cases "c = []")
    case True
    then show ?thesis using 1(3) by (simp add: grep_loop_end matching_lines_none)
  next
    case False
    have "length b < 1023"
    proof (rule ccontr)
      assume "\<not> length b < 1023"
      then have "10 \<in> set (take 1023 b)"
        using 1(4) by (intro short_linesD [of "[]" "take 1023 b" "drop 1023 b @ c"]) (simp_all flip: append_assoc)
      then show False using 1(3) in_set_takeD by metis
    qed
    then obtain n where n: "1024 - length b - 1 = n" "0 < n" "n + length b = 1023" by simp
    define d where "d = take n c"
    define c' where "c' = drop n c"
    have dc: "c = d @ c'" "d \<noteq> []" using n(2) False by (simp_all add: d_def c'_def)
    have z: "0 \<notin> set (b @ d)" using 1(2) dc(1) by simp
    obtain u r where ur: "b @ d = u @ r" "grep_lines re (b @ d) = (matching_lines re u, r)" "10 \<notin> set r" "10 \<in> set (b @ d) \<longrightarrow> u \<noteq> []"
        "\<forall>y. matching_lines re ((b @ d) @ y) = matching_lines re u @ matching_lines re (r @ y)"
      using grep_lines_matching [OF z, of re] by blast
    have ml: "matching_lines re (b @ c) = matching_lines re u @ matching_lines re (r @ c')" using ur(5) dc(1) by simp
    show ?thesis
    proof (cases "length c \<le> n")
      case True
      then have rc: "read_chunk (1024 - length b - 1) [c] = (d, [])" and "c' = []" using n(1) by (simp_all add: d_def c'_def)
      then show ?thesis
        unfolding grep_loop_step [OF rc dc(2) ur(2)] ml using matching_lines_none [OF ur(3)] by (simp only: grep_loop_end append_Nil2)
    next
      case False
      then have rc: "read_chunk (1024 - length b - 1) [c] = (d, [c'])" using n(1) by (simp add: d_def c'_def)
      have "length (b @ d) = 1023" using False n by (simp add: d_def)
      then have "10 \<in> set (b @ d)" using short_linesD [of "[]" "b @ d" c'] 1(4) dc(1) by simp
      then have ne: "length r \<noteq> length (b @ d)" using ur(1,4) by simp
      have "b @ c = u @ (r @ c')" using ur(1) dc(1) by (metis append.assoc)
      then have "0 \<notin> set (r @ c')" "short_lines (r @ c')" using 1(2,4) short_lines_suffix [of u "r @ c'"] by auto
      moreover have "length c' < length c" using dc by simp
      ultimately have "grep_loop re r [c'] = matching_lines re (r @ c')" using 1(1) ur(3) by blast
      then show ?thesis unfolding grep_loop_step [OF rc dc(2) ur(2)] ml if_not_P [OF ne] by (rule arg_cong)
    qed
  qed
qed

text \<open>C31. \<open>grep\<close> of a file without zero bytes whose lines fit the buffer prints exactly its matching lines, in order, however many reads the file
  takes.\<close>

theorem grep_file:
  assumes "0 \<notin> set inp" and "short_lines inp"
  shows "grep re [inp] = matching_lines re inp"
  using grep_loop_matching [of "[]" inp re] assms by (simp add: grep_def)

theorem grep_file_witness:
  "grep [97, 42, 36] [[98, 97, 97, 10, 98, 10, 99]] = matching_lines [97, 42, 36] [98, 97, 97, 10, 98, 10, 99]"
proof (rule grep_file)
  show "short_lines [98, 97, 97, 10, 98, 10, 99]"
    unfolding short_lines_def
  proof (intro allI impI)
    fix u v w :: "u8 list"
    assume a: "[98, 97, 97, 10, 98, 10, 99] = u @ v @ w" "length v = 1023"
    have "length [98, 97, 97, 10, 98, 10, 99 :: u8] = length u + length v + length w"
      using arg_cong [OF a(1), of length] by simp
    then show "10 \<in> set v" using a(2) by simp
  qed
qed simp

text \<open>C32. \<open>grep\<close> drops the beginning of a line that arrives in two reads: when a \<open>read\<close> delivers no newline, the loop forgets what it read, so
  a later read is taken for the whole line.\<close>

theorem grep_loses_partial_line:
  assumes "a \<noteq> []" and "length a < 1024" and "10 \<notin> set a"
  shows "grep re [a, b] = grep re [b]"
proof -
  have "read_chunk (1024 - length ([] :: u8 list) - 1) [a, b] = (a, [b])" using assms(2) by simp
  from grep_loop_step [OF this assms(1), of re "[]" a] show ?thesis
    using grep_lines_none [OF assms(3), of re] by (simp add: grep_def)
qed

theorem grep_loses_partial_line_witness:
  "grep [94, 99] [[97, 98], [99, 10]] = grep [94, 99] [[99, 10]]"
  by (rule grep_loses_partial_line) simp_all

end
