(* ===== verification/Kbd.thy ===== *)
theory Kbd
  imports Fs
begin

text \<open>
  The keyboard driver, \<^verbatim>\<open>src/src/kbd.c\<close> with the tables of \<^verbatim>\<open>src/src/kbd.h\<close>. The two controller ports are arguments: a call of \<open>kbdgetc\<close> gets
  the status and the data byte they hold. The static variable \<open>shift\<close> is passed and returned.
\<close>

section \<open>Tables\<close>

definition KBS_DIB :: u8 where [simp]: "KBS_DIB = 1"
definition SHIFT :: u8 where [simp]: "SHIFT = 1"
definition CTL :: u8 where [simp]: "CTL = 2"
definition ALT :: u8 where [simp]: "ALT = 4"
definition CAPSLOCK :: u8 where [simp]: "CAPSLOCK = 8"
definition NUMLOCK :: u8 where [simp]: "NUMLOCK = 16"
definition SCROLLLOCK :: u8 where [simp]: "SCROLLLOCK = 32"
definition E0ESC :: u8 where [simp]: "E0ESC = 64"
definition KEY_HOME :: u8 where [simp]: "KEY_HOME = 0xE0"
definition KEY_END :: u8 where [simp]: "KEY_END = 0xE1"
definition KEY_UP :: u8 where [simp]: "KEY_UP = 0xE2"
definition KEY_DN :: u8 where [simp]: "KEY_DN = 0xE3"
definition KEY_LF :: u8 where [simp]: "KEY_LF = 0xE4"
definition KEY_RT :: u8 where [simp]: "KEY_RT = 0xE5"
definition KEY_PGUP :: u8 where [simp]: "KEY_PGUP = 0xE6"
definition KEY_PGDN :: u8 where [simp]: "KEY_PGDN = 0xE7"
definition KEY_INS :: u8 where [simp]: "KEY_INS = 0xE8"
definition KEY_DEL :: u8 where [simp]: "KEY_DEL = 0xE9"

text \<open>An initialiser leaves the entries it does not name zero.\<close>

definition pad256 :: "u8 list \<Rightarrow> u8 list" where
  "pad256 xs = xs @ replicate (256 - length xs) 0"

definition shiftcode :: "u8 list" where
  "shiftcode = (pad256 [])[0x1d := CTL, 0x2a := SHIFT, 0x36 := SHIFT, 0x38 := ALT, 0x9d := CTL, 0xb8 := ALT]"

definition togglecode :: "u8 list" where
  "togglecode = (pad256 [])[0x3a := CAPSLOCK, 0x45 := NUMLOCK, 0x46 := SCROLLLOCK]"

definition normalmap :: "u8 list" where
  "normalmap = (pad256
    [0, 27, 49, 50, 51, 52, 53, 54, 55, 56, 57, 48, 45, 61, 8, 9,
     113, 119, 101, 114, 116, 121, 117, 105, 111, 112, 91, 93, 10, 0, 97, 115,
     100, 102, 103, 104, 106, 107, 108, 59, 39, 96, 0, 92, 122, 120, 99, 118,
     98, 110, 109, 44, 46, 47, 0, 42, 0, 32, 0, 0, 0, 0, 0, 0,
     0, 0, 0, 0, 0, 0, 0, 55, 56, 57, 45, 52, 53, 54, 43, 49,
     50, 51, 48, 46, 0, 0, 0, 0])
    [0x9c := 10, 0xb5 := 47, 0xc8 := KEY_UP, 0xd0 := KEY_DN, 0xc9 := KEY_PGUP, 0xd1 := KEY_PGDN, 0xcb := KEY_LF, 0xcd := KEY_RT, 0x97 := KEY_HOME, 0xcf := KEY_END, 0xd2 := KEY_INS, 0xd3 := KEY_DEL]"

definition shiftmap :: "u8 list" where
  "shiftmap = (pad256
    [0, 27, 33, 64, 35, 36, 37, 94, 38, 42, 40, 41, 95, 43, 8, 9,
     81, 87, 69, 82, 84, 89, 85, 73, 79, 80, 123, 125, 10, 0, 65, 83,
     68, 70, 71, 72, 74, 75, 76, 58, 34, 126, 0, 124, 90, 88, 67, 86,
     66, 78, 77, 60, 62, 63, 0, 42, 0, 32, 0, 0, 0, 0, 0, 0,
     0, 0, 0, 0, 0, 0, 0, 55, 56, 57, 45, 52, 53, 54, 43, 49,
     50, 51, 48, 46, 0, 0, 0, 0])
    [0x9c := 10, 0xb5 := 47, 0xc8 := KEY_UP, 0xd0 := KEY_DN, 0xc9 := KEY_PGUP, 0xd1 := KEY_PGDN, 0xcb := KEY_LF, 0xcd := KEY_RT, 0x97 := KEY_HOME, 0xcf := KEY_END, 0xd2 := KEY_INS, 0xd3 := KEY_DEL]"

definition ctlmap :: "u8 list" where
  "ctlmap = (pad256
    [0, 0, 0, 0, 0, 0, 0, 0, 0, 0, 0, 0, 0, 0, 0, 0,
     17, 23, 5, 18, 20, 25, 21, 9, 15, 16, 0, 0, 13, 0, 1, 19,
     4, 6, 7, 8, 10, 11, 12, 0, 0, 0, 0, 28, 26, 24, 3, 22,
     2, 14, 13, 0, 0, 239, 0, 0])
    [0x9c := 13, 0xb5 := 239, 0xc8 := KEY_UP, 0xd0 := KEY_DN, 0xc9 := KEY_PGUP, 0xd1 := KEY_PGDN, 0xcb := KEY_LF, 0xcd := KEY_RT, 0x97 := KEY_HOME, 0xcf := KEY_END, 0xd2 := KEY_INS, 0xd3 := KEY_DEL]"

section \<open>The driver\<close>

definition charcode :: "u8 \<Rightarrow> u8 list" where
  "charcode m = [normalmap, shiftmap, ctlmap, ctlmap] ! unat m"

definition swap_case :: "u32 \<Rightarrow> u32" where
  "swap_case c =
    (if 97 \<le> c \<and> c \<le> 122 then c + (65 - 97)
     else if 65 \<le> c \<and> c \<le> 90 then c + (97 - 65) else c)"

definition kbdgetc :: "u8 \<Rightarrow> u8 \<Rightarrow> u32 \<Rightarrow> int \<times> u32" where
  "kbdgetc st data shift =
    (if st AND KBS_DIB = 0 then (- 1, shift)
     else if data = 0xE0 then (0, shift OR ucast E0ESC)
     else if data AND 0x80 \<noteq> 0 then
       let data = (if shift AND ucast E0ESC \<noteq> 0 then data else data AND 0x7F)
       in (0, shift AND NOT (ucast (shiftcode ! unat data) OR ucast E0ESC))
     else
       let (data, shift) = (if shift AND ucast E0ESC \<noteq> 0 then (data OR 0x80, shift AND NOT (ucast E0ESC)) else (data, shift));
           shift = shift OR ucast (shiftcode ! unat data);
           shift = shift XOR ucast (togglecode ! unat data);
           c = ucast (charcode (ucast (shift AND ucast (CTL OR SHIFT))) ! unat data);
           c = (if shift AND ucast CAPSLOCK \<noteq> 0 then swap_case c else c)
       in (uint c, shift))"

text \<open>The calls \<open>consoleintr\<close> makes, until there is no data: the characters and the final \<open>shift\<close>.\<close>

fun kbd_chars :: "(u8 \<times> u8) list \<Rightarrow> u32 \<Rightarrow> int list \<times> u32" where
  "kbd_chars [] shift = ([], shift)"
| "kbd_chars ((st, data) # ps) shift =
    (let (c, shift) = kbdgetc st data shift in
     if c < 0 then ([], shift) else let (cs, shift) = kbd_chars ps shift in (c # cs, shift))"

definition kbdintr :: "(u8 \<times> u8) list \<Rightarrow> u32 \<Rightarrow> 'a fsst_scheme \<Rightarrow> err + (u32 \<times> bool \<times> 'a fsst_scheme)" where
  "kbdintr ps shift s = (let (cs, shift) = kbd_chars ps shift in bindE (consoleintr cs (False, s)) (\<lambda>r. Inr (shift, r)))"

section \<open>Its state\<close>

text \<open>Only the seven modifier bits are ever set.\<close>

definition shift_ok :: "u32 \<Rightarrow> bool" where
  "shift_ok x \<longleftrightarrow> x < 128"

lemma take_bit_7: "take_bit 7 w = w \<longleftrightarrow> (\<forall>n. 7 \<le> n \<longrightarrow> \<not> bit w n)" for w :: "'a :: len word"
proof
  assume "take_bit 7 w = w"
  then show "\<forall>n. 7 \<le> n \<longrightarrow> \<not> bit w n" by (metis bit_take_bit_iff not_less)
next
  assume "\<forall>n. 7 \<le> n \<longrightarrow> \<not> bit w n"
  then show "take_bit 7 w = w" by (intro bit_eqI) (auto simp: bit_take_bit_iff not_less [symmetric])
qed

lemma below_128:
  "(x :: u32) < 128 \<longleftrightarrow> (\<forall>n. 7 \<le> n \<longrightarrow> \<not> bit x n)" "(y :: u8) < 128 \<longleftrightarrow> (\<forall>n. 7 \<le> n \<longrightarrow> \<not> bit y n)"
  by (simp_all add: take_bit_7 [symmetric] word_less_def word_uint_eq_iff [of "take_bit 7 _"] unsigned_take_bit_eq take_bit_int_eq_self_iff)

lemma tables_small: "list_all (\<lambda>x. x < 128) shiftcode" "list_all (\<lambda>x. x < 128) togglecode" "length shiftcode = 256" "length togglecode = 256"
  "length normalmap = 256" "length shiftmap = 256" "length ctlmap = 256"
  by code_simp+

lemma code_bits:
  assumes "7 \<le> n"
  shows "\<not> bit (ucast (shiftcode ! unat (d :: u8)) :: u32) n" "\<not> bit (ucast (togglecode ! unat d) :: u32) n"
proof -
  have "unat d < 256" using unsigned_less [of d] by simp
  then have "shiftcode ! unat d < 128" "togglecode ! unat d < 128" using tables_small by (simp_all add: list_all_length)
  then show "\<not> bit (ucast (shiftcode ! unat d) :: u32) n" "\<not> bit (ucast (togglecode ! unat d) :: u32) n"
    using assms unfolding below_128 by (simp_all add: bit_ucast_iff)
qed

lemma E0ESC_bits: "bit (ucast E0ESC :: u32) n \<longleftrightarrow> n = 6"
proof -
  have "(ucast E0ESC :: u32) = push_bit 6 1" by simp
  then show ?thesis by (simp only: bit_push_bit_iff) (auto simp: bit_1_iff)
qed

lemma kbdgetc_shift:
  assumes "shift_ok shift"
  shows "shift_ok (snd (kbdgetc st d shift))"
proof -
  have "\<forall>n. 7 \<le> n \<longrightarrow> \<not> bit shift n" using assms unfolding shift_ok_def below_128 .
  then show ?thesis unfolding shift_ok_def below_128 kbdgetc_def Let_def case_prod_beta
    using code_bits E0ESC_bits by (auto simp: bit_simps simp del: E0ESC_def)
qed

lemma kbdgetc_char: "- 1 \<le> fst (kbdgetc st d shift) \<and> fst (kbdgetc st d shift) \<le> 255"
proof -
  have u: "uint (ucast (c :: u8) :: u32) \<le> 255" "(97 :: u32) \<le> ucast c \<Longrightarrow> ucast c \<le> (122 :: u32) \<Longrightarrow> uint (ucast c + (65 - 97) :: u32) \<le> 255"
    "(65 :: u32) \<le> ucast c \<Longrightarrow> ucast c \<le> (90 :: u32) \<Longrightarrow> uint (ucast c + (97 - 65) :: u32) \<le> 255" for c :: u8
  proof -
    show b: "uint (ucast c :: u32) \<le> 255" using unsigned_less [where 'a = int and w = c] by (simp add: unsigned_ucast_eq take_bit_int_eq_self)
    show "uint (ucast c + (65 - 97) :: u32) \<le> 255" if "(97 :: u32) \<le> ucast c" "ucast c \<le> (122 :: u32)"
    proof -
      have "97 \<le> uint (ucast c :: u32)" using that(1) by (simp add: word_le_def)
      then have "uint (ucast c - 32 :: u32) = uint (ucast c :: u32) - 32" using b by (simp add: uint_word_ariths)
      then show ?thesis using b by simp
    qed
    show "uint (ucast c + (97 - 65) :: u32) \<le> 255" if "(65 :: u32) \<le> ucast c" "ucast c \<le> (90 :: u32)"
    proof -
      have "uint (ucast c :: u32) \<le> 90" using that(2) by (simp add: word_le_def)
      then have "uint (ucast c + 32 :: u32) = uint (ucast c :: u32) + 32" by (simp add: uint_word_ariths)
      then show ?thesis using \<open>uint (ucast c :: u32) \<le> 90\<close> by simp
    qed
  qed
  then have "uint (swap_case (ucast c)) \<le> 255" for c :: u8 by (simp add: swap_case_def del: diff_numeral_simps diff_numeral_special)
  moreover have "- 1 \<le> uint (w :: u32)" for w by (rule order_trans [of _ 0]) simp_all
  ultimately show ?thesis unfolding kbdgetc_def Let_def case_prod_beta using u(1) by simp
qed

text \<open>C34. The keyboard driver keeps its state and its results in range: \<open>shift\<close> never has a bit other than the seven modifier bits, and over any sequence of port
  values \<open>consoleintr\<close> is given only codes of bytes.\<close>

theorem kbd_chars_bounds:
  assumes "shift_ok shift"
  shows "shift_ok (snd (kbd_chars ps shift)) \<and> (\<forall>c \<in> set (fst (kbd_chars ps shift)). 0 \<le> c \<and> c \<le> 255)"
  using assms
proof (induction ps arbitrary: shift)
  case (Cons p ps)
  obtain st d where p: "p = (st, d)" by fastforce
  obtain c sh where k: "kbdgetc st d shift = (c, sh)" by fastforce
  have "shift_ok sh" "c \<le> 255" using kbdgetc_shift [OF Cons.prems, of st d] kbdgetc_char [of st d shift] k by simp_all
  then show ?case using Cons.IH [of sh] k p by (auto simp: case_prod_beta)
qed simp

theorem kbd_chars_bounds_witness:
  "shift_ok 0 \<and> shift_ok (snd (kbd_chars [(1, 0x2a), (1, 0x1e)] 0)) \<and> list_all (\<lambda>c. 0 \<le> c \<and> c \<le> 255) (fst (kbd_chars [(1, 0x2a), (1, 0x1e)] 0))"
  using kbd_chars_bounds [of 0 "[(1, 0x2a), (1, 0x1e)]"] by (simp only: list_all_iff) (simp add: shift_ok_def)

section \<open>Keys\<close>

definition letter_row :: "u8 \<times> u8 \<times> u8 \<times> u8 \<times> u8 \<Rightarrow> bool" where
  "letter_row r = (case r of (n, s, c, a, b) \<Rightarrow> 97 \<le> n \<and> n \<le> 122 \<longrightarrow> s = n - 32 \<and> c = n - 96 \<and> a = 0 \<and> b = 0)"

lemma letter_rows: "list_all letter_row (zip normalmap (zip shiftmap (zip ctlmap (zip shiftcode togglecode))))"
  by code_simp

lemma letter_entries:
  assumes "97 \<le> normalmap ! d" and "normalmap ! d \<le> 122" and "d < 256"
  shows "shiftmap ! d = normalmap ! d - 32" "ctlmap ! d = normalmap ! d - 96" "shiftcode ! d = 0" "togglecode ! d = 0"
  using letter_rows assms tables_small by (simp_all add: list_all_length letter_row_def)

lemma make_code:
  assumes "(d :: u8) < 128"
  shows "d AND 0x80 = 0" "d \<noteq> 0xE0" "unat d < 256"
proof -
  have b: "bit (0x80 :: u8) n \<longleftrightarrow> n = 7" for n
  proof -
    have "(0x80 :: u8) = push_bit 7 1" by simp
    then show ?thesis by (simp only: bit_push_bit_iff) (auto simp: bit_1_iff)
  qed
  have nb: "\<not> bit d 7" using assms below_128(2) [of d] by simp
  show "d AND 0x80 = 0"
  proof (rule bit_eqI)
    fix n
    have "\<not> bit (d AND 0x80) n" unfolding bit_and_iff b using nb by auto
    then show "bit (d AND 0x80) n = bit 0 n" by simp
  qed
  show "d \<noteq> 0xE0" using assms by auto
  show "unat d < 256" using unsigned_less [of d] by simp
qed

lemma letter_case:
  assumes "97 \<le> n" and "n \<le> (122 :: u8)"
  shows "uint (ucast n :: u32) = uint n" "uint (ucast (n - 32) :: u32) = uint n - 32" "uint (ucast (n - 96) :: u32) = uint n - 96"
    "uint (swap_case (ucast n)) = uint n - 32" "uint (swap_case (ucast (n - 32))) = uint n"
proof -
  have u: "97 \<le> uint n" "uint n \<le> 122" using assms by (simp_all add: word_le_def)
  show a: "uint (ucast n :: u32) = uint n" using u by (simp add: unsigned_ucast_eq take_bit_int_eq_self)
  have m: "uint (n - 32) = uint n - 32" "uint (n - 96) = uint n - 96" using u by (simp_all add: uint_word_ariths)
  then show b: "uint (ucast (n - 32) :: u32) = uint n - 32" "uint (ucast (n - 96) :: u32) = uint n - 96"
    using u by (simp_all add: unsigned_ucast_eq take_bit_int_eq_self)
  have "swap_case (ucast n) = ucast n + (65 - 97)" using a u by (simp add: swap_case_def word_le_def)
  then show "uint (swap_case (ucast n)) = uint n - 32" using a u by (simp add: uint_word_ariths)
  have "swap_case (ucast (n - 32)) = ucast (n - 32) + (97 - 65)" using b(1) u by (simp add: swap_case_def word_le_def)
  then show "uint (swap_case (ucast (n - 32))) = uint n" using b(1) u by (simp add: uint_word_ariths)
qed

lemma break_code:
  assumes "(d :: u8) < 128"
  shows "(d OR 0x80) AND 0x7F = d" "(d OR 0x80) AND 0x80 \<noteq> 0" "d \<noteq> 0x60 \<Longrightarrow> d OR 0x80 \<noteq> 0xE0"
proof -
  have b: "bit (0x80 :: u8) n \<longleftrightarrow> n = 7" "bit (0x7F :: u8) n \<longleftrightarrow> n < 7" for n
  proof -
    have "(0x80 :: u8) = push_bit 7 1" "(0x7F :: u8) = mask 7" by (simp_all add: mask_numeral)
    then show "bit (0x80 :: u8) n \<longleftrightarrow> n = 7" "bit (0x7F :: u8) n \<longleftrightarrow> n < 7" by (simp_all only: bit_push_bit_iff bit_mask_iff) (auto simp: bit_1_iff)
  qed
  have db: "n \<ge> 7 \<Longrightarrow> \<not> bit d n" for n using assms unfolding below_128 by simp
  show r7: "(d OR 0x80) AND 0x7F = d" by (rule bit_eqI) (simp only: bit_and_iff bit_or_iff b, metis db not_less less_irrefl)
  show "(d OR 0x80) AND 0x80 \<noteq> 0"
  proof
    assume "(d OR 0x80) AND 0x80 = 0"
    then have "bit ((d OR 0x80) AND 0x80) 7 = bit (0 :: u8) 7" by simp
    then show False unfolding bit_and_iff bit_or_iff b by simp
  qed
  show "d OR 0x80 \<noteq> 0xE0" if "d \<noteq> 0x60"
  proof
    assume a: "d OR 0x80 = 0xE0"
    have "d = (d OR 0x80) AND 0x7F" by (rule r7 [symmetric])
    also have "\<dots> = 0x60" unfolding a by simp
    finally show False using that by simp
  qed
qed

lemma bits_64_2: "bit (64 :: u32) n \<longleftrightarrow> n = 6" "bit (2 :: u32) n \<longleftrightarrow> n = 1"
proof -
  have "(64 :: u32) = push_bit 6 1" by simp
  then show "bit (64 :: u32) n \<longleftrightarrow> n = 6" by (simp only: bit_push_bit_iff) (auto simp: bit_1_iff)
  have "(2 :: u32) = push_bit 1 1" by simp
  then show "bit (2 :: u32) n \<longleftrightarrow> n = 1" by (simp only: bit_push_bit_iff) (auto simp: bit_1_iff)
qed

lemma esc_word:
  fixes x :: u32
  assumes x: "\<not> bit x 6"
  shows "(x OR 64) AND NOT 64 = x" "(x OR 64) AND 64 = 64" "((x OR 2) OR 64) AND NOT (2 OR 64) = x AND NOT 2"
proof -
  show "(x OR 64) AND NOT 64 = x"
  proof (rule bit_eqI)
    fix n
    show "bit ((x OR 64) AND NOT 64) n = bit x n" unfolding bit_and_iff bit_or_iff bit_not_iff bits_64_2
      using bit_imp_possible_bit [of x n] x by (cases "n = 6") auto
  qed
  show "(x OR 64) AND 64 = 64"
  proof (rule bit_eqI)
    fix n
    show "bit ((x OR 64) AND 64) n = bit (64 :: u32) n" unfolding bit_and_iff bit_or_iff bits_64_2 by blast
  qed
  show "((x OR 2) OR 64) AND NOT (2 OR 64) = x AND NOT 2"
  proof (rule bit_eqI)
    fix n
    show "bit (((x OR 2) OR 64) AND NOT (2 OR 64)) n = bit (x AND NOT 2) n" unfolding bit_and_iff bit_or_iff bit_not_iff bits_64_2
      using x by (cases "n = 6") auto
  qed
qed

lemma and_two: "(x :: u32) AND 2 = (if bit x 1 then 2 else 0)"
proof (rule bit_eqI)
  fix n
  have "(2 :: u32) = push_bit 1 1" by simp
  then have "bit (2 :: u32) n \<longleftrightarrow> n = 1" by (simp only: bit_push_bit_iff) (auto simp: bit_1_iff)
  then show "bit (x AND 2) n = bit (if bit x 1 then 2 else 0 :: u32) n" by (auto simp: bit_and_iff)
qed

text \<open>Which table the modifiers select.\<close>

lemma charcode_cases:
  fixes x :: u32
  shows "charcode (ucast (x AND ucast (CTL OR SHIFT))) = (if x AND 2 \<noteq> 0 then ctlmap else if x AND 1 \<noteq> 0 then shiftmap else normalmap)"
proof -
  have "x AND 3 = (x AND 2) OR (x AND 1)" using bit.conj_disj_distrib [of x 2 1] by simp
  moreover have "x AND 1 = 0 \<or> x AND 1 = 1" by (simp add: and_one_eq mod_2_eq_odd)
  moreover have "x AND 2 = 0 \<or> x AND 2 = 2" by (simp add: and_two)
  ultimately consider "x AND 3 = 0" "x AND 2 = 0" "x AND 1 = 0" | "x AND 3 = 1" "x AND 2 = 0" "x AND 1 = 1"
    | "x AND 3 = 2" "x AND 2 = 2" "x AND 1 = 0" | "x AND 3 = 3" "x AND 2 = 2" "x AND 1 = 1" by auto
  then show ?thesis by cases (simp_all add: charcode_def)
qed

lemma kbd_letter_key:
  assumes "d < 128" and "97 \<le> normalmap ! unat d" and "normalmap ! unat d \<le> 122" and e: "sh AND 64 = 0" and st: "st AND KBS_DIB \<noteq> 0"
  shows "kbdgetc st d sh = (uint (normalmap ! unat d) - (if sh AND 2 \<noteq> 0 then 96 else if (sh AND 1 \<noteq> 0) \<noteq> (sh AND 8 \<noteq> 0) then 32 else 0), sh)"
    "kbdgetc st (d OR 0x80) sh = (0, sh)"
proof -
  note m = make_code [OF assms(1)]
  note l = letter_entries [OF assms(2,3) m(3)]
  note c = letter_case [OF assms(2,3)]
  have "swap_case (ucast (normalmap ! unat d - 96)) = ucast (normalmap ! unat d - 96)"
    using c(3) assms(2,3) by (simp add: swap_case_def word_le_def)
  then show "kbdgetc st d sh = (uint (normalmap ! unat d) - (if sh AND 2 \<noteq> 0 then 96 else if (sh AND 1 \<noteq> 0) \<noteq> (sh AND 8 \<noteq> 0) then 32 else 0), sh)"
    using st m l c e unfolding kbdgetc_def charcode_cases by simp
  have "normalmap ! 0x60 = 0" by code_simp
  then have "d \<noteq> 0x60" using assms(2) by auto
  moreover have "sh AND NOT 64 = sh"
  proof (rule bit_eqI)
    fix n
    have "\<not> (bit sh n \<and> bit (64 :: u32) n)" using arg_cong [OF e, of "\<lambda>w. bit w n"] unfolding bit_and_iff by (simp only: bit_0_eq bot_apply) simp
    then show "bit (sh AND NOT 64) n = bit sh n" using bit_imp_possible_bit [of sh n] by (auto simp only: bit_and_iff bit_not_iff)
  qed
  ultimately show "kbdgetc st (d OR 0x80) sh = (0, sh)"
    using st break_code [OF assms(1)] l(3) e by (simp add: kbdgetc_def)
qed

text \<open>C33. The letter keys, in every state of the modifiers (not directly after an escape byte): pressing a key whose plain character is a letter gives the control code of the letter if control is held,
  whatever shift and caps lock are; otherwise its capital letter if exactly one of shift and caps lock is on, and its small letter if
  both or none are. Pressing and releasing it leave the modifiers as they are. With the right control key, whose codes follow an escape byte, held
  around the key, the driver delivers the control code and forgets control when that key is released.\<close>

theorem kbd_letters:
  assumes "d < 128" and "97 \<le> normalmap ! unat d" and "normalmap ! unat d \<le> 122" and "sh AND ucast E0ESC = 0" and "st AND KBS_DIB \<noteq> 0"
  shows "kbdgetc st d sh =
      (uint (normalmap ! unat d) - (if sh AND ucast CTL \<noteq> 0 then 96
         else if (sh AND ucast SHIFT \<noteq> 0) \<noteq> (sh AND ucast CAPSLOCK \<noteq> 0) then 32 else 0), sh) \<and>
    kbdgetc st (d OR 0x80) sh = (0, sh) \<and>
    kbd_chars [(st, 0xE0), (st, 0x1D), (st, d), (st, d OR 0x80), (st, 0xE0), (st, 0x9D)] sh =
      ([0, 0, uint (normalmap ! unat d) - 96, 0, 0, 0], sh AND NOT (ucast CTL))"
proof (intro conjI)
  have e: "sh AND 64 = 0" and st: "st AND KBS_DIB \<noteq> 0" using assms(4,5) by simp_all
  note k = kbd_letter_key [OF assms(1-3) _ st]
  show "kbdgetc st d sh = (uint (normalmap ! unat d) - (if sh AND ucast CTL \<noteq> 0 then 96
         else if (sh AND ucast SHIFT \<noteq> 0) \<noteq> (sh AND ucast CAPSLOCK \<noteq> 0) then 32 else 0), sh)"
    using k(1) [OF e] by simp
  show "kbdgetc st (d OR 0x80) sh = (0, sh)" by (rule k(2) [OF e])
  have t: "shiftcode ! 157 = 2" "togglecode ! 157 = 0" "ctlmap ! 157 = 0" by code_simp+
  have n6: "\<not> bit sh 6" using arg_cong [OF e, of "\<lambda>w. bit w 6"] unfolding bit_and_iff bits_64_2 by (simp only: bit_0_eq bot_apply) simp
  have c2: "(sh OR 2) AND 64 = 0" "(sh OR 2) AND 2 = 2" "\<not> bit (sh OR 2) 6"
  proof -
    show "\<not> bit (sh OR 2) 6" using n6 unfolding bit_or_iff bits_64_2 by simp
    show "(sh OR 2) AND 64 = 0" using e by (simp add: bit.conj_disj_distrib2)
    have "bit (sh OR 2) 1" unfolding bit_or_iff bits_64_2 by simp
    then show "(sh OR 2) AND 2 = 2" unfolding and_two by simp
  qed
  have s1: "kbdgetc st 0xE0 x = (0, x OR 64)" for x using st by (simp add: kbdgetc_def)
  have s2: "kbdgetc st 0x1D (sh OR 64) = (0, sh OR 2)"
    unfolding kbdgetc_def charcode_cases using st esc_word(1,2) [OF n6] c2(2) by (simp add: t swap_case_def Let_def)
  have s3: "kbdgetc st d (sh OR 2) = (uint (normalmap ! unat d) - 96, sh OR 2)" "kbdgetc st (d OR 0x80) (sh OR 2) = (0, sh OR 2)"
    using k [OF c2(1)] c2(2) by simp_all
  have s4: "kbdgetc st 0x9D ((sh OR 2) OR 64) = (0, sh AND NOT 2)"
    using st esc_word(2) [OF c2(3)] esc_word(3) [OF n6] by (simp add: kbdgetc_def t)
  have "97 \<le> uint (normalmap ! unat d)" using assms(2) by (simp add: word_le_def)
  then show "kbd_chars [(st, 0xE0), (st, 0x1D), (st, d), (st, d OR 0x80), (st, 0xE0), (st, 0x9D)] sh =
      ([0, 0, uint (normalmap ! unat d) - 96, 0, 0, 0], sh AND NOT (ucast CTL))"
    by (simp add: s1 s2 s3 s4)
qed

theorem kbd_letters_witness:
  "kbdgetc 1 0x1e (ucast SHIFT) = (65, ucast SHIFT) \<and> kbdgetc 1 0x1e (ucast (CTL OR SHIFT)) = (1, ucast (CTL OR SHIFT)) \<and>
   kbd_chars [(1, 0xE0), (1, 0x1D), (1, 0x1e), (1, 0x1e OR 0x80), (1, 0xE0), (1, 0x9D)] 1 = ([0, 0, 1, 0, 0, 0], 1)"
proof -
  have n: "normalmap ! 30 = 97" by code_simp
  show ?thesis
    using kbd_letters [of "0x1e" "ucast SHIFT" 1] kbd_letters [of "0x1e" "ucast (CTL OR SHIFT)" 1] by (simp add: n)
qed

text \<open>Releasing a key undoes pressing it: after the make and the break code of a key that is not a lock key, \<open>shift\<close> is what it was, without the modifier of that key.\<close>

lemma kbd_press_release:
  assumes "d < 128" and "togglecode ! unat d = 0" and "shift AND ucast E0ESC = 0" and "d \<noteq> 0x60"
  shows "snd (kbdgetc 1 (d OR 0x80) (snd (kbdgetc 1 d shift))) = shift AND NOT (ucast (shiftcode ! unat d))"
proof -
  note m = make_code [OF assms(1)]
  define sc :: u32 where "sc = ucast (shiftcode ! unat d)"
  have "list_all (\<lambda>x. (ucast x :: u32) AND 64 = 0) shiftcode" by code_simp
  then have sc: "sc AND 64 = 0" using m(3) tables_small by (simp add: list_all_length sc_def)
  have e: "shift AND 64 = 0" using assms(3) by simp
  have k1: "snd (kbdgetc 1 d shift) = shift OR sc" using m assms(2) e by (simp add: kbdgetc_def Let_def sc_def)
  note r = break_code [OF assms(1)]
  have "(shift OR sc) AND 64 = 0" using e sc by (simp add: bit.conj_disj_distrib2)
  then have "snd (kbdgetc 1 (d OR 0x80) (shift OR sc)) = (shift OR sc) AND NOT (sc OR 64)"
    using r(1,2) r(3) [OF assms(4)] by (simp add: kbdgetc_def Let_def sc_def)
  also have "\<dots> = shift AND NOT sc"
  proof (rule bit_eqI)
    fix n
    have "\<not> (bit shift n \<and> bit (64 :: u32) n)" using arg_cong [OF e, of "\<lambda>w. bit w n"] unfolding bit_and_iff by (simp only: bit_0_eq bot_apply) simp
    then show "bit ((shift OR sc) AND NOT (sc OR 64)) n = bit (shift AND NOT sc) n" by (auto simp only: bit_and_iff bit_or_iff bit_not_iff)
  qed
  finally show ?thesis unfolding k1 by (simp add: sc_def)
qed

lemma kbd_press_release_example: "snd (kbdgetc 1 (0x2a OR 0x80) (snd (kbdgetc 1 0x2a 2))) = 2 AND NOT (ucast (shiftcode ! unat (0x2a :: u8)))"
proof (rule kbd_press_release)
  show "togglecode ! unat (0x2a :: u8) = 0" by code_simp
qed simp_all

end
