(* ===== verification/Sh.thy ===== *)
theory Sh
  imports Prelude
begin

text \<open>
  The parser of the shell, \<^verbatim>\<open>src/src/sh.c\<close>. The command line is the list of its bytes before the terminating zero, so that \<open>es\<close> is its length; a
  pointer into it is an index. A \<open>struct cmd\<close> is a value of a datatype; the arguments of an \<open>execcmd\<close>, which the code adds to a
  structure it has already wrapped in redirections, are added to the innermost command. \<open>panic\<close> ends the shell's child and is an error. \<open>malloc\<close>, whose result the
  parser uses unchecked, is taken to succeed. The
  functions that call each other have a fuel, which is shown to suffice.
\<close>

section \<open>Commands\<close>

datatype cmd =
    EXEC "(nat \<times> nat) list"
  | REDIR cmd nat nat int int
  | PIPE cmd cmd
  | LIST cmd cmd
  | BACK cmd

definition MAXARGS :: nat where [simp]: "MAXARGS = 10"

fun push_arg :: "nat \<times> nat \<Rightarrow> cmd \<Rightarrow> cmd" where
  "push_arg a (EXEC as) = EXEC (as @ [a])"
| "push_arg a (REDIR c q eq mode fd) = REDIR (push_arg a c) q eq mode fd"
| "push_arg a c = c"

section \<open>Tokens\<close>

definition whitespace :: "u8 list" where "whitespace = [32, 9, 13, 10, 11]"
definition symbols :: "u8 list" where "symbols = [60, 124, 62, 38, 59, 40, 41]"

definition byte_at :: "u8 list \<Rightarrow> nat \<Rightarrow> u8" where
  "byte_at b i = (if i < length b then b ! i else 0)"

definition strchr :: "u8 list \<Rightarrow> u8 \<Rightarrow> bool" where
  "strchr xs c \<longleftrightarrow> c \<in> set xs"

function skip_ws :: "u8 list \<Rightarrow> nat \<Rightarrow> nat" where
  "skip_ws b s = (if s < length b \<and> strchr whitespace (byte_at b s) then skip_ws b (s + 1) else s)"
  by pat_completeness auto
termination
  by (relation "measure (\<lambda>(b, s). length b - s)") auto

function word_end :: "u8 list \<Rightarrow> nat \<Rightarrow> nat" where
  "word_end b s =
    (if s < length b \<and> \<not> strchr whitespace (byte_at b s) \<and> \<not> strchr symbols (byte_at b s) then word_end b (s + 1) else s)"
  by pat_completeness auto
termination
  by (relation "measure (\<lambda>(b, s). length b - s)") auto

declare skip_ws.simps [simp del] word_end.simps [simp del]

text \<open>The token, its start and its end, and the new \<open>*ps\<close>.\<close>

definition gettoken :: "u8 list \<Rightarrow> nat \<Rightarrow> u8 \<times> nat \<times> nat \<times> nat" where
  "gettoken b ps =
    (let s = skip_ws b ps; q = s; c = byte_at b s;
         (ret, s) =
           (if c = 0 then (c, s)
            else if c \<in> {124, 40, 41, 59, 38, 60} then (c, s + 1)
            else if c = 62 then (if byte_at b (s + 1) = 62 then (43, s + 2) else (c, s + 1))
            else (97, word_end b s));
         eq = s
     in (ret, q, eq, skip_ws b s))"

definition peek :: "u8 list \<Rightarrow> nat \<Rightarrow> u8 list \<Rightarrow> bool \<times> nat" where
  "peek b ps toks = (let s = skip_ws b ps in (byte_at b s \<noteq> 0 \<and> strchr toks (byte_at b s), s))"

lemma skip_ws_ge: "s \<le> skip_ws b s \<and> (s \<le> length b \<longrightarrow> skip_ws b s \<le> length b)"
proof (induction b s rule: skip_ws.induct)
  case (1 b s)
  then show ?case using skip_ws.simps [of b s] by auto
qed

lemma skip_ws_stop: "skip_ws b s < length b \<Longrightarrow> \<not> strchr whitespace (byte_at b (skip_ws b s))"
proof (induction b s rule: skip_ws.induct)
  case (1 b s)
  then show ?case using skip_ws.simps [of b s] by (auto split: if_splits)
qed

lemma word_end_ge: "s \<le> word_end b s \<and> (s \<le> length b \<longrightarrow> word_end b s \<le> length b)"
proof (induction b s rule: word_end.induct)
  case (1 b s)
  then show ?case using word_end.simps [of b s] by auto
qed

definition regular :: "u8 \<Rightarrow> bool" where
  "regular c \<longleftrightarrow> \<not> strchr whitespace c \<and> \<not> strchr symbols c"

lemma word_end_regular: "s \<le> i \<Longrightarrow> i < word_end b s \<Longrightarrow> i < length b \<and> regular (byte_at b i)"
proof (induction b s rule: word_end.induct)
  case (1 b s)
  show ?case
  proof (cases "s < length b \<and> regular (byte_at b s)")
    case True
    then have "word_end b s = word_end b (s + 1)" using word_end.simps [of b s] by (simp add: regular_def)
    then show ?thesis using 1 True by (cases "i = s") (auto simp: regular_def)
  next
    case False
    then have "word_end b s = s" using word_end.simps [of b s] by (auto simp: regular_def)
    then show ?thesis using 1(2,3) by simp
  qed
qed

lemma word_end_stop: "word_end b s < length b \<Longrightarrow> \<not> regular (byte_at b (word_end b s))"
proof (induction b s rule: word_end.induct)
  case (1 b s)
  then show ?case using word_end.simps [of b s] by (auto simp: regular_def split: if_splits)
qed

text \<open>Tokens are not empty before the end, and a token of letters is a longest run of regular bytes.\<close>

definition tok_ok :: "u8 list \<Rightarrow> nat \<Rightarrow> nat \<Rightarrow> bool" where
  "tok_ok b q eq \<longleftrightarrow> q < eq \<and> eq \<le> length b \<and> (\<forall>i. q \<le> i \<longrightarrow> i < eq \<longrightarrow> regular (b ! i)) \<and> (eq < length b \<longrightarrow> \<not> regular (b ! eq))"

lemma byte_lt: "byte_at b s \<noteq> 0 \<Longrightarrow> s < length b"
  by (simp add: byte_at_def split: if_splits)

lemma word_starts:
  assumes "byte_at b s \<noteq> 0" and "\<not> strchr whitespace (byte_at b s)" and "byte_at b s \<notin> {124, 40, 41, 59, 38, 60, 62}"
  shows "s < word_end b s" "word_end b s \<le> length b"
proof -
  have "regular (byte_at b s)" using assms by (auto simp: regular_def strchr_def symbols_def)
  then have "word_end b s = word_end b (s + 1)" using byte_lt [OF assms(1)] word_end.simps [of b s] by (simp add: regular_def)
  then show "s < word_end b s" "word_end b s \<le> length b"
    using word_end_ge [of "s + 1" b] byte_lt [OF assms(1)] by simp_all
qed

lemma gettoken_moves:
  assumes g: "gettoken b ps = (t, q, eq, ps')" and ps: "ps \<le> length b"
  shows "ps \<le> ps'" "ps' \<le> length b" "t \<noteq> 0 \<Longrightarrow> ps < ps'"
proof -
  define s where "s = skip_ws b ps"
  have s: "ps \<le> s" "s \<le> length b" "s < length b \<Longrightarrow> \<not> strchr whitespace (byte_at b s)"
    using skip_ws_ge [of ps b] skip_ws_stop [of b ps] ps by (simp_all add: s_def)
  have "\<exists>e. ps' = skip_ws b e \<and> s \<le> e \<and> e \<le> length b \<and> (t \<noteq> 0 \<longrightarrow> s < e)"
  proof (cases "byte_at b s = 0")
    case True
    then show ?thesis using g s(2) by (auto simp: gettoken_def Let_def s_def)
  next
    case False
    note lt = byte_lt [OF False]
    have nx: "byte_at b (s + 1) = 62 \<Longrightarrow> s + 2 \<le> length b" using byte_lt [of b "s + 1"] by simp
    consider (sym) "byte_at b s \<in> {124, 40, 41, 59, 38, 60}" | (gt) "byte_at b s = 62"
      | (word) "byte_at b s \<notin> {124, 40, 41, 59, 38, 60, 62}" by auto
    then show ?thesis
    proof cases
      case sym
      then show ?thesis using g lt False unfolding gettoken_def Let_def s_def [symmetric] by (intro exI [of _ "s + 1"]) auto
    next
      case gt
      then show ?thesis
        using g lt nx unfolding gettoken_def Let_def s_def [symmetric]
        by (intro exI [of _ "if byte_at b (s + 1) = 62 then s + 2 else s + 1"]) (auto split: if_splits)
    next
      case word
      then show ?thesis
        using g word_starts [OF False s(3) [OF lt] word] False unfolding gettoken_def Let_def s_def [symmetric]
        by (intro exI [of _ "word_end b s"]) auto
    qed
  qed
  then obtain e where e: "ps' = skip_ws b e" "s \<le> e" "e \<le> length b" "t \<noteq> 0 \<longrightarrow> s < e" by blast
  show "ps \<le> ps'" "ps' \<le> length b" "t \<noteq> 0 \<Longrightarrow> ps < ps'" using e s skip_ws_ge [of e b] by auto
qed

lemma gettoken_word:
  assumes g: "gettoken b ps = (97, q, eq, ps')"
  shows "tok_ok b q eq"
proof -
  define s where "s = skip_ws b ps"
  have w: "q = s" "eq = word_end b s" "byte_at b s \<noteq> 0" "byte_at b s \<notin> {124, 40, 41, 59, 38, 60, 62}"
    using g unfolding gettoken_def Let_def s_def [symmetric] by (auto split: if_splits)
  have "\<not> strchr whitespace (byte_at b s)" using skip_ws_stop [of b ps] byte_lt [OF w(3)] by (simp add: s_def)
  note e = word_starts [OF w(3) this w(4)]
  have "regular (b ! i)" if "s \<le> i" "i < word_end b s" for i
    using word_end_regular [OF that] by (simp add: byte_at_def split: if_splits)
  then show ?thesis using e w word_end_stop [of b s] by (simp add: tok_ok_def byte_at_def)
qed

lemma peek_moves:
  assumes "peek b ps toks = (r, ps')" and "ps \<le> length b"
  shows "ps \<le> ps'" "ps' \<le> length b"
  using assms skip_ws_ge [of ps b] by (auto simp: peek_def Let_def)

lemma peek_gettoken:
  assumes p: "peek b ps toks = (True, ps')" and g: "gettoken b ps' = (t, q, eq, ps'')"
  shows "ps < ps''" "ps'' \<le> length b"
proof -
  have s: "ps' = skip_ws b ps" "byte_at b ps' \<noteq> 0" using p by (auto simp: peek_def Let_def)
  have m: "ps \<le> ps'" "ps' < length b" using skip_ws_ge [of ps b] byte_lt [OF s(2)] s(1) by simp_all
  have "\<not> strchr whitespace (byte_at b ps')" using skip_ws_stop [of b ps] m(2) by (simp add: s(1))
  then have "skip_ws b ps' = ps'" using skip_ws.simps [of b ps'] by simp
  then have "t \<noteq> 0" using g s(2) by (auto simp: gettoken_def Let_def split: if_splits)
  then show "ps < ps''" "ps'' \<le> length b" using gettoken_moves [OF g] m by simp_all
qed

lemma peek_measure: "(True, y) = peek b ps toks \<Longrightarrow> (t, q, eq, ps') = gettoken b y \<Longrightarrow> length b - ps' < length b - ps"
  using peek_gettoken [of b ps toks y t q eq ps'] by simp

lemma peek_measure2:
  assumes "(True, y) = peek b ps toks" and "(t, q, eq, z) = gettoken b y" and "(t', q', eq', ps') = gettoken b z"
  shows "length b - ps' < length b - ps"
proof -
  have "ps < z" "z \<le> length b" using peek_gettoken [OF assms(1,2) [symmetric]] by simp_all
  then show ?thesis using gettoken_moves [OF assms(3) [symmetric]] by simp
qed

section \<open>The parser\<close>

text \<open>The loop over \<open>&\<close> in \<open>parseline\<close>.\<close>

function back_loop :: "u8 list \<Rightarrow> cmd \<Rightarrow> nat \<Rightarrow> cmd \<times> nat" where
  "back_loop b c ps =
    (case peek b ps [38] of
       (True, ps) \<Rightarrow> (case gettoken b ps of (t, q, eq, ps) \<Rightarrow> back_loop b (BACK c) ps)
     | (False, ps) \<Rightarrow> (c, ps))"
  by pat_completeness auto
termination
  by (relation "measure (\<lambda>(b, c, ps). length b - ps)") (auto intro: peek_measure)

function parseredirs :: "u8 list \<Rightarrow> cmd \<Rightarrow> nat \<Rightarrow> err + (cmd \<times> nat)" where
  "parseredirs b c ps =
    (case peek b ps [60, 62] of
       (True, ps) \<Rightarrow>
         (case gettoken b ps of (tok, _, _, ps) \<Rightarrow>
         (case gettoken b ps of (t, q, eq, ps) \<Rightarrow>
           if t \<noteq> 97 then Inl (Panic ''missing file for redirection'')
           else
             let c = (if tok = 60 then REDIR c q eq 0 0
                      else if tok = 62 then REDIR c q eq 0x201 1
                      else if tok = 43 then REDIR c q eq 0x201 1 else c)
             in parseredirs b c ps))
     | (False, ps) \<Rightarrow> Inr (c, ps))"
  by pat_completeness auto
termination
  by (relation "measure (\<lambda>(b, c, ps). length b - ps)") (auto intro: peek_measure2)

text \<open>The loop over the arguments in \<open>parseexec\<close>; every turn that goes on increases \<open>argc\<close>, which stays below \<open>MAXARGS\<close>.\<close>

function parse_args :: "u8 list \<Rightarrow> cmd \<Rightarrow> nat \<Rightarrow> nat \<Rightarrow> err + (cmd \<times> nat)" where
  "parse_args b c argc ps =
    (case peek b ps [124, 41, 38, 59] of
       (True, ps) \<Rightarrow> Inr (c, ps)
     | (False, ps) \<Rightarrow>
         (case gettoken b ps of (tok, q, eq, ps) \<Rightarrow>
           if tok = 0 then Inr (c, ps)
           else if tok \<noteq> 97 then Inl (Panic ''syntax'')
           else
             let c = push_arg (q, eq) c; argc = argc + 1 in
             if argc \<ge> MAXARGS then Inl (Panic ''too many args'')
             else bindE (parseredirs b c ps) (\<lambda>(c, ps). parse_args b c argc ps)))"
  by pat_completeness auto
termination
  by (relation "measure (\<lambda>(b, c, argc, ps). MAXARGS - argc)") auto

declare back_loop.simps [simp del] parseredirs.simps [simp del] parse_args.simps [simp del]

fun parseline :: "nat \<Rightarrow> u8 list \<Rightarrow> nat \<Rightarrow> err + (cmd \<times> nat)"
  and parsepipe :: "nat \<Rightarrow> u8 list \<Rightarrow> nat \<Rightarrow> err + (cmd \<times> nat)"
  and parseblock :: "nat \<Rightarrow> u8 list \<Rightarrow> nat \<Rightarrow> err + (cmd \<times> nat)"
  and parseexec :: "nat \<Rightarrow> u8 list \<Rightarrow> nat \<Rightarrow> err + (cmd \<times> nat)" where
  "parseline 0 b ps = Inl NoFuel"
| "parseline (Suc n) b ps =
    bindE (parsepipe n b ps) (\<lambda>(c, ps).
    case back_loop b c ps of (c, ps) \<Rightarrow>
    (case peek b ps [59] of
       (True, ps) \<Rightarrow>
         (case gettoken b ps of (_, _, _, ps) \<Rightarrow>
          bindE (parseline n b ps) (\<lambda>(d, ps). Inr (LIST c d, ps)))
     | (False, ps) \<Rightarrow> Inr (c, ps)))"
| "parsepipe 0 b ps = Inl NoFuel"
| "parsepipe (Suc n) b ps =
    bindE (parseexec n b ps) (\<lambda>(c, ps).
    (case peek b ps [124] of
       (True, ps) \<Rightarrow>
         (case gettoken b ps of (_, _, _, ps) \<Rightarrow>
          bindE (parsepipe n b ps) (\<lambda>(d, ps). Inr (PIPE c d, ps)))
     | (False, ps) \<Rightarrow> Inr (c, ps)))"
| "parseblock 0 b ps = Inl NoFuel"
| "parseblock (Suc n) b ps =
    (case peek b ps [40] of
       (False, ps) \<Rightarrow> Inl (Panic ''parseblock'')
     | (True, ps) \<Rightarrow>
         (case gettoken b ps of (_, _, _, ps) \<Rightarrow>
          bindE (parseline n b ps) (\<lambda>(c, ps).
          (case peek b ps [41] of
             (False, ps) \<Rightarrow> Inl (Panic ''syntax - missing )'')
           | (True, ps) \<Rightarrow>
               (case gettoken b ps of (_, _, _, ps) \<Rightarrow> parseredirs b c ps)))))"
| "parseexec 0 b ps = Inl NoFuel"
| "parseexec (Suc n) b ps =
    (case peek b ps [40] of
       (True, ps) \<Rightarrow> parseblock n b ps
     | (False, ps) \<Rightarrow>
         bindE (parseredirs b (EXEC []) ps) (\<lambda>(c, ps). parse_args b c 0 ps))"

fun nulterminate :: "cmd \<Rightarrow> u8 list \<Rightarrow> u8 list" where
  "nulterminate (EXEC as) b = fold (\<lambda>(q, eq) b. b[eq := 0]) as b"
| "nulterminate (REDIR c q eq mode fd) b = (nulterminate c b)[eq := 0]"
| "nulterminate (PIPE l r) b = nulterminate r (nulterminate l b)"
| "nulterminate (LIST l r) b = nulterminate r (nulterminate l b)"
| "nulterminate (BACK c) b = nulterminate c b"

definition parsecmd :: "u8 list \<Rightarrow> err + (cmd \<times> u8 list)" where
  "parsecmd b =
    bindE (parseline (4 * length b + 4) b 0) (\<lambda>(c, ps).
    case peek b ps [] of (_, ps) \<Rightarrow>
    if ps \<noteq> length b then Inl (Panic ''syntax'') else Inr (c, nulterminate c b))"

section \<open>What the parser promises\<close>

fun cmd_ok :: "u8 list \<Rightarrow> cmd \<Rightarrow> bool" where
  "cmd_ok b (EXEC as) \<longleftrightarrow> length as < MAXARGS \<and> list_all (\<lambda>(q, eq). tok_ok b q eq) as"
| "cmd_ok b (REDIR c q eq mode fd) \<longleftrightarrow> cmd_ok b c \<and> tok_ok b q eq \<and> (mode, fd) \<in> {(0, 0), (0x201, 1)}"
| "cmd_ok b (PIPE l r) \<longleftrightarrow> cmd_ok b l \<and> cmd_ok b r"
| "cmd_ok b (LIST l r) \<longleftrightarrow> cmd_ok b l \<and> cmd_ok b r"
| "cmd_ok b (BACK c) \<longleftrightarrow> cmd_ok b c"

text \<open>A result of a parsing function started at \<open>ps\<close>.\<close>

fun is_panic :: "err \<Rightarrow> bool" where
  "is_panic (Panic m) = True"
| "is_panic e = False"

definition parsed :: "u8 list \<Rightarrow> nat \<Rightarrow> err + (cmd \<times> nat) \<Rightarrow> bool" where
  "parsed b ps r \<longleftrightarrow> (case r of Inl e \<Rightarrow> is_panic e | Inr (c, p) \<Rightarrow> cmd_ok b c \<and> ps \<le> p \<and> p \<le> length b)"

lemma parsed_bind:
  assumes "parsed b ps r" and "\<And>c p. cmd_ok b c \<Longrightarrow> ps \<le> p \<Longrightarrow> p \<le> length b \<Longrightarrow> parsed b ps (f (c, p))"
  shows "parsed b ps (bindE r f)"
  using assms by (cases r) (auto simp: parsed_def)

lemma parsed_later: "parsed b p r \<Longrightarrow> ps \<le> p \<Longrightarrow> parsed b ps r"
  by (auto simp: parsed_def split: sum.splits)

lemma back_loop_ok:
  "cmd_ok b c \<Longrightarrow> ps \<le> length b \<Longrightarrow> back_loop b c ps = (c', p) \<Longrightarrow> cmd_ok b c' \<and> ps \<le> p \<and> p \<le> length b"
proof (induction b c ps rule: back_loop.induct)
  case (1 b c ps)
  obtain r y where k: "peek b ps [38] = (r, y)" by fastforce
  obtain t q eq z where g: "gettoken b y = (t, q, eq, z)" by (metis prod_cases4)
  show ?case
  proof (cases r)
    case True
    then have m: "ps < z" "z \<le> length b" using peek_gettoken [OF _ g] k by simp_all
    have "back_loop b (BACK c) z = (c', p)" using 1(4) back_loop.simps [of b c ps] k g True by simp
    then have "cmd_ok b c' \<and> z \<le> p \<and> p \<le> length b"
      using 1(1) [OF k [symmetric] _ g [symmetric] refl refl] 1(2) True m by simp
    then show ?thesis using m by simp
  next
    case False
    then show ?thesis using 1(2-4) back_loop.simps [of b c ps] k peek_moves [OF k 1(3)] by simp
  qed
qed

fun simple :: "cmd \<Rightarrow> bool" where
  "simple (EXEC as) = True"
| "simple (REDIR c q eq mode fd) = simple c"
| "simple c = False"

fun nargs :: "cmd \<Rightarrow> nat" where
  "nargs (EXEC as) = length as"
| "nargs (REDIR c q eq mode fd) = nargs c"
| "nargs c = 0"

lemma push_arg_ok:
  "cmd_ok b c \<Longrightarrow> simple c \<Longrightarrow> tok_ok b q eq \<Longrightarrow> nargs c + 1 < MAXARGS \<Longrightarrow>
    cmd_ok b (push_arg (q, eq) c) \<and> simple (push_arg (q, eq) c) \<and> nargs (push_arg (q, eq) c) = nargs c + 1"
  by (induction c) auto

lemma parseredirs_ok:
  "cmd_ok b c \<Longrightarrow> ps \<le> length b \<Longrightarrow> parsed b ps (parseredirs b c ps) \<and>
    (\<forall>c' p. simple c \<longrightarrow> parseredirs b c ps = Inr (c', p) \<longrightarrow> simple c' \<and> nargs c' = nargs c)"
proof (induction b c ps rule: parseredirs.induct)
  case (1 b c ps)
  obtain r y where k: "peek b ps [60, 62] = (r, y)" by fastforce
  obtain tok q0 eq0 z where g: "gettoken b y = (tok, q0, eq0, z)" by (metis prod_cases4)
  obtain t q eq p where h: "gettoken b z = (t, q, eq, p)" by (metis prod_cases4)
  show ?case
  proof (cases r)
    case False
    then show ?thesis using 1(2,3) k peek_moves [OF k 1(3)] by (simp add: parseredirs.simps [of b c ps] parsed_def)
  next
    case r: True
    then have m: "ps < z" "z \<le> length b" using peek_gettoken [OF _ g] k by simp_all
    have m2: "ps \<le> p" "p \<le> length b" using m gettoken_moves [OF h m(2)] by simp_all
    show ?thesis
    proof (cases "t = 97")
      case False
      then show ?thesis using k g h r by (simp add: parseredirs.simps [of b c ps] parsed_def)
    next
      case t: True
      define c1 where "c1 = (if tok = 60 then REDIR c q eq 0 0 else if tok = 62 then REDIR c q eq 0x201 1
          else if tok = 43 then REDIR c q eq 0x201 1 else c)"
      have eq: "parseredirs b c ps = parseredirs b c1 p" using k g h r t by (simp add: parseredirs.simps [of b c ps] c1_def)
      have "tok_ok b q eq" using gettoken_word h t by simp
      then have ok: "cmd_ok b c1" "simple c \<Longrightarrow> simple c1 \<and> nargs c1 = nargs c" using 1(2) by (auto simp: c1_def)
      have ih: "parsed b p (parseredirs b c1 p) \<and> (\<forall>c' p'. simple c1 \<longrightarrow> parseredirs b c1 p = Inr (c', p') \<longrightarrow> simple c' \<and> nargs c' = nargs c1)"
        by (rule 1(1) [OF k [symmetric] _ g [symmetric] refl refl h [symmetric] refl refl _ c1_def ok(1) m2(2)]) (use r t in simp_all)
      show ?thesis unfolding eq
      proof (intro conjI allI impI)
        show "parsed b ps (parseredirs b c1 p)" by (rule parsed_later [OF conjunct1 [OF ih] m2(1)])
        fix c' p' assume s: "simple c" and i: "parseredirs b c1 p = Inr (c', p')"
        have "simple c' \<and> nargs c' = nargs c1" using conjunct2 [OF ih] ok(2) [OF s] i by blast
        then show "simple c'" "nargs c' = nargs c" using ok(2) [OF s] by simp_all
      qed
    qed
  qed
qed

lemma parse_args_ok:
  "cmd_ok b c \<Longrightarrow> simple c \<Longrightarrow> nargs c = argc \<Longrightarrow> ps \<le> length b \<Longrightarrow> parsed b ps (parse_args b c argc ps)"
proof (induction b c argc ps rule: parse_args.induct)
  case (1 b c argc ps)
  obtain r y where k: "peek b ps [124, 41, 38, 59] = (r, y)" by fastforce
  obtain t q eq p where g: "gettoken b y = (t, q, eq, p)" by (metis prod_cases4)
  note y = peek_moves [OF k 1(5)]
  note p = gettoken_moves(1,2) [OF g y(2)]
  show ?case
  proof (cases "r \<or> t \<noteq> 97 \<or> argc + 1 \<ge> MAXARGS")
    case True
    then show ?thesis using k g y p 1(2) by (cases r) (auto simp: parse_args.simps [of b c argc ps] parsed_def Let_def)
  next
    case False
    then have f: "\<not> r" "t = 97" "\<not> argc + 1 \<ge> MAXARGS" by simp_all
    define c1 where "c1 = push_arg (q, eq) c"
    have "tok_ok b q eq" using gettoken_word g f(2) by simp
    then have c1: "cmd_ok b c1" "simple c1" "nargs c1 = argc + 1" using push_arg_ok [OF 1(2,3)] 1(4) f(3) by (simp_all add: c1_def)
    have eq: "parse_args b c argc ps = bindE (parseredirs b c1 p) (\<lambda>(c, ps). parse_args b c (argc + 1) ps)"
      using k g f by (simp add: parse_args.simps [of b c argc ps] c1_def)
    note rd = parseredirs_ok [OF c1(1) p(2)]
    show ?thesis
    proof (cases "parseredirs b c1 p")
      case (Inl e)
      then show ?thesis unfolding eq using rd by (simp add: parsed_def)
    next
      case (Inr x)
      then obtain c2 p2 where x: "parseredirs b c1 p = Inr (c2, p2)" by (cases x) simp
      then have c2: "cmd_ok b c2" "simple c2" "nargs c2 = argc + 1" "p \<le> p2" "p2 \<le> length b"
        using rd c1 by (auto simp: parsed_def)
      have "parsed b p2 (parse_args b c2 (argc + 1) p2)"
        by (rule 1(1) [OF k [symmetric] _ g [symmetric] refl refl _ _ c1_def refl _ x refl c2(1,2,3,5)]) (use f in simp_all)
      then show ?thesis unfolding eq x using parsed_later [of b p2 _ ps] c2(4) p y by simp
    qed
  qed
qed

lemma after_symbol:
  assumes "peek b p [x] = (True, y)" and "gettoken b y = (t, q, eq, z)" and "ps \<le> p"
  shows "ps < z" "z \<le> length b"
  using peek_gettoken [OF assms(1,2)] assms(3) by simp_all

lemma parse_ok:
  "ps \<le> length b \<Longrightarrow> 4 * (length b - ps) + 4 \<le> n \<Longrightarrow> parsed b ps (parseline n b ps)"
  "ps \<le> length b \<Longrightarrow> 4 * (length b - ps) + 3 \<le> n \<Longrightarrow> parsed b ps (parsepipe n b ps)"
  "ps \<le> length b \<Longrightarrow> 4 * (length b - ps) + 1 \<le> n \<Longrightarrow> parsed b ps (parseblock n b ps)"
  "ps \<le> length b \<Longrightarrow> 4 * (length b - ps) + 2 \<le> n \<Longrightarrow> parsed b ps (parseexec n b ps)"
proof (induction n arbitrary: ps)
  case (Suc n)
  {
    case 1
    show ?case unfolding parseline.simps
    proof (rule parsed_bind)
      show "parsed b ps (parsepipe n b ps)" using Suc(2) [of ps] 1 by simp
    next
      fix c p assume c: "cmd_ok b c" "ps \<le> p" "p \<le> length b"
      obtain c1 p1 where bl: "back_loop b c p = (c1, p1)" by fastforce
      then have c1: "cmd_ok b c1" "ps \<le> p1" "p1 \<le> length b" using back_loop_ok [OF c(1,3) bl] c by simp_all
      obtain r y where k: "peek b p1 [59] = (r, y)" by fastforce
      obtain t q eq z where g: "gettoken b y = (t, q, eq, z)" by (metis prod_cases4)
      show "parsed b ps (case (c, p) of (c, ps) \<Rightarrow> case back_loop b c ps of (c, ps) \<Rightarrow> (case peek b ps [59] of (True, ps) \<Rightarrow>
          (case gettoken b ps of (_, _, _, ps) \<Rightarrow> bindE (parseline n b ps) (\<lambda>(d, ps). Inr (LIST c d, ps))) | (False, ps) \<Rightarrow> Inr (c, ps)))"
      proof (cases r)
        case True
        then have z: "ps < z" "z \<le> length b" using after_symbol [OF _ g c1(2)] k by simp_all
        then have "parsed b z (parseline n b z)" using Suc(1) [of z] 1 by simp
        then have "parsed b ps (parseline n b z)" by (rule parsed_later) (use z in simp)
        then have "parsed b ps (bindE (parseline n b z) (\<lambda>(d, ps). Inr (LIST c1 d, ps)))"
          by (rule parsed_bind) (use c1 in \<open>simp add: parsed_def\<close>)
        then show ?thesis using bl k g True by simp
      next
        case False
        then show ?thesis using bl k c1 peek_moves [OF k c1(3)] by (simp add: parsed_def)
      qed
    qed
  next
    case 2
    show ?case unfolding parsepipe.simps
    proof (rule parsed_bind)
      show "parsed b ps (parseexec n b ps)" using Suc(4) [of ps] 2 by simp
    next
      fix c p assume c: "cmd_ok b c" "ps \<le> p" "p \<le> length b"
      obtain r y where k: "peek b p [124] = (r, y)" by fastforce
      obtain t q eq z where g: "gettoken b y = (t, q, eq, z)" by (metis prod_cases4)
      show "parsed b ps (case (c, p) of (c, ps) \<Rightarrow> (case peek b ps [124] of (True, ps) \<Rightarrow>
          (case gettoken b ps of (_, _, _, ps) \<Rightarrow> bindE (parsepipe n b ps) (\<lambda>(d, ps). Inr (PIPE c d, ps))) | (False, ps) \<Rightarrow> Inr (c, ps)))"
      proof (cases r)
        case True
        then have z: "ps < z" "z \<le> length b" using after_symbol [OF _ g c(2)] k by simp_all
        then have "parsed b z (parsepipe n b z)" using Suc(2) [of z] 2 by simp
        then have "parsed b ps (parsepipe n b z)" by (rule parsed_later) (use z in simp)
        then have "parsed b ps (bindE (parsepipe n b z) (\<lambda>(d, ps). Inr (PIPE c d, ps)))"
          by (rule parsed_bind) (use c in \<open>simp add: parsed_def\<close>)
        then show ?thesis using k g True by simp
      next
        case False
        then show ?thesis using k c peek_moves [OF k c(3)] by (simp add: parsed_def)
      qed
    qed
  next
    case 3
    obtain r y where k: "peek b ps [40] = (r, y)" by fastforce
    obtain t q eq z where g: "gettoken b y = (t, q, eq, z)" by (metis prod_cases4)
    show ?case
    proof (cases r)
      case True
      then have z: "ps < z" "z \<le> length b" using after_symbol [OF _ g order_refl] k by simp_all
      then have l: "parsed b z (parseline n b z)" using Suc(1) [of z] 3 by simp
      have "parsed b z (bindE (parseline n b z) (\<lambda>(c, ps). case peek b ps [41] of (False, ps) \<Rightarrow> Inl (Panic ''syntax - missing )'')
           | (True, ps) \<Rightarrow> (case gettoken b ps of (_, _, _, ps) \<Rightarrow> parseredirs b c ps)))"
      proof (rule parsed_bind [OF l])
        fix c p assume c: "cmd_ok b c" "z \<le> p" "p \<le> length b"
        obtain r' y' where k': "peek b p [41] = (r', y')" by fastforce
        obtain t' q' eq' z' where g': "gettoken b y' = (t', q', eq', z')" by (metis prod_cases4)
        have "parsed b z (parseredirs b c z')" if r'
        proof -
          have zz: "z < z'" "z' \<le> length b" using after_symbol [OF _ g' c(2)] k' that by simp_all
          then show ?thesis using parseredirs_ok [OF c(1) zz(2)] parsed_later [of b z' _ z] by simp
        qed
        then show "parsed b z (case (c, p) of (c, ps) \<Rightarrow> (case peek b ps [41] of (False, ps) \<Rightarrow> Inl (Panic ''syntax - missing )'')
           | (True, ps) \<Rightarrow> (case gettoken b ps of (_, _, _, ps) \<Rightarrow> parseredirs b c ps)))"
          using k' g' by (cases r') (simp_all add: parsed_def)
      qed
      then show ?thesis using k g True parsed_later [of b z _ ps] z by simp
    qed (use k in \<open>simp add: parsed_def\<close>)
  next
    case 4
    obtain r y where k: "peek b ps [40] = (r, y)" by fastforce
    note y = peek_moves [OF k 4(1)]
    show ?case
    proof (cases r)
      case True
      have "parsed b y (parseblock n b y)" using Suc(3) [of y] y 4 by simp
      then show ?thesis using k True y parsed_later [of b y _ ps] by simp
    next
      case False
      have e: "cmd_ok b (EXEC [])" by simp
      note rd = parseredirs_ok [OF e y(2)]
      have "parsed b y (bindE (parseredirs b (EXEC []) y) (\<lambda>(c, ps). parse_args b c 0 ps))"
      proof (cases "parseredirs b (EXEC []) y")
        case (Inl e)
        then show ?thesis using rd by (simp add: parsed_def)
      next
        case (Inr x)
        then obtain c p where x: "parseredirs b (EXEC []) y = Inr (c, p)" by (cases x) simp
        then have "cmd_ok b c" "simple c" "nargs c = 0" "y \<le> p" "p \<le> length b" using rd by (auto simp: parsed_def)
        then show ?thesis using x parse_args_ok [of b c 0 p] parsed_later [of b p _ y] by simp
      qed
      then show ?thesis using k False y parsed_later [of b y _ ps] by simp
    qed
  }
qed simp_all

lemma parsecmd_wf: "case parsecmd b of Inl e \<Rightarrow> is_panic e | Inr (c, b') \<Rightarrow> cmd_ok b c"
proof -
  have "parsed b 0 (parseline (4 * length b + 4) b 0)" by (rule parse_ok) simp_all
  then show ?thesis
    by (cases "parseline (4 * length b + 4) b 0") (auto simp: parsecmd_def parsed_def split: prod.splits)
qed

text \<open>C28. The parser is total and its results are well formed: on every command line \<open>parsecmd\<close> ends with one of its own complaints or with a command in which every
  simple command has fewer than \<open>MAXARGS\<close> arguments, every argument and file name is a longest run of regular bytes of the line, and every redirection
  is reading on descriptor 0 or writing on descriptor 1. The fuel always suffices.\<close>

theorem parsecmd_well_formed:
  "case parsecmd b of Inl e \<Rightarrow> is_panic e | Inr (c, b') \<Rightarrow> cmd_ok b c"
  by (rule parsecmd_wf)

section \<open>The strings of a command\<close>

fun toks :: "cmd \<Rightarrow> (nat \<times> nat) list" where
  "toks (EXEC as) = as"
| "toks (REDIR c q eq mode fd) = toks c @ [(q, eq)]"
| "toks (PIPE l r) = toks l @ toks r"
| "toks (LIST l r) = toks l @ toks r"
| "toks (BACK c) = toks c"

lemma nulterminate_toks: "nulterminate c b = fold (\<lambda>(q, eq) b. b[eq := 0]) (toks c) b"
  by (induction c arbitrary: b) simp_all

lemma nul_fold:
  "length (fold (\<lambda>(q, eq) b. b[eq := 0]) ts b) = length b"
  "i < length b \<Longrightarrow> fold (\<lambda>(q, eq) b. b[eq := 0 :: u8]) ts b ! i = (if i \<in> snd ` set ts then 0 else b ! i)"
proof (induction ts arbitrary: b)
  case (Cons t ts)
  {
    case 1
    then show ?case using Cons.IH(1) by (simp add: case_prod_beta)
  next
    case 2
    then show ?case using Cons.IH(2) [of "b[snd t := 0]"] by (auto simp: case_prod_beta nth_list_update)
  }
qed simp_all

lemma cmd_ok_toks: "cmd_ok b c \<Longrightarrow> (q, eq) \<in> set (toks c) \<Longrightarrow> tok_ok b q eq"
  by (induction c) (auto simp: list_all_iff)

lemma takeWhile_slice:
  assumes "q + n \<le> length b" and "\<forall>i<n. b ! (q + i) \<noteq> (0 :: u8)" and "q + n < length b \<Longrightarrow> b ! (q + n) = 0"
  shows "takeWhile (\<lambda>x. x \<noteq> 0) (drop q b) = take n (drop q b)"
  by (rule takeWhile_eq_take_P_nth) (use assms in \<open>auto simp: less_diff_conv\<close>)

text \<open>C29. The strings of a parsed command are its tokens: after \<open>nulterminate\<close> the C string at the start of every argument and file name is exactly the token, although
  all the zeros go into the one buffer that the tokens share.\<close>

theorem nulterminate_strings:
  assumes p: "parsecmd b = Inr (c, b')" and z: "0 \<notin> set b" and t: "(q, eq) \<in> set (toks c)"
  shows "takeWhile (\<lambda>x. x \<noteq> 0) (drop q b') = take (eq - q) (drop q b)"
proof -
  have ok: "cmd_ok b c" using parsecmd_wf [of b] p by simp
  have b': "b' = fold (\<lambda>(q, eq) b. b[eq := 0]) (toks c) b"
    using p by (cases "parseline (4 * length b + 4) b 0") (auto simp: parsecmd_def nulterminate_toks split: if_splits prod.splits)
  have tk: "tok_ok b q eq" by (rule cmd_ok_toks [OF ok t])
  have keep: "b' ! i = b ! i" if "q \<le> i" "i < eq" for i
  proof -
    have r: "regular (b ! i)" "i < length b" using tk that by (auto simp: tok_ok_def)
    have "i \<notin> snd ` set (toks c)"
    proof
      assume "i \<in> snd ` set (toks c)"
      then obtain q' where "(q', i) \<in> set (toks c)" by auto
      then show False using cmd_ok_toks [OF ok] r by (auto simp: tok_ok_def)
    qed
    then show ?thesis using nul_fold(2) [OF r(2), of "toks c"] by (simp add: b')
  qed
  have len: "length b' = length b" by (simp add: b' nul_fold(1))
  have e: "q < eq" "eq \<le> length b" using tk by (simp_all add: tok_ok_def)
  have "takeWhile (\<lambda>x. x \<noteq> 0) (drop q b') = take (eq - q) (drop q b')"
  proof (rule takeWhile_slice)
    show "\<forall>i<eq - q. b' ! (q + i) \<noteq> 0"
    proof (intro allI impI)
      fix i assume "i < eq - q"
      then have "b' ! (q + i) = b ! (q + i)" "q + i < length b" using keep [of "q + i"] e by simp_all
      then show "b' ! (q + i) \<noteq> 0" using z by (metis nth_mem)
    qed
    show "b' ! (q + (eq - q)) = 0" if "q + (eq - q) < length b'"
    proof -
      have "eq \<in> snd ` set (toks c)" using t by force
      then show ?thesis using nul_fold(2) [of eq b "toks c"] that e len by (simp add: b')
    qed
  qed (use e len in simp)
  also have "\<dots> = take (eq - q) (drop q b)"
    by (rule nth_equalityI) (use keep len e in auto)
  finally show ?thesis .
qed

theorem nulterminate_strings_witness:
  "\<exists>c b'. parsecmd [108, 115, 62, 102] = Inr (c, b') \<and> takeWhile (\<lambda>x. x \<noteq> 0) (drop 0 b') = [108, 115]"
proof -
  have "parsecmd [108, 115, 62, 102] = Inr (REDIR (EXEC [(0, 2)]) 3 4 0x201 1, [108, 115, 0, 102])" by code_simp
  from nulterminate_strings [OF this, of 0 2] show ?thesis using \<open>parsecmd _ = _\<close> by simp
qed

end
