(* ===== verification/Apic.thy ===== *)
theory Apic
  imports Machine Traps
begin

text \<open>
  The interrupt controllers and the clock of the machine, \<^verbatim>\<open>src/src/lapic.c\<close>, \<^verbatim>\<open>src/src/ioapic.c\<close>, \<^verbatim>\<open>src/src/picirq.c\<close>, and the set-up of the serial port in
  \<^verbatim>\<open>src/src/uart.c\<close>. What the code stores in device registers and ports is kept as a list in the state; what it
  reads from them is an argument: a list of the values, in the order of the reads, whose end is a read that has not happened yet. \<open>microdelay\<close> does nothing.
\<close>

section \<open>State\<close>

record devst =
  lapic_ptr :: u32
  lapic_writes :: "(nat \<times> u32) list"
  ports :: "(u16 \<times> u8) list"
  ioapic_regs :: "nat \<Rightarrow> u32"
  uart :: bool

section \<open>The local controller\<close>

definition r_TPR :: nat where [simp]: "r_TPR = 0x80 div 4"
definition r_EOI :: nat where [simp]: "r_EOI = 0xB0 div 4"
definition r_SVR :: nat where [simp]: "r_SVR = 0xF0 div 4"
definition r_ESR :: nat where [simp]: "r_ESR = 0x280 div 4"
definition r_ICRLO :: nat where [simp]: "r_ICRLO = 0x300 div 4"
definition r_ICRHI :: nat where [simp]: "r_ICRHI = 0x310 div 4"
definition r_TIMER :: nat where [simp]: "r_TIMER = 0x320 div 4"
definition r_PCINT :: nat where [simp]: "r_PCINT = 0x340 div 4"
definition r_LINT0 :: nat where [simp]: "r_LINT0 = 0x350 div 4"
definition r_LINT1 :: nat where [simp]: "r_LINT1 = 0x360 div 4"
definition r_ERROR :: nat where [simp]: "r_ERROR = 0x370 div 4"
definition r_TICR :: nat where [simp]: "r_TICR = 0x380 div 4"
definition r_TDCR :: nat where [simp]: "r_TDCR = 0x3E0 div 4"

definition c_ENABLE :: u32 where [simp]: "c_ENABLE = 0x100"
definition c_INIT :: u32 where [simp]: "c_INIT = 0x500"
definition c_STARTUP :: u32 where [simp]: "c_STARTUP = 0x600"
definition c_DELIVS :: u32 where [simp]: "c_DELIVS = 0x1000"
definition c_ASSERT :: u32 where [simp]: "c_ASSERT = 0x4000"
definition c_LEVEL :: u32 where [simp]: "c_LEVEL = 0x8000"
definition c_BCAST :: u32 where [simp]: "c_BCAST = 0x80000"
definition c_X1 :: u32 where [simp]: "c_X1 = 0xB"
definition c_PERIODIC :: u32 where [simp]: "c_PERIODIC = 0x20000"
definition c_MASKED :: u32 where [simp]: "c_MASKED = 0x10000"

definition lapicw :: "nat \<Rightarrow> u32 \<Rightarrow> devst \<Rightarrow> devst" where
  "lapicw index v s = s\<lparr>lapic_writes := lapic_writes s @ [(index, v)]\<rparr>"

text \<open>The wait until the delivery status is clear, over the values read.\<close>

fun wait_delivs :: "u32 list \<Rightarrow> devst \<Rightarrow> err + devst" where
  "wait_delivs [] s = Inl WouldBlock"
| "wait_delivs (v # vs) s = (if v AND c_DELIVS \<noteq> 0 then wait_delivs vs s else Inr s)"

definition lapicinit :: "u32 \<Rightarrow> u32 list \<Rightarrow> devst \<Rightarrow> err + devst" where
  "lapicinit ver icrlo s =
    (if lapic_ptr s = 0 then Inr s
     else
       let s = lapicw r_SVR (c_ENABLE OR (T_IRQ0 + IRQ_SPURIOUS)) s;
           s = lapicw r_TDCR c_X1 s;
           s = lapicw r_TIMER (c_PERIODIC OR (T_IRQ0 + IRQ_TIMER)) s;
           s = lapicw r_TICR 10000000 s;
           s = lapicw r_LINT0 c_MASKED s;
           s = lapicw r_LINT1 c_MASKED s;
           s = (if drop_bit 16 ver AND 0xFF \<ge> 4 then lapicw r_PCINT c_MASKED s else s);
           s = lapicw r_ERROR (T_IRQ0 + IRQ_ERROR) s;
           s = lapicw r_ESR 0 s;
           s = lapicw r_ESR 0 s;
           s = lapicw r_EOI 0 s;
           s = lapicw r_ICRHI 0 s;
           s = lapicw r_ICRLO (c_BCAST OR c_INIT OR c_LEVEL) s
       in bindE (wait_delivs icrlo s) (\<lambda>s. Inr (lapicw r_TPR 0 s)))"

definition lapicid :: "u32 \<Rightarrow> devst \<Rightarrow> u32" where
  "lapicid idreg s = (if lapic_ptr s = 0 then 0 else drop_bit 24 idreg)"

definition lapiceoi :: "devst \<Rightarrow> devst" where
  "lapiceoi s = (if lapic_ptr s \<noteq> 0 then lapicw r_EOI 0 s else s)"

definition outb :: "u16 \<Rightarrow> u8 \<Rightarrow> devst \<Rightarrow> devst" where
  "outb port v s = s\<lparr>ports := ports s @ [(port, v)]\<rparr>"

definition store16 :: "memory \<Rightarrow> u32 \<Rightarrow> u16 \<Rightarrow> memory" where
  "store16 m a v = m(a := ucast v, a + 1 := ucast (drop_bit 8 v))"

definition lapicstartap :: "u8 \<Rightarrow> u32 \<Rightarrow> memory \<Rightarrow> devst \<Rightarrow> memory \<times> devst" where
  "lapicstartap apicid addr m s =
    (let s = outb 0x70 0xF s; s = outb 0x71 0x0A s;
         wrv = P2V (push_bit 4 0x40 OR 0x67);
         m = store16 m wrv 0;
         m = store16 m (wrv + 2) (ucast (drop_bit 4 addr));
         dest = push_bit 24 (ucast apicid);
         s = lapicw r_ICRHI dest s;
         s = lapicw r_ICRLO (c_INIT OR c_LEVEL OR c_ASSERT) s;
         s = lapicw r_ICRLO (c_INIT OR c_LEVEL) s;
         s = lapicw r_ICRHI dest s;
         s = lapicw r_ICRLO (c_STARTUP OR drop_bit 12 addr) s;
         s = lapicw r_ICRHI dest s;
         s = lapicw r_ICRLO (c_STARTUP OR drop_bit 12 addr) s
     in (m, s))"

section \<open>The clock\<close>

record rtcdate =
  second :: u32
  minute :: u32
  hour :: u32
  day :: u32
  month :: u32
  year :: u32

text \<open>The bytes that the reads return, and those that are left.\<close>

definition cmos_read :: "u8 \<Rightarrow> u8 list \<Rightarrow> devst \<Rightarrow> err + (u32 \<times> u8 list \<times> devst)" where
  "cmos_read reg ins s = (case ins of [] \<Rightarrow> Inl WouldBlock | v # vs \<Rightarrow> Inr (ucast v, vs, outb 0x70 reg s))"

definition fill_rtcdate :: "u8 list \<Rightarrow> devst \<Rightarrow> err + (rtcdate \<times> u8 list \<times> devst)" where
  "fill_rtcdate ins s =
    bindE (cmos_read 0 ins s) (\<lambda>(sec, ins, s).
    bindE (cmos_read 2 ins s) (\<lambda>(mi, ins, s).
    bindE (cmos_read 4 ins s) (\<lambda>(ho, ins, s).
    bindE (cmos_read 7 ins s) (\<lambda>(da, ins, s).
    bindE (cmos_read 8 ins s) (\<lambda>(mo, ins, s).
    bindE (cmos_read 9 ins s) (\<lambda>(ye, ins, s).
    Inr (\<lparr>second = sec, minute = mi, hour = ho, day = da, month = mo, year = ye\<rparr>, ins, s)))))))"

lemma cmos_read_length: "cmos_read r ins s = Inr (v, ins', s') \<Longrightarrow> length ins = Suc (length ins')"
  by (cases ins) (auto simp: cmos_read_def)

lemma fill_rtcdate_length: "fill_rtcdate ins s = Inr (t, ins', s') \<Longrightarrow> length ins = length ins' + 6"
  by (auto simp: fill_rtcdate_def bindE_Inr_iff dest!: cmos_read_length)

function cmos_stable :: "u8 list \<Rightarrow> devst \<Rightarrow> err + (rtcdate \<times> u8 list \<times> devst)" where
  "cmos_stable ins s =
    (case fill_rtcdate ins s of
       Inl e \<Rightarrow> Inl e
     | Inr (t1, ins, s) \<Rightarrow>
         (case cmos_read 0x0a ins s of
            Inl e \<Rightarrow> Inl e
          | Inr (a, ins, s) \<Rightarrow>
              if a AND 0x80 \<noteq> 0 then cmos_stable ins s
              else
                (case fill_rtcdate ins s of
                   Inl e \<Rightarrow> Inl e
                 | Inr (t2, ins, s) \<Rightarrow> if t1 = t2 then Inr (t1, ins, s) else cmos_stable ins s)))"
  by pat_completeness auto
termination
  by (relation "measure (\<lambda>(ins, s). length ins)")
    (auto dest!: fill_rtcdate_length cmos_read_length dest: sym)

declare cmos_stable.simps [simp del]

definition CONV :: "u32 \<Rightarrow> u32" where
  "CONV x = drop_bit 4 x * 10 + (x AND 0xF)"

definition cmostime :: "u8 list \<Rightarrow> devst \<Rightarrow> err + (rtcdate \<times> u8 list \<times> devst)" where
  "cmostime ins s =
    bindE (cmos_read 0x0b ins s) (\<lambda>(sb, ins, s).
    bindE (cmos_stable ins s) (\<lambda>(t, ins, s).
    let t = (if sb AND 4 = 0
             then \<lparr>second = CONV (second t), minute = CONV (minute t), hour = CONV (hour t), day = CONV (day t),
                    month = CONV (month t), year = CONV (year t)\<rparr>
             else t)
    in Inr (t\<lparr>year := year t + 2000\<rparr>, ins, s)))"

section \<open>The other controllers and the serial port\<close>

definition INT_DISABLED :: u32 where [simp]: "INT_DISABLED = 0x10000"
definition REG_TABLE :: nat where [simp]: "REG_TABLE = 0x10"

definition ioapicread :: "nat \<Rightarrow> devst \<Rightarrow> u32" where
  "ioapicread reg s = ioapic_regs s reg"

definition ioapicwrite :: "nat \<Rightarrow> u32 \<Rightarrow> devst \<Rightarrow> devst" where
  "ioapicwrite reg v s = s\<lparr>ioapic_regs := (ioapic_regs s)(reg := v)\<rparr>"

fun ioapic_table :: "nat list \<Rightarrow> devst \<Rightarrow> devst" where
  "ioapic_table [] s = s"
| "ioapic_table (i # is) s =
    ioapic_table is (ioapicwrite (REG_TABLE + 2 * i + 1) 0 (ioapicwrite (REG_TABLE + 2 * i) (INT_DISABLED OR (T_IRQ0 + of_nat i)) s))"

text \<open>The new state, and whether the complaint about the identifier is printed.\<close>

definition ioapicinit :: "u8 \<Rightarrow> devst \<Rightarrow> bool \<times> devst" where
  "ioapicinit ioapicid s =
    (let maxintr = unat (drop_bit 16 (ioapicread 1 s) AND 0xFF); id = drop_bit 24 (ioapicread 0 s)
     in (id \<noteq> ucast ioapicid, ioapic_table [0..<maxintr + 1] s))"

definition ioapicenable :: "nat \<Rightarrow> u32 \<Rightarrow> devst \<Rightarrow> devst" where
  "ioapicenable irq cpunum s =
    ioapicwrite (REG_TABLE + 2 * irq + 1) (push_bit 24 cpunum) (ioapicwrite (REG_TABLE + 2 * irq) (T_IRQ0 + of_nat irq) s)"

definition picinit :: "devst \<Rightarrow> devst" where
  "picinit s = outb 0xA1 0xFF (outb 0x21 0xFF s)"

definition COM1 :: u16 where [simp]: "COM1 = 0x3f8"

text \<open>The state after \<open>uartinit\<close> and the characters it prints, given the line status.\<close>

definition uartinit :: "u8 \<Rightarrow> devst \<Rightarrow> string \<times> devst" where
  "uartinit status s =
    (let s = outb (COM1 + 2) 0 s; s = outb (COM1 + 3) 0x80 s; s = outb COM1 12 s; s = outb (COM1 + 1) 0 s;
         s = outb (COM1 + 3) 3 s; s = outb (COM1 + 4) 0 s; s = outb (COM1 + 1) 1 s
     in if status = 0xFF then ([], s)
        else (''xv6...'' @ [CHR 0x0A], ioapicenable (unat IRQ_COM1) 0 (s\<lparr>uart := True\<rparr>)))"

text \<open>The character received, or \<open>-1\<close>.\<close>

definition uartgetc :: "u8 \<Rightarrow> u8 \<Rightarrow> devst \<Rightarrow> int" where
  "uartgetc status c s = (if \<not> uart s then -1 else if status AND 1 = 0 then -1 else uint c)"

section \<open>What the code relies on\<close>

lemma ioapic_table_regs:
  "ioapic_regs (ioapic_table [a..<b] s) r =
    (if REG_TABLE + 2 * a \<le> r \<and> r < REG_TABLE + 2 * b
     then (if even r then INT_DISABLED OR (T_IRQ0 + of_nat ((r - REG_TABLE) div 2)) else 0) else ioapic_regs s r)"
proof (induction "b - a" arbitrary: a s)
  case 0
  then show ?case by auto
next
  case (Suc k)
  then have l: "[a..<b] = a # [Suc a..<b]" and k: "k = b - Suc a" and ab: "a < b" by (auto simp: upt_rec)
  show ?case
    unfolding l ioapic_table.simps Suc.hyps(1) [OF k]
    using ab by (auto simp: ioapicwrite_def elim!: evenE oddE)
qed

text \<open>After \<open>ioapicinit\<close> and \<open>ioapicenable\<close> exactly the given interrupt is delivered, to the given processor.\<close>

lemma ioapicenable_only:
  fixes c :: u32 and idn :: u8
  assumes "irq \<le> n" and "i \<le> n" and "n = unat (drop_bit 16 (ioapicread 1 s) AND 0xFF)"
  defines "t \<equiv> ioapicenable irq c (snd (ioapicinit idn s))"
  shows "ioapic_regs t (REG_TABLE + 2 * i) = (if i = irq then T_IRQ0 + of_nat i else INT_DISABLED OR (T_IRQ0 + of_nat i))"
    "ioapic_regs t (REG_TABLE + 2 * i + 1) = (if i = irq then push_bit 24 c else 0)"
  using assms(1,2) unfolding t_def ioapicenable_def ioapicinit_def Let_def snd_conv assms(3) [symmetric]
  by (simp_all add: ioapicwrite_def ioapic_table_regs del: upt_Suc)

lemma CONV_bcd:
  assumes "d < 10" and "e < 10"
  shows "CONV (16 * of_nat d + of_nat e) = of_nat (10 * d + e)"
proof -
  have "d \<in> {0, 1, 2, 3, 4, 5, 6, 7, 8, 9}" "e \<in> {0, 1, 2, 3, 4, 5, 6, 7, 8, 9}" using assms by auto
  then show ?thesis by (auto simp: CONV_def)
qed

text \<open>A clock that stands still is read in one round.\<close>

lemma cmos_stable_still:
  assumes "a AND 0x80 = (0 :: u8)"
  shows "\<exists>s'. cmos_stable ([se, mi, ho, da, mo, ye, a, se, mi, ho, da, mo, ye] @ rest) s =
    Inr (\<lparr>second = ucast se, minute = ucast mi, hour = ucast ho, day = ucast da, month = ucast mo, year = ucast ye\<rparr>, rest, s')"
proof -
  have "(ucast a :: u32) AND 0x80 = ucast (a AND 0x80)" by (simp add: unsigned_and_eq)
  then have "(ucast a :: u32) AND 0x80 = 0" using assms by simp
  then show ?thesis by (subst cmos_stable.simps) (simp add: fill_rtcdate_def cmos_read_def)
qed

end
