(* ===== verification/Mp.thy ===== *)
theory Mp
  imports Machine
begin

text \<open>
  Discovery of the processors, \<^verbatim>\<open>src/src/mp.c\<close>: the search for the table that the firmware leaves in memory, its checks, and the
  loop over its entries. Of a \<open>struct cpu\<close> only the identifier of its controller is kept here, so that \<open>ncpu\<close> is the length of the list. The value of an input port is an argument. The loop over the entries does not have to end, so it is a partial function.
\<close>

section \<open>State\<close>

record mpst =
  cpus :: "u8 list"
  ioapicid :: u8
  lapic :: u32
  mp_outs :: "(u16 \<times> u8) list"

definition NCPU :: nat where [simp]: "NCPU = 8"
definition MPPROC :: u8 where [simp]: "MPPROC = 0"
definition MPBUS :: u8 where [simp]: "MPBUS = 1"
definition MPIOAPIC :: u8 where [simp]: "MPIOAPIC = 2"
definition MPIOINTR :: u8 where [simp]: "MPIOINTR = 3"
definition MPLINTR :: u8 where [simp]: "MPLINTR = 4"

definition sizeof_mp :: u32 where [simp]: "sizeof_mp = 16"
definition sizeof_mpconf :: u32 where [simp]: "sizeof_mpconf = 44"
definition sizeof_mpproc :: u32 where [simp]: "sizeof_mpproc = 20"
definition sizeof_mpioapic :: u32 where [simp]: "sizeof_mpioapic = 8"

definition bytes_at :: "memory \<Rightarrow> u32 \<Rightarrow> nat \<Rightarrow> u8 list" where
  "bytes_at m a n = map (\<lambda>i. m (a + of_nat i)) [0..<n]"

section \<open>The search\<close>

definition mp_sum :: "memory \<Rightarrow> u32 \<Rightarrow> nat \<Rightarrow> u8" where
  "mp_sum m addr len = of_int (fold (\<lambda>b s. s + uint b) (bytes_at m addr len) 0)"

text \<open>The number of turns is bounded by the number of structures in the range.\<close>

fun mpsearch1_loop :: "nat \<Rightarrow> memory \<Rightarrow> u32 \<Rightarrow> u32 \<Rightarrow> err + u32" where
  "mpsearch1_loop 0 m p e = (if p < e then Inl NoFuel else Inr 0)"
| "mpsearch1_loop (Suc k) m p e =
    (if p < e then
       if bytes_at m p 4 = [0x5F, 0x4D, 0x50, 0x5F] \<and> mp_sum m p 16 = 0 then Inr p
       else mpsearch1_loop k m (p + sizeof_mp) e
     else Inr 0)"

definition mpsearch1 :: "memory \<Rightarrow> u32 \<Rightarrow> u32 \<Rightarrow> err + u32" where
  "mpsearch1 m a len = mpsearch1_loop ((unat len + 15) div 16) m (P2V a) (P2V a + len)"

definition mpsearch :: "memory \<Rightarrow> err + u32" where
  "mpsearch m =
    (let bda = P2V 0x400; rom = mpsearch1 m 0xF0000 0x10000;
         p = push_bit 4 (push_bit 8 (ucast (m (bda + 0x0F))) OR ucast (m (bda + 0x0E))) :: u32 in
     if p \<noteq> 0 then bindE (mpsearch1 m p 1024) (\<lambda>mp. if mp \<noteq> 0 then Inr mp else rom)
     else
       let p = (push_bit 8 (ucast (m (bda + 0x14))) OR ucast (m (bda + 0x13))) * 1024 in
       bindE (mpsearch1 m (p - 1024) 1024) (\<lambda>mp. if mp \<noteq> 0 then Inr mp else rom))"

definition conf_length :: "memory \<Rightarrow> u32 \<Rightarrow> nat" where
  "conf_length m conf = unat (m (conf + 4)) + 256 * unat (m (conf + 5))"

text \<open>The structure and the table, or \<open>None\<close> for 0.\<close>

definition mpconfig :: "memory \<Rightarrow> err + (u32 \<times> u32) option" where
  "mpconfig m = bindE (mpsearch m) (\<lambda>mp.
     if mp = 0 \<or> load32 m (mp + 4) = 0 then Inr None
     else
       let conf = P2V (load32 m (mp + 4)) in
       if bytes_at m conf 4 \<noteq> [0x50, 0x43, 0x4D, 0x50] then Inr None
       else if m (conf + 6) \<noteq> 1 \<and> m (conf + 6) \<noteq> 4 then Inr None
       else if mp_sum m conf (conf_length m conf) \<noteq> 0 then Inr None
       else Inr (Some (mp, conf)))"

section \<open>The entries\<close>

text \<open>The \<open>break\<close> of the default case leaves the switch, not the loop, and \<open>p\<close> stays where it is.\<close>

partial_function (option) mp_entries :: "memory \<Rightarrow> u32 \<Rightarrow> u32 \<Rightarrow> bool \<Rightarrow> mpst \<Rightarrow> (bool \<times> mpst) option" where
  "mp_entries m p e ismp s =
    (if p < e then
       if m p = MPPROC then
         mp_entries m (p + sizeof_mpproc) e ismp (if length (cpus s) < NCPU then s\<lparr>cpus := cpus s @ [m (p + 1)]\<rparr> else s)
       else if m p = MPIOAPIC then mp_entries m (p + sizeof_mpioapic) e ismp (s\<lparr>ioapicid := m (p + 1)\<rparr>)
       else if m p = MPBUS \<or> m p = MPIOINTR \<or> m p = MPLINTR then mp_entries m (p + 8) e ismp s
       else mp_entries m p e False s
     else Some (ismp, s))"

definition mpinit :: "u8 \<Rightarrow> memory \<Rightarrow> mpst \<Rightarrow> (err + mpst) option" where
  "mpinit in23 m s =
    (case mpconfig m of
       Inl er \<Rightarrow> Some (Inl er)
     | Inr None \<Rightarrow> Some (Inl (Panic ''Expect to run on an SMP''))
     | Inr (Some (mp, conf)) \<Rightarrow>
         (case mp_entries m (conf + sizeof_mpconf) (conf + of_nat (conf_length m conf)) True (s\<lparr>lapic := load32 m (conf + 36)\<rparr>) of
            None \<Rightarrow> None
          | Some (ismp, s) \<Rightarrow>
              if \<not> ismp then Some (Inl (Panic ''Didn't find a suitable machine''))
              else if m (mp + 12) \<noteq> 0 then Some (Inr (s\<lparr>mp_outs := mp_outs s @ [(0x22, 0x70), (0x23, in23 OR 1)]\<rparr>))
              else Some (Inr s)))"

section \<open>The processor that runs\<close>

definition mycpu :: "bool \<Rightarrow> u8 \<Rightarrow> mpst \<Rightarrow> err + nat" where
  "mycpu intr apicid s =
    (if intr then Inl (Panic ''mycpu called with interrupts enabled'')
     else case find (\<lambda>i. cpus s ! i = apicid) [0..<length (cpus s)] of
       None \<Rightarrow> Inl (Panic ''unknown apicid'')
     | Some i \<Rightarrow> Inr i)"


section \<open>The search finds the first structure\<close>

definition mp_here :: "memory \<Rightarrow> u32 \<Rightarrow> bool" where
  "mp_here m p \<longleftrightarrow> bytes_at m p 4 = [0x5F, 0x4D, 0x50, 0x5F] \<and> mp_sum m p 16 = 0"

lemma mpsearch1_loop_find:
  assumes "unat p + 16 * k < 2 ^ 32" and "unat e \<le> unat p + 16 * k" and "unat p + 16 * k < unat e + 16"
  shows "mpsearch1_loop k m p e =
    Inr (case find (\<lambda>i. mp_here m (p + 16 * of_nat i)) [0..<k] of None \<Rightarrow> 0 | Some i \<Rightarrow> p + 16 * of_nat i)"
  using assms
proof (induction k arbitrary: p)
  case 0
  then show ?case by (simp add: word_less_nat_alt)
next
  case (Suc k)
  have lt: "p < e" using Suc.prems by (simp add: word_less_nat_alt)
  have u: "unat (p + 16) = unat p + 16" using Suc.prems(1) by (simp add: unat_word_ariths)
  have ih: "mpsearch1_loop k m (p + 16) e =
      Inr (case find (\<lambda>i. mp_here m (p + 16 + 16 * of_nat i)) [0..<k] of None \<Rightarrow> 0 | Some i \<Rightarrow> p + 16 + 16 * of_nat i)"
    by (rule Suc.IH) (use Suc.prems in \<open>simp_all add: u\<close>)
  have l: "[0..<Suc k] = 0 # map Suc [0..<k]" by (simp add: map_Suc_upt upt_conv_Cons)
  have f: "find P (map Suc xs) = map_option Suc (find (\<lambda>i. P (Suc i)) xs)" for P and xs :: "nat list"
    by (induction xs) auto
  show ?case
    using lt unfolding mpsearch1_loop.simps l by (simp add: f ih mp_here_def algebra_simps split: option.split)
qed

lemma mpsearch1_find:
  assumes "unat (P2V a) + unat len + 16 < 2 ^ 32"
  shows "mpsearch1 m a len = Inr (case find (\<lambda>i. mp_here m (P2V a + 16 * of_nat i)) [0..<(unat len + 15) div 16] of
    None \<Rightarrow> 0 | Some i \<Rightarrow> P2V a + 16 * of_nat i)"
proof -
  have u: "unat (P2V a + len) = unat (P2V a) + unat len" using assms by (simp add: unat_word_ariths)
  show ?thesis
    unfolding mpsearch1_def by (rule mpsearch1_loop_find) (use assms u in presburger)+
qed

section \<open>Which tables are accepted\<close>

definition entry_size :: "u8 \<Rightarrow> u32 option" where
  "entry_size t = (if t = MPPROC then Some sizeof_mpproc else if t \<in> {MPBUS, MPIOAPIC, MPIOINTR, MPLINTR} then Some 8 else None)"

text \<open>\<open>ps\<close> are the places of the entries from \<open>p\<close> up to \<open>q\<close>, all of known types.\<close>

inductive walk :: "memory \<Rightarrow> u32 \<Rightarrow> u32 \<Rightarrow> u32 list \<Rightarrow> u32 \<Rightarrow> bool" for m e where
  stop: "walk m e p [] p"
| step: "p < e \<Longrightarrow> entry_size (m p) = Some k \<Longrightarrow> walk m e (p + k) ps q \<Longrightarrow> walk m e p (p # ps) q"

definition apicids :: "memory \<Rightarrow> u32 list \<Rightarrow> u8 list" where
  "apicids m ps = map (\<lambda>p. m (p + 1)) (filter (\<lambda>p. m p = MPPROC) ps)"

definition last_ioapic :: "memory \<Rightarrow> u32 list \<Rightarrow> u8 \<Rightarrow> u8" where
  "last_ioapic m ps i = fold (\<lambda>p i. if m p = MPIOAPIC then m (p + 1) else i) ps i"

lemma mp_entries_walk:
  assumes "walk m e p ps q" and "length (cpus s) \<le> NCPU"
  shows "mp_entries m p e ismp s =
    mp_entries m q e ismp (s\<lparr>cpus := take NCPU (cpus s @ apicids m ps), ioapicid := last_ioapic m ps (ioapicid s)\<rparr>)"
  using assms
proof (induction arbitrary: s rule: walk.induct)
  case (stop p)
  then show ?case by (simp add: apicids_def last_ioapic_def)
next
  case (step p k ps q)
  let ?s = "if m p = MPPROC then (if length (cpus s) < NCPU then s\<lparr>cpus := cpus s @ [m (p + 1)]\<rparr> else s)
    else if m p = MPIOAPIC then s\<lparr>ioapicid := m (p + 1)\<rparr> else s"
  have "mp_entries m p e ismp s = mp_entries m (p + k) e ismp ?s"
    using step.hyps(1,2) by (subst mp_entries.simps) (auto simp: entry_size_def split: if_splits)
  also have "\<dots> = mp_entries m q e ismp (?s\<lparr>cpus := take NCPU (cpus ?s @ apicids m ps), ioapicid := last_ioapic m ps (ioapicid ?s)\<rparr>)"
    by (rule step.IH) (use step.prems in auto)
  also have "?s\<lparr>cpus := take NCPU (cpus ?s @ apicids m ps), ioapicid := last_ioapic m ps (ioapicid ?s)\<rparr> =
      s\<lparr>cpus := take NCPU (cpus s @ apicids m (p # ps)), ioapicid := last_ioapic m (p # ps) (ioapicid s)\<rparr>"
    using step.prems by (auto simp: apicids_def last_ioapic_def take_Cons')
  finally show ?case .
qed

lemma mp_entries_stuck:
  assumes "mp_entries m p e ismp s = Some r"
  shows "\<not> (p < e \<and> entry_size (m p) = None)"
proof -
  let ?P = "\<lambda>m p e (ismp :: bool) (s :: mpst) (r :: bool \<times> mpst). \<not> (p < e \<and> entry_size (m p) = None)"
  show ?thesis
  proof (rule mp_entries.raw_induct [where P = ?P, OF _ assms])
    fix f :: "memory \<Rightarrow> u32 \<Rightarrow> u32 \<Rightarrow> bool \<Rightarrow> mpst \<Rightarrow> (bool \<times> mpst) option" and m p e ismp s r
    assume ih: "\<And>m p e ismp s r. f m p e ismp s = Some r \<Longrightarrow> ?P m p e ismp s r"
      and body: "(if p < e then
         if m p = MPPROC then f m (p + sizeof_mpproc) e ismp (if length (cpus s) < NCPU then s\<lparr>cpus := cpus s @ [m (p + 1)]\<rparr> else s)
         else if m p = MPIOAPIC then f m (p + sizeof_mpioapic) e ismp (s\<lparr>ioapicid := m (p + 1)\<rparr>)
         else if m p = MPBUS \<or> m p = MPIOINTR \<or> m p = MPLINTR then f m (p + 8) e ismp s
         else f m p e False s
       else Some (ismp, s)) = Some r"
    show "?P m p e ismp s r"
    proof
      assume a: "p < e \<and> entry_size (m p) = None"
      then have "f m p e False s = Some r" using body by (auto simp: entry_size_def split: if_splits)
      then show False using ih a by blast
    qed
  qed
qed

text \<open>C30. The loop of \<open>mpinit\<close> over the table: when the entries from \<open>p\<close> on are of known types up to the end of the table, it ends, and the processors are the first
  \<open>NCPU\<close> processor entries in their order, with the last I/O controller; when it comes to an entry of another type, it never ends, because the \<open>break\<close> meant to leave the
  loop only leaves the switch, so that the panic for an unsuitable machine is never reached.\<close>

theorem mp_entries_outcome:
  assumes w: "walk m e p ps q" and n: "length (cpus s) \<le> NCPU" and q: "\<not> q < e \<or> entry_size (m q) = None"
  shows "mp_entries m p e True s =
    (if q < e then None
     else Some (True, s\<lparr>cpus := take NCPU (cpus s @ apicids m ps), ioapicid := last_ioapic m ps (ioapicid s)\<rparr>))"
proof (cases "q < e")
  case True
  then have "mp_entries m q e True t = None" for t using mp_entries_stuck [of m q e True t] q by (cases "mp_entries m q e True t") auto
  then show ?thesis using True mp_entries_walk [OF w n] by simp
next
  case False
  then show ?thesis using mp_entries_walk [OF w n] by (simp add: mp_entries.simps)
qed

text \<open>A table with two processors, an I/O controller and an entry of an unknown type.\<close>

definition mp_table :: memory where
  "mp_table a = (if a = 1 then 7 else if a = 20 then 0 else if a = 21 then 9 else if a = 40 then 2 else if a = 41 then 5 else if a = 48 then 77 else 0)"

theorem mp_entries_outcome_witness:
  "mp_entries mp_table 0 48 True \<lparr>cpus = [], ioapicid = 0, lapic = 0, mp_outs = []\<rparr> =
     Some (True, \<lparr>cpus = [7, 9], ioapicid = 5, lapic = 0, mp_outs = []\<rparr>) \<and>
   mp_entries mp_table 0 60 True \<lparr>cpus = [], ioapicid = 0, lapic = 0, mp_outs = []\<rparr> = None"
proof -
  let ?s = "\<lparr>cpus = [], ioapicid = 0, lapic = 0, mp_outs = []\<rparr>"
  have w: "walk mp_table e 0 [0, 20, 40] 48" if "40 < e" for e
  proof -
    have lt: "0 < e" "20 < e" "40 < e" using that by (auto simp: word_less_nat_alt)
    have "walk mp_table e 40 [40] 48"
      by (rule step [OF lt(3), of _ 8]) (simp_all add: mp_table_def entry_size_def stop)
    then have "walk mp_table e 20 [20, 40] 48"
      by (intro step [OF lt(2), of _ 20]) (simp_all add: mp_table_def entry_size_def)
    then show ?thesis by (intro step [OF lt(1), of _ 20]) (simp_all add: mp_table_def entry_size_def)
  qed
  have "mp_entries mp_table 0 48 True ?s = Some (True, \<lparr>cpus = [7, 9], ioapicid = 5, lapic = 0, mp_outs = []\<rparr>)"
    using mp_entries_outcome [OF w [of 48], of ?s] by (simp add: apicids_def last_ioapic_def mp_table_def)
  moreover have "mp_entries mp_table 0 60 True ?s = None"
    using mp_entries_outcome [OF w [of 60], of ?s] by (simp add: entry_size_def mp_table_def)
  ultimately show ?thesis by blast
qed

end
