(* ===== verification/Ulib.thy ===== *)
theory Ulib
  imports Cstring
begin

text \<open>
  The library of the user programs, \<^verbatim>\<open>src/src/ulib.c\<close>, and the programs \<^verbatim>\<open>src/src/wc.c\<close> and \<^verbatim>\<open>src/src/cat.c\<close>. A string that is only read is the list
  of its bytes before the terminating zero; a function that writes works on memory. What a program reads from a file descriptor is the list of
  the pieces that the calls of \<open>read\<close> return. Numbers are integers; \<open>atoi\<close> is for values that fit its result.
\<close>

section \<open>Strings\<close>

fun u_strcmp :: "u8 list \<Rightarrow> u8 list \<Rightarrow> int" where
  "u_strcmp (p # ps) (q # qs) = (if p = q then u_strcmp ps qs else uint p - uint q)"
| "u_strcmp (p # ps) [] = uint p"
| "u_strcmp [] (q # qs) = - uint q"
| "u_strcmp [] [] = 0"

text \<open>The index of the first occurrence, or \<open>None\<close> for 0.\<close>

fun u_strchr :: "u8 list \<Rightarrow> u8 \<Rightarrow> nat option" where
  "u_strchr [] c = None"
| "u_strchr (x # xs) c = (if x = c then Some 0 else map_option Suc (u_strchr xs c))"

fun atoi_loop :: "int \<Rightarrow> u8 list \<Rightarrow> int" where
  "atoi_loop n [] = n"
| "atoi_loop n (c # cs) = (if 48 \<le> c \<and> c \<le> 57 then atoi_loop (n * 10 + uint c - 48) cs else n)"

definition atoi :: "u8 list \<Rightarrow> int" where
  "atoi s = atoi_loop 0 s"

text \<open>\<open>gets\<close> with room for \<open>k\<close> bytes before the terminating zero; the input is what single-byte reads return until the end of the file.\<close>

fun gets_loop :: "nat \<Rightarrow> u8 list \<Rightarrow> u8 list" where
  "gets_loop 0 ins = []"
| "gets_loop (Suc k) [] = []"
| "gets_loop (Suc k) (c # ins) = c # (if c = 10 \<or> c = 13 then [] else gets_loop k ins)"

definition gets :: "nat \<Rightarrow> u8 list \<Rightarrow> u8 list" where
  "gets nbuf ins = gets_loop (nbuf - 1) ins @ [0]"

fun u_strcpy :: "nat \<Rightarrow> memory \<Rightarrow> u32 \<Rightarrow> u32 \<Rightarrow> err + memory" where
  "u_strcpy 0 m s t = Inl NoFuel"
| "u_strcpy (Suc k) m s t = (let m' = m(s := m t) in if m' s \<noteq> 0 then u_strcpy k m' (s + 1) (t + 1) else Inr m')"

fun u_memmove :: "memory \<Rightarrow> u32 \<Rightarrow> u32 \<Rightarrow> nat \<Rightarrow> memory" where
  "u_memmove m dst src 0 = m"
| "u_memmove m dst src (Suc n) = u_memmove (m(dst := m src)) (dst + 1) (src + 1) n"

section \<open>wc and cat\<close>

record wcst =
  wl :: int
  ww :: int
  wc_c :: int
  inword :: bool

definition wc_char :: "u8 \<Rightarrow> wcst \<Rightarrow> wcst" where
  "wc_char b s =
    (let s = s\<lparr>wc_c := wc_c s + 1\<rparr>; s = (if b = 10 then s\<lparr>wl := wl s + 1\<rparr> else s)
     in if u_strchr [32, 13, 9, 10, 11] b \<noteq> None then s\<lparr>inword := False\<rparr>
        else if \<not> inword s then s\<lparr>ww := ww s + 1, inword := True\<rparr> else s)"

fun wc_reads :: "u8 list list \<Rightarrow> wcst \<Rightarrow> wcst" where
  "wc_reads [] s = s"
| "wc_reads (b # bs) s = (if b = [] then s else wc_reads bs (fold wc_char b s))"

definition wc :: "u8 list list \<Rightarrow> int \<times> int \<times> int" where
  "wc reads = (let s = wc_reads reads \<lparr>wl = 0, ww = 0, wc_c = 0, inword = False\<rparr> in (wl s, ww s, wc_c s))"

text \<open>The bytes that \<open>cat\<close> writes when its writes succeed.\<close>

fun cat :: "u8 list list \<Rightarrow> u8 list" where
  "cat [] = []"
| "cat (b # bs) = (if b = [] then [] else b @ cat bs)"

section \<open>Correctness\<close>

lemma u_strcmp_eq: "0 \<notin> set p \<Longrightarrow> 0 \<notin> set q \<Longrightarrow> u_strcmp p q = 0 \<longleftrightarrow> p = q"
  by (induction p q rule: u_strcmp.induct) (auto simp: uint_0_iff)

lemma u_strchr_Some: "u_strchr s c = Some i \<longleftrightarrow> i < length s \<and> s ! i = c \<and> (\<forall>j<i. s ! j \<noteq> c)"
proof (induction s arbitrary: i)
  case (Cons x xs)
  then show ?case by (cases i) (auto simp: All_less_Suc2)
qed simp

lemma u_strchr_None: "u_strchr s c = None \<longleftrightarrow> c \<notin> set s"
  by (induction s) auto

definition digits_value :: "u8 list \<Rightarrow> int" where
  "digits_value ds = fold (\<lambda>c n. n * 10 + (uint c - 48)) ds 0"

lemma atoi_digits: "atoi s = digits_value (takeWhile (\<lambda>c. 48 \<le> c \<and> c \<le> 57) s)"
proof -
  have "atoi_loop n s = fold (\<lambda>c n. n * 10 + (uint c - 48)) (takeWhile (\<lambda>c. 48 \<le> c \<and> c \<le> 57) s) n" for n
    by (induction s arbitrary: n) (simp_all add: add_diff_eq)
  then show ?thesis by (simp add: atoi_def digits_value_def)
qed

lemma gets_bound: "0 < nbuf \<Longrightarrow> length (gets nbuf ins) \<le> nbuf"
proof -
  have "length (gets_loop k ins) \<le> k" for k
    by (induction k ins rule: gets_loop.induct) auto
  from this [of "nbuf - 1"] show "0 < nbuf \<Longrightarrow> length (gets nbuf ins) \<le> nbuf" by (simp add: gets_def)
qed

text \<open>The user library's \<open>memmove\<close> copies upwards only: it is right when no byte of the source is overwritten before it is read \<dots>\<close>

lemma u_memmove_copies:
  assumes "n \<le> 4294967296" and "\<And>i j. i < j \<Longrightarrow> j < n \<Longrightarrow> dst + of_nat i \<noteq> src + of_nat j"
  shows "u_memmove m dst src n = (\<lambda>a. if unat (a - dst) < n then m (src + (a - dst)) else m a)"
proof -
  have "u_memmove m dst src n = copy_fwd m dst src n" by (induction n arbitrary: m dst src) simp_all
  then show ?thesis using copy_fwd_eq [OF assms] by simp
qed

text \<open>\<dots> and otherwise repeats the first bytes.\<close>

lemma u_memmove_overlap: "u_memmove m 1 0 2 2 = m 0"
  by (simp add: numeral_2_eq_2)

text \<open>How a file is cut into reads does not matter to \<open>wc\<close> and \<open>cat\<close>.\<close>

lemma wc_reads_concat: "[] \<notin> set bs \<Longrightarrow> wc_reads bs s = fold wc_char (concat bs) s"
  by (induction bs arbitrary: s) auto

lemma cat_concat: "[] \<notin> set bs \<Longrightarrow> cat bs = concat bs"
  by (induction bs) auto

definition is_space :: "u8 \<Rightarrow> bool" where
  "is_space b \<longleftrightarrow> b \<in> {32, 13, 9, 10, 11}"

text \<open>The words of a text: the bytes that are not white space and have white space, or nothing, before them.\<close>

definition word_starts :: "bool \<Rightarrow> u8 list \<Rightarrow> nat" where
  "word_starts w d = card {i. i < length d \<and> \<not> is_space (d ! i) \<and> (if i = 0 then \<not> w else is_space (d ! (i - 1)))}"

lemma word_starts_Cons:
  "word_starts w (b # d) = (if \<not> w \<and> \<not> is_space b then 1 else 0) + word_starts (\<not> is_space b) d"
proof -
  let ?A = "{i. i < length d \<and> \<not> is_space (d ! i) \<and> (if i = 0 then \<not> \<not> is_space b else is_space (d ! (i - 1)))}"
  let ?Z = "{i. i = (0::nat) \<and> \<not> w \<and> \<not> is_space b}"
  have s: "{i. i < length (b # d) \<and> \<not> is_space ((b # d) ! i) \<and> (if i = 0 then \<not> w else is_space ((b # d) ! (i - 1)))} = ?Z \<union> Suc ` ?A"
  proof (rule set_eqI)
    fix i show "i \<in> {i. i < length (b # d) \<and> \<not> is_space ((b # d) ! i) \<and> (if i = 0 then \<not> w else is_space ((b # d) ! (i - 1)))} \<longleftrightarrow> i \<in> ?Z \<union> Suc ` ?A"
      by (cases i) (auto simp: image_iff nth_Cons')
  qed
  have "card (?Z \<union> Suc ` ?A) = card ?Z + card (Suc ` ?A)" by (rule card_Un_disjoint) auto
  moreover have "card (Suc ` ?A) = card ?A" by (rule card_image) simp
  moreover have "card ?Z = (if \<not> w \<and> \<not> is_space b then 1 else 0)" by simp
  ultimately show ?thesis unfolding word_starts_def s by simp
qed

lemma wc_counts:
  "wc_c (fold wc_char d s) = wc_c s + int (length d)"
  "wl (fold wc_char d s) = wl s + int (length (filter ((=) 10) d))"
  "ww (fold wc_char d s) = ww s + int (word_starts (inword s) d)"
proof (induction d arbitrary: s)
  case Nil
  { case 1 show ?case by simp }
  { case 2 show ?case by simp }
  { case 3 show ?case by (simp add: word_starts_def) }
next
  case (Cons b d)
  have f: "wc_c (wc_char b s) = wc_c s + 1" "wl (wc_char b s) = wl s + (if b = 10 then 1 else 0)"
    "ww (wc_char b s) = ww s + (if \<not> inword s \<and> \<not> is_space b then 1 else 0)" "inword (wc_char b s) = (\<not> is_space b)" for s
    by (auto simp: wc_char_def Let_def is_space_def)
  { case 1 show ?case using Cons(1) by (simp add: f) }
  { case 2 show ?case using Cons(2) by (simp add: f) }
  { case 3 show ?case using Cons(3) by (simp add: f word_starts_Cons) }
qed

end
