(* ===== verification/Umalloc.thy ===== *)
theory Umalloc
  imports Machine
begin

text \<open>
  The allocator of the user library, \<^verbatim>\<open>src/src/umalloc.c\<close>, on the memory of the process. A \<open>Header\<close> is a word for the next block of the
  circular list and a word for the size in headers. What the calls of \<open>sbrk\<close> return is a list in the state. The loops around the
  list do not have to end on a list that is not circular, so they are partial functions.
\<close>

section \<open>State\<close>

record umst =
  umem :: memory
  freep :: u32
  sbrks :: "u32 list"

definition hptr :: "memory \<Rightarrow> u32 \<Rightarrow> u32" where "hptr m p = load32 m p"
definition hsize :: "memory \<Rightarrow> u32 \<Rightarrow> u32" where "hsize m p = load32 m (p + 4)"
definition set_ptr :: "u32 \<Rightarrow> u32 \<Rightarrow> memory \<Rightarrow> memory" where "set_ptr p v m = store32 m p v"
definition set_size :: "u32 \<Rightarrow> u32 \<Rightarrow> memory \<Rightarrow> memory" where "set_size p v m = store32 m (p + 4) v"

section \<open>free\<close>

partial_function (option) free_find :: "memory \<Rightarrow> u32 \<Rightarrow> u32 \<Rightarrow> u32 option" where
  "free_find m bp p =
    (if bp > p \<and> bp < hptr m p then Some p
     else if p \<ge> hptr m p \<and> (bp > p \<or> bp < hptr m p) then Some p
     else free_find m bp (hptr m p))"

definition free :: "u32 \<Rightarrow> umst \<Rightarrow> umst option" where
  "free ap s =
    (let bp = ap - 8; m = umem s in
     case free_find m bp (freep s) of
       None \<Rightarrow> None
     | Some p \<Rightarrow>
         let m = (if bp + 8 * hsize m bp = hptr m p
                  then let m1 = set_size bp (hsize m bp + hsize m (hptr m p)) m in set_ptr bp (hptr m1 (hptr m1 p)) m1
                  else set_ptr bp (hptr m p) m);
             m = (if p + 8 * hsize m p = bp
                  then let m1 = set_size p (hsize m p + hsize m bp) m in set_ptr p (hptr m1 bp) m1
                  else set_ptr p bp m)
         in Some (s\<lparr>umem := m, freep := p\<rparr>))"

section \<open>malloc\<close>

text \<open>The new value of \<open>freep\<close>, or 0.\<close>

definition morecore :: "u32 \<Rightarrow> umst \<Rightarrow> (u32 \<times> umst) option" where
  "morecore nu s =
    (let nu = (if nu < 4096 then 4096 else nu) in
     case sbrks s of
       [] \<Rightarrow> Some (0, s)
     | p # ps \<Rightarrow>
         let s = s\<lparr>sbrks := ps\<rparr> in
         if p = -1 then Some (0, s)
         else
           (case free (p + 8) (s\<lparr>umem := set_size p nu (umem s)\<rparr>) of
              None \<Rightarrow> None
            | Some s \<Rightarrow> Some (freep s, s)))"

partial_function (option) malloc_loop :: "u32 \<Rightarrow> u32 \<Rightarrow> u32 \<Rightarrow> umst \<Rightarrow> (u32 \<times> umst) option" where
  "malloc_loop nunits prevp p s =
    (if hsize (umem s) p \<ge> nunits then
       if hsize (umem s) p = nunits
       then Some (p + 8, s\<lparr>umem := set_ptr prevp (hptr (umem s) p) (umem s), freep := prevp\<rparr>)
       else
         let m = set_size p (hsize (umem s) p - nunits) (umem s);
             q = p + 8 * hsize m p
         in Some (q + 8, s\<lparr>umem := set_size q nunits m, freep := prevp\<rparr>)
     else if p = freep s then
       (case morecore nunits s of
          None \<Rightarrow> None
        | Some (p, s) \<Rightarrow> if p = 0 then Some (0, s) else malloc_loop nunits p (hptr (umem s) p) s)
     else malloc_loop nunits p (hptr (umem s) p) s)"

definition malloc :: "u32 \<Rightarrow> u32 \<Rightarrow> umst \<Rightarrow> (u32 \<times> umst) option" where
  "malloc base nbytes s =
    (let nunits = (nbytes + 8 - 1) div 8 + 1;
         s = (if freep s = 0 then s\<lparr>umem := set_size base 0 (set_ptr base base (umem s)), freep := base\<rparr> else s);
         prevp = freep s
     in malloc_loop nunits prevp (hptr (umem s) prevp) s)"


section \<open>The first allocation\<close>

lemma next_word: "p mod 4 = 0 \<Longrightarrow> (p + 4) mod 4 = 0" for p :: u32
proof -
  assume "p mod 4 = 0"
  then have "unat p mod 4 = 0" using unat_mod [of p 4] by simp
  moreover have "unat ((p + 4) mod 4) = unat p mod 4" by (simp add: unat_mod unat_word_ariths mod_mod_cancel)
  ultimately show ?thesis by (simp add: word_unat_eq_iff)
qed

lemma header_frame:
  assumes "p mod 4 = 0" and "q mod 4 = 0" and "p + 4 \<noteq> q" and "p \<noteq> q + 4"
  shows "hptr (set_size p v m) q = hptr m q" "hsize (set_ptr p v m) q = hsize m q"
    "p \<noteq> q \<Longrightarrow> hptr (set_ptr p v m) q = hptr m q" "p \<noteq> q \<Longrightarrow> hsize (set_size p v m) q = hsize m q"
proof -
  have a: "(p + 4) mod 4 = 0" "(q + 4) mod 4 = 0"
    by (rule next_word, rule assms)+
  show "hptr (set_size p v m) q = hptr m q" "hsize (set_ptr p v m) q = hsize m q"
    "p \<noteq> q \<Longrightarrow> hptr (set_ptr p v m) q = hptr m q" "p \<noteq> q \<Longrightarrow> hsize (set_size p v m) q = hsize m q"
    using assms a by (simp_all add: hptr_def hsize_def set_ptr_def set_size_def load32_store32_other)
qed

lemma header_same [simp]: "hptr (set_ptr p v m) p = v" "hsize (set_size p v m) p = v"
  by (simp_all add: hptr_def hsize_def set_ptr_def set_size_def)

text \<open>The first call of \<open>malloc\<close> takes a new piece of 4096 headers at \<open>a\<close>, puts it on the list, and hands out its end: the block
  has its size in its header, and the rest of the piece stays on the list.\<close>

lemma malloc_first:
  assumes fp: "freep s = 0" and sb: "sbrks s = [a]" and al: "base mod 4 = 0" "a mod 4 = 0"
    and ne: "base \<noteq> 0" "a \<noteq> -1" "a \<noteq> base" "a + 4 \<noteq> base" "base + 4 \<noteq> a" "a + 0x8000 \<noteq> base"
    and n: "k = (nbytes + 7) div 8 + 1" "0 < k" "k < 4096"
  shows "\<exists>s'. malloc base nbytes s = Some (a + 8 * (4096 - k) + 8, s') \<and> hsize (umem s') (a + 8 * (4096 - k)) = k \<and> freep s' = base"
proof -
  note fr = header_frame [OF al(1,2)] header_frame [OF al(2,1)]
  have self: "p + 4 \<noteq> p" "p \<noteq> p + 4" for p :: u32 by simp_all
  note fs = header_frame(1,2) [OF al(1) al(1) self] header_frame(1,2) [OF al(2) al(2) self]
  define m0 where "m0 = set_size base 0 (set_ptr base base (umem s))"
  have m0: "hptr m0 base = base" "hsize m0 base = 0" unfolding m0_def by (simp_all add: fs)
  define m1 where "m1 = set_size a 4096 m0"
  have m1: "hptr m1 base = base" "hsize m1 base = 0" "hsize m1 a = 4096" unfolding m1_def using ne m0 by (simp_all add: fr)
  define m2 where "m2 = set_ptr base a (set_ptr a base m1)"
  have m2: "hptr m2 base = a" "hsize m2 a = 4096" unfolding m2_def using ne m1 by (simp_all add: fr fs)
  have ff: "free_find m1 a base = Some base" using m1(1) ne(3) by (subst free_find.simps) auto
  let ?s1 = "s\<lparr>umem := m0, freep := base\<rparr>"
  have "free (a + 8) (?s1\<lparr>sbrks := [], umem := m1\<rparr>) = Some (?s1\<lparr>sbrks := [], umem := m2\<rparr>)"
    using ff m1 ne by (simp add: free_def Let_def m2_def fr fs)
  then have mc: "morecore k ?s1 = Some (base, ?s1\<lparr>sbrks := [], umem := m2\<rparr>)"
    using n(3) sb ne(2) by (simp add: morecore_def Let_def m1_def)
  have k0: "k \<noteq> 0" "\<not> k \<le> 0" using n(2) by auto
  define m3 where "m3 = set_size a (4096 - k) m2"
  let ?q = "a + 8 * (4096 - k)"
  let ?s' = "?s1\<lparr>sbrks := [], umem := set_size ?q k m3, freep := base\<rparr>"
  have "malloc_loop k base a (?s1\<lparr>sbrks := [], umem := m2\<rparr>) = Some (?q + 8, ?s')"
    using n(3) m2 by (subst malloc_loop.simps) (auto simp: Let_def m3_def)
  moreover have "malloc_loop k base base ?s1 = malloc_loop k base a (?s1\<lparr>sbrks := [], umem := m2\<rparr>)"
    using k0 m0 m2 mc ne(1) by (subst malloc_loop.simps) simp
  ultimately have l: "malloc_loop k base base ?s1 = Some (?q + 8, ?s')" by (simp only:)
  have nk: "(nbytes + 8 - 1) div 8 + 1 = k" using n(1) by (simp add: add.commute)
  have "malloc base nbytes s = Some (?q + 8, ?s')"
    unfolding malloc_def Let_def nk fp m0_def [symmetric] if_P [OF refl] using l m0(1) by simp
  then show ?thesis by auto
qed

end
