(* ===== verification/Spec2Isabelle.thy ===== *)
theory Spec2Isabelle
  imports Crypt_Fork Syscall_User Trap Mkfs Memide Grep Kbd Sh Apic Mp Ulib Umalloc
begin

text \<open>
  A verification development of the kernel of this repository: xv6 for the x86 with pages that are kept
  encrypted until they are used, and a clock that keeps the number of decrypted pages of a process within
  \<open>CLOCKSIZE\<close>. All paths below are under \<^verbatim>\<open>src/src\<close>.

  \<^bold>\<open>Parts and theories.\<close>

  \<^item> \<open>Prelude\<close>: machine words, the errors a kernel path can end in (\<open>Panic\<close>, \<open>NullDeref\<close>, \<open>OutOfBounds\<close>, \<open>PageFault\<close>, \<open>WouldBlock\<close>,
    \<open>NoFuel\<close>) and the combinator \<open>bindE\<close> that sequences fallible steps.
  \<^item> \<open>Mmu\<close> (\<^verbatim>\<open>mmu.h\<close>, \<^verbatim>\<open>memlayout.h\<close>, \<^verbatim>\<open>param.h\<close>) and \<open>Machine\<close>: address macros, descriptors, byte memory, the page walk of the processor.
  \<^item> \<open>Cstring\<close> (\<^verbatim>\<open>string.c\<close>), \<open>Kalloc\<close> (\<^verbatim>\<open>kalloc.c\<close>).
  \<^item> \<open>Vm\<close> (\<^verbatim>\<open>vm.c\<close> up to \<open>copyout\<close>), with the view of a page table as a map in \<open>Vm_Tables\<close> and the effect of the user memory
    operations in that view in \<open>Uvm\<close>.
  \<^item> \<open>Proc\<close> (the process table and scheduling of \<^verbatim>\<open>proc.c\<close>), \<open>Procs\<close> (\<open>userinit\<close>, \<open>fork\<close>, \<open>exit\<close>, \<open>forkret\<close>).
  \<^item> \<open>Crypt\<close> (the encryption functions of \<^verbatim>\<open>vm.c\<close>, \<open>growproc\<close>, the clock part of \<open>fork\<close>), with its proofs in \<open>Crypt_Pages\<close>, \<open>Crypt_Enc\<close>,
    \<open>Crypt_Dec\<close>, \<open>Crypt_Clock\<close>, \<open>Crypt_Main\<close>, \<open>Crypt_Fork\<close> and \<open>Crypt_User\<close>.
  \<^item> \<open>Spinlock\<close> (\<^verbatim>\<open>spinlock.c\<close>, \<^verbatim>\<open>sleeplock.c\<close>, \<open>sched\<close>), \<open>Pipe\<close> (\<^verbatim>\<open>pipe.c\<close>), \<open>Console\<close> (\<^verbatim>\<open>console.c\<close>, \<^verbatim>\<open>printf.c\<close>, \<^verbatim>\<open>uart.c\<close>).
  \<^item> \<open>Disk\<close> (\<^verbatim>\<open>ide.c\<close>, \<^verbatim>\<open>bio.c\<close>) and \<open>Log\<close> (\<^verbatim>\<open>log.c\<close>), with their proofs in \<open>Bio\<close>, \<open>Log_Crash\<close> and \<open>Log_Write\<close>; block allocation and inodes over them in \<open>Fs_Blocks\<close> and \<open>Fs_Inodes\<close>.
  \<^item> \<open>Inode\<close> and \<open>Fs\<close> (\<^verbatim>\<open>fs.c\<close>), \<open>File\<close> (\<^verbatim>\<open>file.c\<close>), \<open>Syscall\<close> (\<^verbatim>\<open>syscall.c\<close>), \<open>Exec\<close> (\<^verbatim>\<open>exec.c\<close>), \<open>Sysfile\<close> (\<^verbatim>\<open>sysfile.c\<close>), \<open>Trap\<close> (\<^verbatim>\<open>sysproc.c\<close>,
    \<^verbatim>\<open>trap.c\<close>), with the arguments of system calls over encrypted memory in \<open>Syscall_User\<close>.
  \<^item> \<open>Memide\<close> (\<^verbatim>\<open>memide.c\<close>, the driver that takes the place of \<^verbatim>\<open>ide.c\<close>) and \<open>Kbd\<close> (\<^verbatim>\<open>kbd.c\<close>, \<^verbatim>\<open>kbd.h\<close>).
  \<^item> \<open>Mp\<close> (\<^verbatim>\<open>mp.c\<close>, \<open>mycpu\<close>), \<open>Apic\<close> (\<^verbatim>\<open>lapic.c\<close>, \<^verbatim>\<open>ioapic.c\<close>, \<^verbatim>\<open>picirq.c\<close>, the set-up of \<^verbatim>\<open>uart.c\<close>) with the trap numbers of \<open>Traps\<close> (\<^verbatim>\<open>traps.h\<close>). What these store in device
    registers is a list in their state; what they read is an argument.
  \<^item> User programs: \<open>Grep\<close> (\<^verbatim>\<open>grep.c\<close>), \<open>Sh\<close> (the parser of \<^verbatim>\<open>sh.c\<close>), \<open>Ulib\<close> (\<^verbatim>\<open>ulib.c\<close>, \<^verbatim>\<open>wc.c\<close>, \<^verbatim>\<open>cat.c\<close>) and \<open>Umalloc\<close> (\<^verbatim>\<open>umalloc.c\<close>). \<open>Mkfs\<close> (\<^verbatim>\<open>mkfs.c\<close>) builds the image of the file system on the host.

  \<^bold>\<open>State.\<close> The kernel's globals are one record that each component extends: memory and the free list (\<open>phys\<close>), processes (\<open>kst\<close>), sleep
  locks (\<open>slst\<close>), pipes (\<open>pipest\<close>), buffers and the disk (\<open>diskst\<close>), the log (\<open>logst\<close>), inodes and the console (\<open>fsst\<close>), open files (\<open>filest\<close>). An operation takes the
  state and returns an error or its value with the new state; it is polymorphic in the
  components it does not know, which is its frame condition. Pointers to table entries are indices; pointers to
  memory are 32-bit words. A critical section is one step; a call that has to sleep ends in \<open>WouldBlock\<close>, or, for pipes, in an outcome with the work that is left.
  Three interfaces are locales: \<open>frame_pool\<close>, which the allocator of \<open>Kalloc\<close> provides, \<open>bounded_queue\<close>, which the ring of a pipe provides, and \<open>block_driver\<close>, which both
  disk drivers provide.
  Processors and their locks are explicit in \<open>Spinlock\<close>, where an inductive relation interleaves them; a second relation there interleaves the processes and the scheduler around sleep locks.

  \<^bold>\<open>What is shown.\<close>

  \<^item> Encryption: \<open>mencrypt\<close> makes the pages of its range inaccessible and keeps their plaintext; a successful \<open>mdecrypt\<close> makes the page accessible, keeps the
    plaintext of the address space, and keeps the clock equal to the set of decrypted pages. On top of these, the kernel's loads and stores of user memory act on the
    plaintext whichever pages are encrypted, and so do the arguments of system calls, as long as no page that is touched begins with the plaintext byte \<open>0xFF\<close>. Two ways in which this fails are proved as well: a page whose
    first plaintext byte is \<open>0xFF\<close>, and the clock position of a child.
  \<^item> Page tables and frames: \<open>mappages\<close> maps exactly its range and changes no live entry; the allocator returns what was freed; \<open>freerange\<close> terminates.
  \<^item> The disk: the cache refines a store of blocks; \<open>log_write\<close> keeps the header well formed; \<open>commit\<close> and \<open>recover_from_log\<close> are atomic under a power failure between any two sector writes. \<open>balloc\<close> takes the first free block of the bitmap, zeroed and logged, and \<open>bfree\<close> undoes it; \<open>ilock\<close> loads the inode that \<open>iupdate\<close> stored.
  \<^item> Concurrency: mutual exclusion of spin locks; no wake-up of a sleep lock is lost, in any interleaving of the processes with the scheduler, and a sleeper obtains a lock it finds free; pipes wake their
    sleepers, apart from the lost wake-up of a killed writer, and deliver what was written in order; \<open>cprintf\<close> may release a lock its caller holds.
  \<^item> Drivers: the disk and the memory disk cannot be told apart by the cache, and a block read after a write is the block written. The keyboard's characters, and what a letter key gives in every state of the modifiers. The processors that
    \<open>mpinit\<close> finds, and that it does not end on a table with an entry of an unknown type; which interrupts the I/O controller delivers; the clock's conversion.
  \<^item> User programs: the matcher of \<open>grep\<close> agrees with a denotation of its expressions, and \<open>grep\<close> prints exactly the matching lines of a file without zero bytes whose lines fit its buffer, but loses the beginning of a line that arrives in two reads; the shell's
    parser always ends, in a well-formed command or a complaint, and terminates exactly its tokens; what \<open>wc\<close> counts; the first block that \<open>malloc\<close> hands out.
  \<^item> Processes: what \<open>exit\<close> does to the table: it hands its children, and no other process, to the initial process and wakes its parent.
  \<^item> Output and strings: number printing, the agreement of the separate format interpreters of \<^verbatim>\<open>console.c\<close> and \<^verbatim>\<open>printf.c\<close>, the cursor, \<open>memmove\<close> and \<open>memset\<close>.

  \<^bold>\<open>Bounds.\<close> Loops over pages have a fuel of \<open>2^20\<close>, the number of pages of the address space: each iteration advances by a page. Running out is the error \<open>NoFuel\<close>, never a result; \<open>freerange\<close> and \<open>mappages\<close> are shown
  to end within it under the hypotheses of their theorems. The compaction of the clock in \<open>growproc\<close> has a fuel of \<open>inClock\<close>, since each iteration drops a node or moves on; the wait in \<open>iderw\<close> has the length of the
  request queue, and \<open>filewrite\<close> the number of bytes. The functions of the shell's parser have a fuel of four
  for each byte of the line and four more, which is shown to suffice: between two descents through the four functions a byte is consumed. The loops of \<open>mpinit\<close>, \<open>free\<close> and \<open>malloc\<close>
  that may run forever are partial functions, whose result is then \<open>None\<close>. Other loops recurse on the list or the count they run over.

  \<^bold>\<open>Hypotheses on the hardware.\<close> The device answers each request (\<open>iderw\<close> runs the interrupt handler in place of the sleep) and writes a sector as a whole. The look-aside buffer is not
  modelled: every access walks the tables. The addresses of kernel code and of the end of the kernel image come from the linker and are state.

  \<^bold>\<open>Not modelled.\<close> Assembly and start-up code (\<^verbatim>\<open>main.c\<close>, \<^verbatim>\<open>bootmain.c\<close>). The part of the shell that executes commands, and the other user programs, which are sequences of system calls. No correctness property is proved of the file system above blocks and inodes, of \<open>exec\<close> and of the bodies of the system calls; they are definitions.
\<close>

end
